(* ===== verification/Cw_Prelude.thy ===== *)
theory Cw_Prelude
  imports Main "HOL-Library.Char_ord" "HOL-Library.List_Lexorder"
begin

text \<open>
  The shared vocabulary of the development: results that may run into undefined behaviour of
  C++, the ranges of the fixed width integers, truncating division, ordered association lists
  that stand for \<open>std::map\<close>, and the collections of rewrite rules that the component
  theories add to.
\<close>

named_theorems ub_simps \<open>evaluation of results that may be undefined\<close>
named_theorems range_simps \<open>the bounds of the fixed width integer types\<close>
named_theorems dbl_eval \<open>evaluation of floating point operations on closed terms\<close>
named_theorems value_simps \<open>evaluation of the operations on values\<close>

section \<open>Results that may be undefined\<close>

text \<open>
  What a C++ operation of the program can run into instead of giving a result: a read of a
  field that was never written, a signed overflow, the division trap, a conversion of a
  \<open>double\<close> that does not fit, a null pointer, a failed assertion, an index out of
  range, and a call to \<open>abort\<close>.
\<close>

datatype ub =
    Indeterminate
  | SignedOverflow
  | DivisionTrap
  | ConversionRange
  | NullPointer
  | AssertFailed
  | OutOfRange
  | Aborted
  | UseAfterFree

type_synonym 'a res = "ub + 'a"

fun bindr :: "'e + 'a \<Rightarrow> ('a \<Rightarrow> 'e + 'b) \<Rightarrow> 'e + 'b" where
  "bindr (Inl e) f = Inl e"
| "bindr (Inr x) f = f x"

fun mapr :: "('a \<Rightarrow> 'b) \<Rightarrow> 'e + 'a \<Rightarrow> 'e + 'b" where
  "mapr f (Inl e) = Inl e"
| "mapr f (Inr x) = Inr (f x)"

text \<open>A read of a field: \<open>None\<close> is a field that no constructor or assignment wrote.\<close>

definition read_field :: "'a option \<Rightarrow> 'a res" where
  "read_field o_v = (case o_v of None \<Rightarrow> Inl Indeterminate | Some v \<Rightarrow> Inr v)"

definition guardr :: "ub \<Rightarrow> bool \<Rightarrow> unit res" where
  "guardr e b = (if b then Inr () else Inl e)"

definition defined :: "'a res \<Rightarrow> bool" where
  "defined r \<longleftrightarrow> (case r of Inl _ \<Rightarrow> False | Inr _ \<Rightarrow> True)"

section \<open>Fixed width integers\<close>

definition LONG_MAX :: int where "LONG_MAX = 9223372036854775807"
definition LONG_MIN :: int where "LONG_MIN = - 9223372036854775808"
definition INT_MAX :: int where "INT_MAX = 2147483647"
definition INT_MIN :: int where "INT_MIN = - 2147483648"

definition in_long :: "int \<Rightarrow> bool" where
  "in_long i \<longleftrightarrow> LONG_MIN \<le> i \<and> i \<le> LONG_MAX"

text \<open>The result of signed arithmetic on \<open>long\<close>: undefined when it does not fit.\<close>

definition chk_long :: "int \<Rightarrow> int res" where
  "chk_long i = (if in_long i then Inr i else Inl SignedOverflow)"

definition chk_int :: "int \<Rightarrow> int res" where
  "chk_int i = (if INT_MIN \<le> i \<and> i \<le> INT_MAX then Inr i else Inl SignedOverflow)"

text \<open>The conversion of any integer to \<open>uint64_t\<close> and back to \<open>long\<close>.\<close>

definition to_u64 :: "int \<Rightarrow> int" where
  "to_u64 i = i mod 18446744073709551616"

definition to_long :: "int \<Rightarrow> int" where
  "to_long i = (let u = to_u64 i in if u \<le> LONG_MAX then u else u - 18446744073709551616)"

text \<open>The conversion of any integer to a 32-bit \<open>int\<close>.\<close>

definition to_int32 :: "int \<Rightarrow> int" where
  "to_int32 i = (i + 2147483648) mod 4294967296 - 2147483648"

text \<open>C++ division and remainder truncate towards zero.\<close>

definition quot :: "int \<Rightarrow> int \<Rightarrow> int" where
  "quot a b = sgn a * sgn b * (\<bar>a\<bar> div \<bar>b\<bar>)"

definition remt :: "int \<Rightarrow> int \<Rightarrow> int" where
  "remt a b = a - b * quot a b"

definition div_long :: "int \<Rightarrow> int \<Rightarrow> int res" where
  "div_long a b =
     (if b = 0 \<or> (a = LONG_MIN \<and> b = -1) then Inl DivisionTrap else Inr (quot a b))"

definition rem_long :: "int \<Rightarrow> int \<Rightarrow> int res" where
  "rem_long a b =
     (if b = 0 \<or> (a = LONG_MIN \<and> b = -1) then Inl DivisionTrap else Inr (remt a b))"

section \<open>Ordered association lists\<close>

text \<open>
  A \<open>std::map\<close> is its list of entries in the order an iterator meets them: strictly
  increasing keys.
\<close>

fun amap_find :: "('k \<times> 'v) list \<Rightarrow> 'k::linorder \<Rightarrow> 'v option" where
  "amap_find [] k = None"
| "amap_find (e # es) k = (if fst e = k then Some (snd e) else amap_find es k)"

fun amap_put :: "'k::linorder \<Rightarrow> 'v \<Rightarrow> ('k \<times> 'v) list \<Rightarrow> ('k \<times> 'v) list" where
  "amap_put k v [] = [(k, v)]"
| "amap_put k v (e # es) =
     (if fst e < k then e # amap_put k v es
      else if fst e = k then (k, v) # es
      else (k, v) # e # es)"

fun amap_erase :: "'k::linorder \<Rightarrow> ('k \<times> 'v) list \<Rightarrow> ('k \<times> 'v) list" where
  "amap_erase k [] = []"
| "amap_erase k (e # es) = (if fst e = k then es else e # amap_erase k es)"

definition amap_ok :: "('k::linorder \<times> 'v) list \<Rightarrow> bool" where
  "amap_ok m \<longleftrightarrow> sorted_wrt (<) (map fst m)"

section \<open>Lemmas\<close>

lemma bindr_Inr_iff [ub_simps]: "bindr r f = Inr y \<longleftrightarrow> (\<exists>x. r = Inr x \<and> f x = Inr y)"
  by (cases r) auto

lemma mapr_Inr_iff [ub_simps]: "mapr f r = Inr y \<longleftrightarrow> (\<exists>x. r = Inr x \<and> y = f x)"
  by (cases r) auto

lemma mapr_Inl_iff [simp]: "mapr f r = Inl e \<longleftrightarrow> r = Inl e"
  by (cases r) auto

lemma bindr_Inl_iff: "bindr r f = Inl e \<longleftrightarrow> r = Inl e \<or> (\<exists>x. r = Inr x \<and> f x = Inl e)"
  by (cases r) auto

lemma bindr_assoc: "bindr (bindr r f) g = bindr r (\<lambda>x. bindr (f x) g)"
  by (cases r) auto

lemma read_field_simps [simp]:
  "read_field None = Inl Indeterminate" "read_field (Some v) = Inr v"
  by (simp_all add: read_field_def)

lemma read_field_Inr_iff [simp]: "read_field f = Inr v \<longleftrightarrow> f = Some v"
  by (cases f) auto

lemma guardr_simps [simp]: "guardr e True = Inr ()" "guardr e False = Inl e"
  by (simp_all add: guardr_def)

lemma defined_simps [simp]: "defined (Inl e) = False" "defined (Inr x) = True"
  by (simp_all add: defined_def)

lemma mapr_mapr: "mapr f (mapr g r) = mapr (\<lambda>x. f (g x)) r"
  by (cases r) simp_all

lemma defined_mapr [simp]: "defined (mapr f r) = defined r"
  by (cases r) auto

lemma defined_read_field [simp]: "defined (read_field f) \<longleftrightarrow> f \<noteq> None"
  by (cases f) auto

lemma defined_iff: "defined r \<longleftrightarrow> (\<exists>x. r = Inr x)"
  by (cases r) auto

lemma defined_bindr: "defined (bindr r f) \<longleftrightarrow> (\<exists>x. r = Inr x \<and> defined (f x))"
  by (cases r) auto

lemmas long_bounds [range_simps] = in_long_def LONG_MAX_def LONG_MIN_def INT_MAX_def INT_MIN_def

lemma chk_long_in [simp]: "in_long i \<Longrightarrow> chk_long i = Inr i"
  by (simp add: chk_long_def)

lemma chk_long_Inr_iff: "chk_long i = Inr j \<longleftrightarrow> in_long i \<and> j = i"
  by (auto simp: chk_long_def)

lemma to_long_in_long: "in_long (to_long i)"
proof -
  have "0 \<le> i mod 18446744073709551616" and "i mod 18446744073709551616 < 18446744073709551616"
    by simp_all
  then show ?thesis by (auto simp: to_long_def to_u64_def Let_def long_bounds)
qed

lemma to_long_id [simp]: "in_long i \<Longrightarrow> to_long i = i"
proof (cases "0 \<le> i")
  case True
  moreover assume "in_long i"
  ultimately show ?thesis by (simp add: to_long_def to_u64_def Let_def long_bounds)
next
  case False
  moreover assume "in_long i"
  ultimately have "i mod 18446744073709551616 = i + 18446744073709551616"
    using mod_pos_pos_trivial [of "i + 18446744073709551616" 18446744073709551616]
    by (simp add: long_bounds)
  with False \<open>in_long i\<close> show ?thesis by (simp add: to_long_def to_u64_def Let_def long_bounds)
qed

lemma quot_remt: "b * quot a b + remt a b = a"
  by (simp add: remt_def)

lemma remt_nonneg: "0 \<le> a \<Longrightarrow> 0 < b \<Longrightarrow> remt a b = a mod b"
proof -
  assume a: "0 \<le> a" and b: "0 < b"
  then have "quot a b = a div b" by (cases "a = 0") (simp_all add: quot_def)
  then show ?thesis by (simp add: remt_def minus_mult_div_eq_mod)
qed

lemma abs_quot_le: "\<bar>quot a b\<bar> \<le> \<bar>a\<bar>"
proof -
  have "\<bar>quot a b\<bar> = \<bar>sgn a\<bar> * \<bar>sgn b\<bar> * (\<bar>a\<bar> div \<bar>b\<bar>)"
    by (simp add: quot_def abs_mult pos_imp_zdiv_nonneg_iff div_int_pos_iff)
  also have "\<dots> \<le> \<bar>a\<bar> div \<bar>b\<bar>"
    by (auto simp: sgn_if div_int_pos_iff)
  also have "\<dots> \<le> \<bar>a\<bar>"
    by (cases "b = 0") (auto simp: div_by_0 zdiv_mono2 [of "\<bar>a\<bar>" 1 "\<bar>b\<bar>", simplified])
  finally show ?thesis .
qed

lemma abs_remt_less: "b \<noteq> 0 \<Longrightarrow> \<bar>remt a b\<bar> < \<bar>b\<bar>"
proof -
  assume b: "b \<noteq> 0"
  have "remt a b = sgn a * (\<bar>a\<bar> mod \<bar>b\<bar>)"
  proof -
    have "\<bar>b\<bar> * (\<bar>a\<bar> div \<bar>b\<bar>) + \<bar>a\<bar> mod \<bar>b\<bar> = \<bar>a\<bar>"
      by simp
    then have "sgn a * \<bar>a\<bar> = sgn a * (\<bar>b\<bar> * (\<bar>a\<bar> div \<bar>b\<bar>)) + sgn a * (\<bar>a\<bar> mod \<bar>b\<bar>)"
      by (metis distrib_left)
    moreover have "b * (sgn a * sgn b * (\<bar>a\<bar> div \<bar>b\<bar>)) = sgn a * (\<bar>b\<bar> * (\<bar>a\<bar> div \<bar>b\<bar>))"
      by (simp add: abs_sgn [of b] ac_simps)
    moreover have "remt a b = a - b * (sgn a * sgn b * (\<bar>a\<bar> div \<bar>b\<bar>))"
      by (simp only: remt_def quot_def)
    moreover have "sgn a * \<bar>a\<bar> = a"
      by (rule sgn_mult_abs)
    ultimately show ?thesis by linarith
  qed
  moreover have "\<bar>sgn a * (\<bar>a\<bar> mod \<bar>b\<bar>)\<bar> \<le> \<bar>a\<bar> mod \<bar>b\<bar>"
    using b by (auto simp: sgn_if abs_mult)
  moreover have "\<bar>a\<bar> mod \<bar>b\<bar> < \<bar>b\<bar>"
    using b by simp
  ultimately show ?thesis by linarith
qed

lemma quot_in_long:
  assumes "in_long a" "b \<noteq> 0" "\<not> (a = LONG_MIN \<and> b = -1)"
  shows "in_long (quot a b)"
proof -
  have le: "\<bar>quot a b\<bar> \<le> \<bar>a\<bar>" by (rule abs_quot_le)
  show ?thesis
  proof (cases "a = LONG_MIN")
    case False
    with assms(1) le show ?thesis by (auto simp: long_bounds)
  next
    case True
    have "quot a b \<noteq> - LONG_MIN"
    proof
      assume q: "quot a b = - LONG_MIN"
      have "\<bar>remt a b\<bar> < \<bar>b\<bar>" using assms(2) by (rule abs_remt_less)
      moreover have "remt a b = LONG_MIN * (1 + b)"
        using quot_remt [of b a] q True by (simp add: algebra_simps)
      ultimately have "\<bar>LONG_MIN * (1 + b)\<bar> < \<bar>b\<bar>" by simp
      moreover have "1 + b \<noteq> 0" using assms(3) True by auto
      ultimately show False by (simp add: LONG_MIN_def abs_mult)
    qed
    with le True show ?thesis by (auto simp: long_bounds)
  qed
qed

lemma amap_find_map_of: "amap_find m k = map_of m k"
  by (induction m k rule: amap_find.induct) auto

lemma amap_find_put [simp]:
  "amap_find (amap_put k v m) k' = (if k' = k then Some v else amap_find m k')"
  by (induction k v m rule: amap_put.induct) auto

lemma set_amap_put_keys: "fst ` set (amap_put k v m) = insert k (fst ` set m)"
  by (induction k v m rule: amap_put.induct) auto

lemma amap_ok_Nil [simp]: "amap_ok []"
  by (simp add: amap_ok_def)

lemma amap_ok_Cons: "amap_ok (e # es) \<longleftrightarrow> (\<forall>k \<in> fst ` set es. fst e < k) \<and> amap_ok es"
  by (auto simp: amap_ok_def)

lemma amap_ok_put [simp]: "amap_ok m \<Longrightarrow> amap_ok (amap_put k v m)"
  by (induction k v m rule: amap_put.induct)
    (fastforce simp: amap_ok_Cons set_amap_put_keys)+

lemma amap_find_None_iff: "amap_find m k = None \<longleftrightarrow> k \<notin> fst ` set m"
  by (induction m k rule: amap_find.induct) auto

lemma amap_find_erase [simp]:
  "amap_ok m \<Longrightarrow> amap_find (amap_erase k m) k' = (if k' = k then None else amap_find m k')"
proof (induction k m rule: amap_erase.induct)
  case (2 k e es)
  have "amap_find es (fst e) = None"
    using "2.prems" by (auto simp: amap_ok_Cons amap_find_None_iff)
  with 2 show ?case by (auto simp: amap_ok_Cons)
qed simp

lemma amap_ok_erase [simp]: "amap_ok m \<Longrightarrow> amap_ok (amap_erase k m)"
proof (induction k m rule: amap_erase.induct)
  case (2 k e es)
  have "set (amap_erase k es) \<subseteq> set es"
    by (induction k es rule: amap_erase.induct) auto
  with 2 show ?case by (auto simp: amap_ok_Cons)
qed simp

end
