(* ===== verification/Cw_Double.thy ===== *)
theory Cw_Double
  imports Cw_Prelude
begin

text \<open>
  The C++ type \<open>double\<close> as IEEE 754 binary64 with rounding to nearest, ties to even:
  the representation, the arithmetic the program uses, the comparisons, the conversions from
  and to \<open>long\<close> and the rounding to \<open>float\<close>. Every operation computes the exact result
  as a quotient of integers and rounds it once.
\<close>

section \<open>Representation\<close>

text \<open>\<open>Fin s m e\<close> is the number \<open>(-1)^s * m * 2^e\<close>.\<close>

datatype double = NaN | Inf bool | Fin bool nat int

definition wf_double :: "double \<Rightarrow> bool" where
  "wf_double x = (case x of
     Fin s m e \<Rightarrow> m < 2 ^ 53 \<and> - 1074 \<le> e \<and> e \<le> 971 \<and> (m < 2 ^ 52 \<longrightarrow> e = - 1074)
   | _ \<Rightarrow> True)"

definition dzero :: "bool \<Rightarrow> double" where
  "dzero s = Fin s 0 (- 1074)"

section \<open>Rounding\<close>

fun nbits :: "nat \<Rightarrow> nat" where
  "nbits n = (if n = 0 then 0 else Suc (nbits (n div 2)))"

declare nbits.simps [simp del]

text \<open>The integer nearest to \<open>n / d\<close>, the even one of two.\<close>

definition div_rne :: "nat \<Rightarrow> nat \<Rightarrow> nat" where
  "div_rne n d =
     (let q = n div d; r = n mod d
      in if 2 * r < d then q else if d < 2 * r then Suc q else if even q then q else Suc q)"

definition scale_rne :: "nat \<Rightarrow> nat \<Rightarrow> int \<Rightarrow> nat" where
  "scale_rne n d e =
     (if 0 \<le> e then div_rne n (d * 2 ^ nat e) else div_rne (n * 2 ^ nat (- e)) d)"

text \<open>The representation of \<open>q * 2^e\<close>, for a product that is representable.\<close>

definition mk_fin :: "bool \<Rightarrow> nat \<Rightarrow> int \<Rightarrow> double" where
  "mk_fin s q e =
     (if q = 0 then dzero s
      else let e' = max (- 1074) (e + int (nbits q) - 53)
           in if e' \<le> e then Fin s (q * 2 ^ nat (e - e')) e'
              else Fin s (q div 2 ^ nat (e' - e)) e')"

text \<open>
  Rounding of \<open>n / d\<close> to \<open>p\<close> bits, with least exponent \<open>emin\<close> and greatest exponent
  \<open>emax\<close> of the last bit.
\<close>

definition round_exp :: "nat \<Rightarrow> nat \<Rightarrow> nat \<Rightarrow> int" where
  "round_exp p n d =
     (let e0 = int (nbits n) - int (nbits d) - int p;
          big = (if 0 \<le> e0 then d * 2 ^ (nat e0 + p) \<le> n else d * 2 ^ p \<le> n * 2 ^ nat (- e0))
      in if big then e0 + 1 else e0)"

definition round_bin :: "nat \<Rightarrow> int \<Rightarrow> int \<Rightarrow> bool \<Rightarrow> nat \<Rightarrow> nat \<Rightarrow> double" where
  "round_bin p emin emax s n d =
     (if n = 0 then dzero s
      else let e = max emin (round_exp p n d); q = scale_rne n d e
           in if emax < e \<or> (e = emax \<and> 2 ^ p \<le> q) then Inf s else mk_fin s q e)"

definition round_double :: "bool \<Rightarrow> nat \<Rightarrow> nat \<Rightarrow> double" where
  "round_double = round_bin 53 (- 1074) 971"

definition round_scaled :: "bool \<Rightarrow> nat \<Rightarrow> int \<Rightarrow> double" where
  "round_scaled s n e =
     (if 0 \<le> e then round_double s (n * 2 ^ nat e) 1 else round_double s n (2 ^ nat (- e)))"

section \<open>Arithmetic\<close>

definition sgnd :: "bool \<Rightarrow> nat \<Rightarrow> int" where
  "sgnd s m = (if s then - int m else int m)"

fun dneg :: "double \<Rightarrow> double" where
  "dneg NaN = NaN"
| "dneg (Inf s) = Inf (\<not> s)"
| "dneg (Fin s m e) = Fin (\<not> s) m e"

fun dabs :: "double \<Rightarrow> double" where
  "dabs NaN = NaN"
| "dabs (Inf s) = Inf False"
| "dabs (Fin s m e) = Fin False m e"

text \<open>Two finite numbers as integers over a common exponent.\<close>

definition align :: "bool \<Rightarrow> nat \<Rightarrow> int \<Rightarrow> int \<Rightarrow> int" where
  "align s m e e0 = sgnd s m * 2 ^ nat (e - e0)"

fun dadd :: "double \<Rightarrow> double \<Rightarrow> double" where
  "dadd (Fin s m e) (Fin s' m' e') =
     (let e0 = min e e'; i = align s m e e0 + align s' m' e' e0
      in if i = 0 then dzero (s \<and> s') else round_scaled (i < 0) (nat \<bar>i\<bar>) e0)"
| "dadd (Inf s) (Inf s') = (if s = s' then Inf s else NaN)"
| "dadd (Inf s) (Fin _ _ _) = Inf s"
| "dadd (Fin _ _ _) (Inf s) = Inf s"
| "dadd _ _ = NaN"

definition dsub :: "double \<Rightarrow> double \<Rightarrow> double" where
  "dsub x y = dadd x (dneg y)"

fun dmul :: "double \<Rightarrow> double \<Rightarrow> double" where
  "dmul (Fin s m e) (Fin s' m' e') = round_scaled (s \<noteq> s') (m * m') (e + e')"
| "dmul (Inf s) (Inf s') = Inf (s \<noteq> s')"
| "dmul (Inf s) (Fin s' m' _) = (if m' = 0 then NaN else Inf (s \<noteq> s'))"
| "dmul (Fin s m _) (Inf s') = (if m = 0 then NaN else Inf (s \<noteq> s'))"
| "dmul _ _ = NaN"

fun ddiv :: "double \<Rightarrow> double \<Rightarrow> double" where
  "ddiv (Fin s m e) (Fin s' m' e') =
     (if m' = 0 then (if m = 0 then NaN else Inf (s \<noteq> s'))
      else if e' \<le> e then round_double (s \<noteq> s') (m * 2 ^ nat (e - e')) m'
      else round_double (s \<noteq> s') m (m' * 2 ^ nat (e' - e)))"
| "ddiv (Inf s) (Fin s' _ _) = Inf (s \<noteq> s')"
| "ddiv (Fin s _ _) (Inf s') = dzero (s \<noteq> s')"
| "ddiv _ _ = NaN"

fun isqrt :: "nat \<Rightarrow> nat" where
  "isqrt n = (if n = 0 then 0
              else let r = 2 * isqrt (n div 4) in if Suc r * Suc r \<le> n then Suc r else r)"

declare isqrt.simps [simp del]

fun dsqrt :: "double \<Rightarrow> double" where
  "dsqrt (Fin s m e) =
     (if m = 0 then Fin s m e
      else if s then NaN
      else let h = (if even e then 0 else 1); n = m * 2 ^ (120 + h); r = isqrt n
           in round_scaled False (2 * r + (if r * r = n then 0 else 1))
                ((e - 120 - int h) div 2 - 1))"
| "dsqrt (Inf s) = (if s then NaN else Inf s)"
| "dsqrt NaN = NaN"

section \<open>Comparisons\<close>

fun dlt :: "double \<Rightarrow> double \<Rightarrow> bool" where
  "dlt (Fin s m e) (Fin s' m' e') =
     (let e0 = min e e' in align s m e e0 < align s' m' e' e0)"
| "dlt (Inf s) (Inf s') = (s \<and> \<not> s')"
| "dlt (Inf s) (Fin _ _ _) = s"
| "dlt (Fin _ _ _) (Inf s) = (\<not> s)"
| "dlt _ _ = False"

fun deq :: "double \<Rightarrow> double \<Rightarrow> bool" where
  "deq (Fin s m e) (Fin s' m' e') =
     (let e0 = min e e' in align s m e e0 = align s' m' e' e0)"
| "deq (Inf s) (Inf s') = (s = s')"
| "deq _ _ = False"

definition dle :: "double \<Rightarrow> double \<Rightarrow> bool" where
  "dle x y \<longleftrightarrow> dlt x y \<or> deq x y"

definition dne :: "double \<Rightarrow> double \<Rightarrow> bool" where
  "dne x y \<longleftrightarrow> \<not> deq x y"

section \<open>Conversions\<close>

definition dbl_of_int :: "int \<Rightarrow> double" where
  "dbl_of_int i = round_double (i < 0) (nat \<bar>i\<bar>) 1"

text \<open>The integral part, and the nearest integer with halves away from zero.\<close>

definition trunc_fin :: "bool \<Rightarrow> nat \<Rightarrow> int \<Rightarrow> int" where
  "trunc_fin s m e = sgnd s (if 0 \<le> e then m * 2 ^ nat e else m div 2 ^ nat (- e))"

definition round_fin :: "bool \<Rightarrow> nat \<Rightarrow> int \<Rightarrow> int" where
  "round_fin s m e =
     sgnd s (if 0 \<le> e then m * 2 ^ nat e
             else (2 * m + 2 ^ nat (- e)) div (2 * 2 ^ nat (- e)))"

text \<open>The cast of a \<open>double\<close> to \<open>long\<close>, defined only where the integral part fits.\<close>

definition long_of_dbl :: "double \<Rightarrow> int res" where
  "long_of_dbl x = (case x of
     Fin s m e \<Rightarrow> (let t = trunc_fin s m e in if in_long t then Inr t else Inl ConversionRange)
   | _ \<Rightarrow> Inl ConversionRange)"

definition long_of_round :: "double \<Rightarrow> int res" where
  "long_of_round x = (case x of
     Fin s m e \<Rightarrow> (let t = round_fin s m e in if in_long t then Inr t else Inl ConversionRange)
   | _ \<Rightarrow> Inl ConversionRange)"

text \<open>The nearest \<open>float\<close>, as the \<open>double\<close> of the same value.\<close>

definition to_float :: "double \<Rightarrow> double" where
  "to_float x = (case x of
     Fin s m e \<Rightarrow> (if 0 \<le> e then round_bin 24 (- 149) 104 s (m * 2 ^ nat e) 1
                   else round_bin 24 (- 149) 104 s m (2 ^ nat (- e)))
   | _ \<Rightarrow> x)"

text \<open>A decimal literal \<open>n / 10^k\<close> of the source.\<close>

definition dlit :: "nat \<Rightarrow> nat \<Rightarrow> double" where
  "dlit n k = round_double False n (10 ^ k)"

section \<open>Lemmas\<close>

lemma nbits_0 [simp]: "nbits 0 = 0"
  by (simp add: nbits.simps)

lemma nbits_pos [simp]: "0 < n \<Longrightarrow> 0 < nbits n"
  by (simp add: nbits.simps)

lemma nbits_upper: "n < 2 ^ nbits n"
proof (induction n rule: nbits.induct)
  case (1 n)
  show ?case
  proof (cases "n = 0")
    case False
    then have "n div 2 < 2 ^ nbits (n div 2)" by (rule "1.IH")
    then have "n < 2 * 2 ^ nbits (n div 2)" by linarith
    with False show ?thesis by (simp add: nbits.simps [of n])
  qed simp
qed

lemma nbits_lower: "0 < n \<Longrightarrow> 2 ^ (nbits n - 1) \<le> n"
proof (induction n rule: nbits.induct)
  case (1 n)
  show ?case
  proof (cases "n = 1")
    case True
    then show ?thesis by (simp add: nbits.simps)
  next
    case False
    with "1.prems" have pos: "0 < n div 2" by simp
    with "1.IH" "1.prems" have "2 ^ (nbits (n div 2) - 1) \<le> n div 2" by simp
    moreover have "2 * 2 ^ (nbits (n div 2) - 1) = (2::nat) ^ nbits (n div 2)"
      using pos by (metis nbits_pos power_minus_mult mult.commute)
    ultimately have "2 ^ nbits (n div 2) \<le> n" by linarith
    with "1.prems" show ?thesis by (simp add: nbits.simps [of n])
  qed
qed

lemma nbits_le: "n < 2 ^ k \<Longrightarrow> nbits n \<le> k"
proof (rule ccontr)
  assume n: "n < 2 ^ k" and "\<not> nbits n \<le> k"
  then have "k \<le> nbits n - 1" and "0 < n" by (auto intro: gr0I)
  then have "(2::nat) ^ k \<le> 2 ^ (nbits n - 1)" by (simp add: power_increasing)
  with nbits_lower [OF \<open>0 < n\<close>] n show False by linarith
qed

lemma nbits_unique: "2 ^ k \<le> n \<Longrightarrow> n < 2 ^ Suc k \<Longrightarrow> nbits n = Suc k"
proof (rule antisym)
  assume lo: "2 ^ k \<le> n" and hi: "n < 2 ^ Suc k"
  show "nbits n \<le> Suc k" using hi by (rule nbits_le)
  have "(2::nat) ^ k < 2 ^ nbits n" using lo nbits_upper [of n] by (rule le_less_trans)
  then show "Suc k \<le> nbits n" by (simp add: Suc_leI)
qed

lemma div_rne_1 [simp]: "div_rne n (Suc 0) = n"
  by (simp add: div_rne_def)

lemma div_rne_le: "n \<le> k * d \<Longrightarrow> 0 < d \<Longrightarrow> div_rne n d \<le> k"
proof -
  assume n: "n \<le> k * d" and d: "0 < d"
  have "div_rne n d \<le> Suc (n div d)" by (simp add: div_rne_def Let_def)
  moreover have "div_rne n d = n div d" if "n mod d = 0"
    using that d by (simp add: div_rne_def)
  moreover have "Suc (n div d) \<le> k" if "n mod d \<noteq> 0"
  proof -
    have "n \<noteq> k * d" using that by auto
    with n have "n < k * d" by simp
    then have "n div d < k" using d by (simp add: div_less_iff_less_mult)
    then show ?thesis by simp
  qed
  moreover have "n div d \<le> k" using n d by (metis div_le_mono nonzero_mult_div_cancel_right not_gr0)
  ultimately show ?thesis by linarith
qed

text \<open>Rounding a quotient never gives NaN.\<close>

lemma round_bin_number [simp]: "round_bin p emin emax s n d \<noteq> NaN"
  by (simp add: round_bin_def dzero_def mk_fin_def Let_def)

lemma round_scaled_number [simp]: "round_scaled s n e \<noteq> NaN"
  by (simp add: round_scaled_def round_double_def)

text \<open>The rules that evaluate a floating point operation on closed operands.\<close>

lemmas double_eval_defs [dbl_eval] =
  Let_def dzero_def nbits.simps div_rne_def scale_rne_def mk_fin_def round_exp_def round_bin_def
  round_double_def round_scaled_def sgnd_def align_def dsub_def dle_def dne_def dbl_of_int_def
  trunc_fin_def round_fin_def long_of_dbl_def long_of_round_def to_float_def dlit_def

lemma dneg_dneg [simp]: "dneg (dneg x) = x"
  by (cases x) auto

lemma wf_dneg: "wf_double (dneg x) = wf_double x"
  by (cases x) (auto simp: wf_double_def)

lemma deq_refl [simp]: "deq x x \<longleftrightarrow> x \<noteq> NaN"
  by (cases x) (auto simp: Let_def)

lemma deq_sym: "deq x y = deq y x"
  by (cases x; cases y) (auto simp: Let_def min.commute)

lemma dlt_irrefl [simp]: "\<not> dlt x x"
  by (cases x) (auto simp: Let_def)

lemma dlt_asym: "dlt x y \<Longrightarrow> \<not> dlt y x"
  by (cases x; cases y) (auto simp: Let_def min.commute)

lemma dle_total: "x \<noteq> NaN \<Longrightarrow> y \<noteq> NaN \<Longrightarrow> dle x y \<or> dle y x"
  by (cases x; cases y) (auto simp: dle_def Let_def min.commute)

lemma dle_NaN [simp]: "dle NaN x = False" "dle x NaN = False"
  by (cases x; simp add: dle_def)+

text \<open>Integers of at most 53 bits are represented exactly.\<close>

lemma round_double_exact:
  assumes "0 < n" "n < 2 ^ 53"
  shows "round_double s n 1 = Fin s (n * 2 ^ (53 - nbits n)) (int (nbits n) - 53)"
proof -
  define k where "k = nbits n"
  have k: "0 < k" "k \<le> 53" using assms nbits_le [of n 53] by (simp_all add: k_def)
  have lo: "2 ^ (k - 1) \<le> n" and hi: "n < 2 ^ k"
    using assms nbits_lower nbits_upper by (simp_all add: k_def)
  define q where "q = n * 2 ^ (53 - k)"
  have "(2::nat) ^ (k - 1) * 2 ^ (53 - k) = 2 ^ 52"
    using k by (simp add: power_add [symmetric])
  then have qlo: "2 ^ 52 \<le> q" using lo unfolding q_def by (metis mult_le_mono1)
  have "(2::nat) ^ k * 2 ^ (53 - k) = 2 ^ 53"
    using k by (simp add: power_add [symmetric])
  then have qhi: "q < 2 ^ 53" using hi unfolding q_def
    by (metis mult_less_cancel2 zero_less_numeral zero_less_power)
  have nq: "nbits q = 53" using nbits_unique [of 52 q] qlo qhi by simp
  have one: "nbits (Suc 0) = 1" by (simp add: nbits.simps)
  have "n * 2 ^ nat (54 - int k) = 2 * q"
  proof -
    have "nat (54 - int k) = Suc (53 - k)" using k by simp
    then show ?thesis by (simp add: q_def)
  qed
  then have ex: "round_exp 53 n 1 = int k - 53"
    using qlo k by (simp add: round_exp_def one k_def [symmetric] Let_def)
  have sc: "scale_rne n 1 (int k - 53) = q"
  proof (cases "k = 53")
    case True
    then show ?thesis by (simp add: scale_rne_def q_def)
  next
    case False
    then have "nat (53 - int k) = 53 - k" using k by simp
    with False k show ?thesis by (simp add: scale_rne_def q_def)
  qed
  have "round_double s n 1 = mk_fin s q (int k - 53)"
    using assms ex sc k qhi by (simp add: round_double_def round_bin_def Let_def)
  also have "\<dots> = Fin s q (int k - 53)"
    using qlo nq k by (simp add: mk_fin_def Let_def)
  finally show ?thesis by (simp add: q_def k_def)
qed

lemma long_of_dbl_of_int:
  assumes "\<bar>i\<bar> < 2 ^ 53"
  shows "long_of_dbl (dbl_of_int i) = Inr i"
proof (cases "i = 0")
  case True
  then show ?thesis
    by (simp add: dbl_of_int_def round_double_def round_bin_def dzero_def long_of_dbl_def
        trunc_fin_def sgnd_def long_bounds)
next
  case False
  define n where "n = nat \<bar>i\<bar>"
  have n: "0 < n" "n < 2 ^ 53" using False assms by (auto simp: n_def nat_less_iff)
  have k: "nbits n \<le> 53" using n(2) by (rule nbits_le)
  have "trunc_fin (i < 0) (n * 2 ^ (53 - nbits n)) (int (nbits n) - 53) = i"
  proof (cases "nbits n = 53")
    case True
    then show ?thesis using False by (auto simp: trunc_fin_def sgnd_def n_def)
  next
    case less: False
    then have "nat (53 - int (nbits n)) = 53 - nbits n" using k by simp
    then show ?thesis using False less k by (auto simp: trunc_fin_def sgnd_def n_def)
  qed
  moreover have "in_long i" using assms by (auto simp: long_bounds)
  ultimately show ?thesis
    using round_double_exact [OF n, of "i < 0"]
    by (simp add: dbl_of_int_def n_def [symmetric] long_of_dbl_def Let_def)
qed

text \<open>Differences of integers that are represented exactly are exact.\<close>

lemma nbits_shift: "0 < n \<Longrightarrow> nbits (n * 2 ^ j) = nbits n + j"
proof -
  assume n: "0 < n"
  obtain k where k: "nbits n = Suc k" using nbits_pos [OF n] by (cases "nbits n") auto
  have "2 ^ k * 2 ^ j \<le> n * 2 ^ j" "n * 2 ^ j < 2 ^ Suc k * 2 ^ j"
    using nbits_lower [OF n] nbits_upper [of n] by (simp_all add: k)
  then show ?thesis using nbits_unique [of "k + j" "n * 2 ^ j"] by (simp add: k power_add)
qed

lemma div_rne_mult: "0 < d \<Longrightarrow> div_rne (n * d) d = n"
  by (simp add: div_rne_def)

lemma round_double_shift:
  assumes "0 < n" "n < 2 ^ 53"
  shows "round_double s (n * 2 ^ j) (2 ^ j) = round_double s n 1"
proof -
  have k: "nbits n \<le> 53" using assms(2) by (rule nbits_le)
  have b: "nbits (2 ^ j) = Suc j" "nbits (Suc 0) = 1" using nbits_shift [of 1 j] by (simp_all add: nbits.simps)
  have "(2::nat) ^ j * 9007199254740992 \<le> n * 2 ^ j * 2 ^ i \<longleftrightarrow> 9007199254740992 \<le> n * 2 ^ i" for i
    using mult_le_cancel1 [of "2 ^ j" 9007199254740992 "n * 2 ^ i"] by (simp add: ac_simps)
  then have ex: "round_exp 53 (n * 2 ^ j) (2 ^ j) = round_exp 53 n 1"
    using k by (simp add: round_exp_def nbits_shift [OF assms(1)] b Let_def)
  have "round_exp 53 n 1 \<le> 0" using k assms(2) by (auto simp: round_exp_def b Let_def nat_diff_distrib')
  then have "scale_rne (n * 2 ^ j) (2 ^ j) e = scale_rne n 1 e" if "e \<le> 0" for e
    using that div_rne_mult [of "2 ^ j" n] div_rne_mult [of "2 ^ j" "n * 2 ^ nat (- e)"]
    by (auto simp: scale_rne_def ac_simps)
  moreover define e where "e = max (- 1074) (round_exp 53 n 1)"
  ultimately have "scale_rne (n * 2 ^ j) (2 ^ j) e = scale_rne n 1 e" using \<open>round_exp 53 n 1 \<le> 0\<close> by simp
  then show ?thesis unfolding round_double_def round_bin_def Let_def ex e_def [symmetric] using assms(1) by auto
qed

lemma dbl_of_int_parts:
  assumes "\<bar>i\<bar> < 2 ^ 53"
  obtains m e where "dbl_of_int i = Fin (i < 0) m e" "e \<le> 0" "sgnd (i < 0) m = i * 2 ^ nat (- e)"
proof (cases "i = 0")
  case True
  then have "dbl_of_int i = Fin (i < 0) 0 (- 1074)" by (simp add: dbl_of_int_def round_double_def round_bin_def dzero_def)
  then show ?thesis by (rule that) (simp_all add: sgnd_def True)
next
  case False
  define n where "n = nat \<bar>i\<bar>"
  have n: "0 < n" "n < 2 ^ 53" using False assms by (auto simp: n_def nat_less_iff)
  have k: "nbits n \<le> 53" using n(2) by (rule nbits_le)
  then have e: "nat (- (int (nbits n) - 53)) = 53 - nbits n" by simp
  show ?thesis
  proof (rule that)
    show "dbl_of_int i = Fin (i < 0) (n * 2 ^ (53 - nbits n)) (int (nbits n) - 53)"
      using round_double_exact [OF n] by (simp add: dbl_of_int_def n_def)
    show "sgnd (i < 0) (n * 2 ^ (53 - nbits n)) = i * 2 ^ nat (- (int (nbits n) - 53))"
      unfolding e by (auto simp: sgnd_def n_def)
  qed (use k in simp)
qed

lemma dsub_of_int:
  assumes "\<bar>a\<bar> < 2 ^ 53" "\<bar>b\<bar> < 2 ^ 53" "\<bar>a - b\<bar> < 2 ^ 53"
  shows "dsub (dbl_of_int a) (dbl_of_int b) = dbl_of_int (a - b)"
proof -
  obtain m e where a: "dbl_of_int a = Fin (a < 0) m e" "e \<le> 0" "sgnd (a < 0) m = a * 2 ^ nat (- e)"
    using dbl_of_int_parts [OF assms(1)] .
  obtain m' e' where b: "dbl_of_int b = Fin (b < 0) m' e'" "e' \<le> 0" "sgnd (b < 0) m' = b * 2 ^ nat (- e')"
    using dbl_of_int_parts [OF assms(2)] .
  define e0 where "e0 = min e e'"
  define J where "J = nat (- e0)"
  have p: "nat (- e) + nat (e - e0) = J" "nat (- e') + nat (e' - e0) = J" using a(2) b(2) by (auto simp: e0_def J_def)
  have "align (a < 0) m e e0 = a * 2 ^ J" by (simp add: align_def a(3) p(1) [symmetric] power_add)
  moreover have "sgnd (\<not> b < 0) m' = - sgnd (b < 0) m'" by (auto simp: sgnd_def)
  then have "align (\<not> b < 0) m' e' e0 = - b * 2 ^ J" by (simp add: align_def b(3) p(2) [symmetric] power_add)
  ultimately have sum: "align (a < 0) m e e0 + align (\<not> b < 0) m' e' e0 = (a - b) * 2 ^ J" by (simp add: algebra_simps)
  have sub: "dsub (dbl_of_int a) (dbl_of_int b) = (if a = b then dzero False
      else round_scaled (a - b < 0) (nat \<bar>a - b\<bar> * 2 ^ J) e0)"
    unfolding dsub_def a(1) b(1) dneg.simps dadd.simps Let_def e0_def [symmetric] sum
    by (auto simp: mult_less_0_iff abs_mult nat_mult_distrib nat_power_eq)
  show ?thesis
  proof (cases "a = b")
    case False
    then have n: "0 < nat \<bar>a - b\<bar>" "nat \<bar>a - b\<bar> < 2 ^ 53" using assms(3) by (auto simp: nat_less_iff)
    have "e0 \<le> 0" using a(2) by (simp add: e0_def)
    then have "round_scaled s (nat \<bar>a - b\<bar> * 2 ^ J) e0 = round_double s (nat \<bar>a - b\<bar>) 1" for s
      using round_double_shift [OF n, of s J] by (auto simp: round_scaled_def J_def)
    with False sub show ?thesis by (simp add: dbl_of_int_def)
  next
    case True
    then show ?thesis unfolding sub by (simp add: dbl_of_int_def round_double_def round_bin_def)
  qed
qed

lemma dabs_of_int:
  assumes "\<bar>i\<bar> < 2 ^ 53"
  shows "dabs (dbl_of_int i) = dbl_of_int \<bar>i\<bar>"
proof (cases "i = 0")
  case False
  then have n: "0 < nat \<bar>i\<bar>" "nat \<bar>i\<bar> < 2 ^ 53" using assms by (auto simp: nat_less_iff)
  show ?thesis using round_double_exact [OF n] by (simp add: dbl_of_int_def)
qed (simp add: dbl_of_int_def round_double_def round_bin_def dzero_def)

lemma dneg_of_int:
  assumes "i \<noteq> 0" "\<bar>i\<bar> < 2 ^ 53"
  shows "dneg (dbl_of_int i) = dbl_of_int (- i)"
proof -
  have n: "0 < nat \<bar>i\<bar>" "nat \<bar>i\<bar> < 2 ^ 53" using assms by (auto simp: nat_less_iff)
  show ?thesis using round_double_exact [OF n] assms(1) by (auto simp: dbl_of_int_def)
qed

lemma dadd_of_int:
  assumes "b \<noteq> 0" "\<bar>a\<bar> < 2 ^ 53" "\<bar>b\<bar> < 2 ^ 53" "\<bar>a + b\<bar> < 2 ^ 53"
  shows "dadd (dbl_of_int a) (dbl_of_int b) = dbl_of_int (a + b)"
  using dsub_of_int [of a "- b"] dneg_of_int [of "- b"] assms by (simp add: dsub_def)

end
