(* ===== verification/Cw_CLib.thy ===== *)
theory Cw_CLib
  imports Cw_Double
begin

text \<open>
  The parts of the C library that the program calls on strings: the classification of
  characters in the C locale, \<open>strtol\<close>, \<open>strtod\<close>, and the \<open>printf\<close> conversions
  \<open>%ld\<close> and \<open>%6.6lf\<close>. A parser returns the value and the rest of the string at which
  the end pointer points.
\<close>

section \<open>Characters\<close>

definition c_isspace :: "char \<Rightarrow> bool" where
  "c_isspace c \<longleftrightarrow> (let n = of_char c :: nat in n = 32 \<or> (9 \<le> n \<and> n \<le> 13))"

definition c_isdigit :: "char \<Rightarrow> bool" where
  "c_isdigit c \<longleftrightarrow> (let n = of_char c :: nat in 48 \<le> n \<and> n \<le> 57)"

definition c_isalpha :: "char \<Rightarrow> bool" where
  "c_isalpha c \<longleftrightarrow> (let n = of_char c :: nat in (65 \<le> n \<and> n \<le> 90) \<or> (97 \<le> n \<and> n \<le> 122))"

definition c_isprint :: "char \<Rightarrow> bool" where
  "c_isprint c \<longleftrightarrow> (let n = of_char c :: nat in 32 \<le> n \<and> n \<le> 126)"

definition c_toupper :: "char \<Rightarrow> char" where
  "c_toupper c = (let n = of_char c :: nat in if 97 \<le> n \<and> n \<le> 122 then char_of (n - 32) else c)"

definition c_tolower :: "char \<Rightarrow> char" where
  "c_tolower c = (let n = of_char c :: nat in if 65 \<le> n \<and> n \<le> 90 then char_of (n + 32) else c)"

text \<open>The characters before the first null byte.\<close>

definition c_str :: "string \<Rightarrow> string" where
  "c_str s = takeWhile (\<lambda>c. c \<noteq> CHR 0x00) s"

section \<open>Reading numbers\<close>

definition digit_val :: "char \<Rightarrow> nat" where
  "digit_val c = (let n = of_char c :: nat in
     if 48 \<le> n \<and> n \<le> 57 then n - 48
     else if 97 \<le> n \<and> n \<le> 122 then n - 87
     else if 65 \<le> n \<and> n \<le> 90 then n - 55
     else 99)"

definition is_digit_of :: "nat \<Rightarrow> char \<Rightarrow> bool" where
  "is_digit_of b c \<longleftrightarrow> digit_val c < b"

definition digits_value :: "nat \<Rightarrow> string \<Rightarrow> nat" where
  "digits_value b ds = foldl (\<lambda>acc c. acc * b + digit_val c) 0 ds"

definition read_sign :: "string \<Rightarrow> bool \<times> string" where
  "read_sign s = (case s of
     [] \<Rightarrow> (False, [])
   | c # cs \<Rightarrow> if c = CHR ''-'' then (True, cs)
               else if c = CHR ''+'' then (False, cs) else (False, s))"

definition clamp_long :: "int \<Rightarrow> int" where
  "clamp_long i = max LONG_MIN (min LONG_MAX i)"

definition hex_prefix :: "string \<Rightarrow> bool" where
  "hex_prefix s = (case s of
     a # b # c # _ \<Rightarrow> a = CHR ''0'' \<and> c_tolower b = CHR ''x'' \<and> is_digit_of 16 c
   | _ \<Rightarrow> False)"

definition strtol :: "nat \<Rightarrow> string \<Rightarrow> int \<times> string" where
  "strtol b s =
     (let (neg, s1) = read_sign (dropWhile c_isspace s);
          s2 = (if b = 16 \<and> hex_prefix s1 then drop 2 s1 else s1);
          ds = takeWhile (is_digit_of b) s2
      in if ds = [] then (0, s)
         else (clamp_long (sgnd neg (digits_value b ds)), dropWhile (is_digit_of b) s2))"

text \<open>
  The number \<open>mant * base^k\<close>, for the decimal and the binary exponents of \<open>strtod\<close>.
\<close>

definition scale_value :: "bool \<Rightarrow> nat \<Rightarrow> nat \<Rightarrow> int \<Rightarrow> double" where
  "scale_value neg mant b k =
     (if 0 \<le> k then round_double neg (mant * b ^ nat k) 1
      else round_double neg mant (b ^ nat (- k)))"

text \<open>An exponent part \<open>e\<close>, its sign and its digits: \<open>None\<close> when it is not complete.\<close>

definition read_exponent :: "char \<Rightarrow> string \<Rightarrow> (int \<times> string) option" where
  "read_exponent mark s = (case s of
     [] \<Rightarrow> None
   | c # cs \<Rightarrow>
       if c_tolower c \<noteq> mark then None
       else let (neg, t) = read_sign cs; ds = takeWhile c_isdigit t
            in if ds = [] then None
               else Some (sgnd neg (digits_value 10 ds), dropWhile c_isdigit t))"

text \<open>Digits with an optional fraction in base \<open>b\<close>: all digits, how many follow the point.\<close>

definition read_mantissa :: "nat \<Rightarrow> string \<Rightarrow> string \<times> nat \<times> string" where
  "read_mantissa b s =
     (let ip = takeWhile (is_digit_of b) s; r = dropWhile (is_digit_of b) s
      in case r of
           c # cs \<Rightarrow>
             if c = CHR ''.'' \<and> (ip \<noteq> [] \<or> takeWhile (is_digit_of b) cs \<noteq> [])
             then (ip @ takeWhile (is_digit_of b) cs, length (takeWhile (is_digit_of b) cs),
                   dropWhile (is_digit_of b) cs)
             else (ip, 0, r)
         | [] \<Rightarrow> (ip, 0, r))"

definition starts_ci :: "string \<Rightarrow> string \<Rightarrow> bool" where
  "starts_ci pre s \<longleftrightarrow> map c_tolower (take (length pre) s) = pre"

definition skip_nan_seq :: "string \<Rightarrow> string" where
  "skip_nan_seq s = (case s of
     c # cs \<Rightarrow>
       if c = CHR ''(''
       then (case dropWhile (\<lambda>d. c_isdigit d \<or> c_isalpha d \<or> d = CHR ''_'') cs of
               d # ds \<Rightarrow> if d = CHR '')'' then ds else s
             | [] \<Rightarrow> s)
       else s
   | [] \<Rightarrow> s)"

definition strtod :: "string \<Rightarrow> double \<times> string" where
  "strtod s =
     (let (neg, s1) = read_sign (dropWhile c_isspace s)
      in if starts_ci ''infinity'' s1 then (Inf neg, drop 8 s1)
         else if starts_ci ''inf'' s1 then (Inf neg, drop 3 s1)
         else if starts_ci ''nan'' s1 then (NaN, skip_nan_seq (drop 3 s1))
         else if starts_ci ''0x'' s1 \<and> fst (read_mantissa 16 (drop 2 s1)) \<noteq> []
         then (let (ds, fr, r) = read_mantissa 16 (drop 2 s1); mant = digits_value 16 ds
               in case read_exponent (CHR ''p'') r of
                    Some (k, r') \<Rightarrow> (scale_value neg mant 2 (k - 4 * int fr), r')
                  | None \<Rightarrow> (scale_value neg mant 2 (- (4 * int fr)), r))
         else (let (ds, fr, r) = read_mantissa 10 s1; mant = digits_value 10 ds
               in if ds = [] then (dzero False, s)
                  else case read_exponent (CHR ''e'') r of
                         Some (k, r') \<Rightarrow> (scale_value neg mant 10 (k - int fr), r')
                       | None \<Rightarrow> (scale_value neg mant 10 (- int fr), r)))"

section \<open>Writing numbers\<close>

definition digit_char :: "nat \<Rightarrow> char" where
  "digit_char d = char_of (48 + d)"

fun show_nat :: "nat \<Rightarrow> string" where
  "show_nat n = (if n < 10 then [digit_char n] else show_nat (n div 10) @ [digit_char (n mod 10)])"

declare show_nat.simps [simp del]

definition show_int :: "int \<Rightarrow> string" where
  "show_int i = (if i < 0 then CHR ''-'' # show_nat (nat (- i)) else show_nat (nat i))"

definition pad_left :: "char \<Rightarrow> nat \<Rightarrow> string \<Rightarrow> string" where
  "pad_left c w s = replicate (w - length s) c @ s"

text \<open>The conversion \<open>%6.6lf\<close>: six decimals, rounded from the exact binary value.\<close>

definition show_fixed6 :: "double \<Rightarrow> string" where
  "show_fixed6 x = (case x of
     NaN \<Rightarrow> pad_left (CHR '' '') 6 ''nan''
   | Inf s \<Rightarrow> pad_left (CHR '' '') 6 (if s then ''-inf'' else ''inf'')
   | Fin s m e \<Rightarrow>
       (let q = (if 0 \<le> e then m * 2 ^ nat e * 1000000 else div_rne (m * 1000000) (2 ^ nat (- e)))
        in pad_left (CHR '' '') 6
             ((if s then ''-'' else []) @ show_nat (q div 1000000) @ ''.''
              @ pad_left (CHR ''0'') 6 (show_nat (q mod 1000000)))))"

text \<open>The text that \<open>snprintf\<close> leaves in a buffer of \<open>n\<close> bytes.\<close>

definition snprintf_buf :: "nat \<Rightarrow> string \<Rightarrow> string" where
  "snprintf_buf n s = take (n - 1) s"

section \<open>Lemmas\<close>

lemma c_str_id: "CHR 0x00 \<notin> set s \<Longrightarrow> c_str s = s"
  unfolding c_str_def by (rule takeWhile_eq_all_conv [THEN iffD2]) auto

lemma of_char_digit_char: "d < 10 \<Longrightarrow> of_char (digit_char d) = 48 + d"
  by (simp add: digit_char_def take_bit_eq_mod)

lemma digit_char_props:
  assumes "d < 10"
  shows "digit_val (digit_char d) = d" and "is_digit_of 10 (digit_char d)"
    and "\<not> c_isspace (digit_char d)" and "digit_char d \<noteq> CHR 0x00"
    and "digit_char d \<noteq> CHR ''-''" and "digit_char d \<noteq> CHR ''+''"
proof -
  have n: "of_char (digit_char d) = 48 + d" using assms by (rule of_char_digit_char)
  show "digit_val (digit_char d) = d" using n assms by (simp add: digit_val_def Let_def)
  then show "is_digit_of 10 (digit_char d)" using assms by (simp add: is_digit_of_def)
  show "\<not> c_isspace (digit_char d)" using n by (simp add: c_isspace_def Let_def)
  show "digit_char d \<noteq> CHR 0x00" and "digit_char d \<noteq> CHR ''-''" and "digit_char d \<noteq> CHR ''+''"
    using n by auto
qed

lemma show_nat_not_Nil [simp]: "show_nat n \<noteq> []"
  by (simp add: show_nat.simps [of n])

lemma show_nat_digits: "\<forall>c \<in> set (show_nat n). \<exists>d<10. c = digit_char d"
proof (induction n rule: show_nat.induct)
  case (1 n)
  show ?case
  proof (cases "n < 10")
    case False
    with "1.IH" show ?thesis
      by (auto simp: show_nat.simps [of n] intro!: exI [of _ "n mod 10"])
  qed (auto simp: show_nat.simps [of n])
qed

lemma digits_value_snoc: "digits_value b (ds @ [c]) = digits_value b ds * b + digit_val c"
  by (simp add: digits_value_def)

lemma digits_value_show_nat: "digits_value 10 (show_nat n) = n"
proof (induction n rule: show_nat.induct)
  case (1 n)
  show ?case
  proof (cases "n < 10")
    case True
    then show ?thesis
      by (simp add: show_nat.simps [of n] digits_value_def digit_char_props)
  next
    case False
    with "1.IH" show ?thesis
      by (simp add: show_nat.simps [of n] digits_value_snoc digit_char_props)
  qed
qed

lemma show_nat_is_digits: "\<forall>c \<in> set (show_nat n). is_digit_of 10 c"
  using show_nat_digits digit_char_props(2) by fastforce

lemma takeWhile_show_nat [simp]: "takeWhile (is_digit_of 10) (show_nat n) = show_nat n"
  using show_nat_is_digits by (simp add: takeWhile_eq_all_conv)

lemma dropWhile_show_nat [simp]: "dropWhile (is_digit_of 10) (show_nat n) = []"
  using show_nat_is_digits by (simp add: dropWhile_eq_Nil_conv)

lemma show_nat_Cons:
  obtains d ds where "show_nat n = digit_char d # ds" "d < 10"
proof -
  obtain c ds where c: "show_nat n = c # ds" by (cases "show_nat n") auto
  with show_nat_digits [of n] obtain d where "d < 10" "c = digit_char d" by auto
  with c that show ?thesis by blast
qed

text \<open>Reading back a printed number, the round trip of \<open>%ld\<close> and \<open>strtol\<close>.\<close>

lemma read_sign_show_int:
  "read_sign (dropWhile c_isspace (show_int i)) = (i < 0, show_nat (nat \<bar>i\<bar>))"
proof (cases "i < 0")
  case True
  then show ?thesis by (simp add: show_int_def c_isspace_def read_sign_def Let_def)
next
  case False
  obtain d ds where "show_nat (nat i) = digit_char d # ds" "d < 10"
    by (rule show_nat_Cons)
  with False show ?thesis by (simp add: show_int_def read_sign_def digit_char_props)
qed

lemma strtol_show_int:
  assumes "in_long i"
  shows "strtol 10 (show_int i) = (i, [])"
proof -
  have "sgnd (i < 0) (nat \<bar>i\<bar>) = i" by (simp add: sgnd_def)
  moreover have "clamp_long i = i" using assms by (simp add: clamp_long_def in_long_def)
  ultimately show ?thesis
    by (simp add: strtol_def read_sign_show_int digits_value_show_nat)
qed

lemma strtol_in_long: "in_long (fst (strtol b s))"
  by (simp add: strtol_def case_prod_beta Let_def clamp_long_def long_bounds)

lemma show_int_no_null: "c_str (show_int i) = show_int i"
proof (rule c_str_id)
  have "CHR 0x00 \<notin> set (show_nat n)" for n
    using show_nat_digits [of n] digit_char_props(4) by metis
  then show "CHR 0x00 \<notin> set (show_int i)" by (simp add: show_int_def)
qed

lemma length_show_nat: "n < 10 ^ k \<Longrightarrow> 0 < k \<Longrightarrow> length (show_nat n) \<le> k"
proof (induction n arbitrary: k rule: show_nat.induct)
  case (1 n)
  show ?case
  proof (cases "n < 10")
    case True
    with "1.prems" show ?thesis by (simp add: show_nat.simps [of n])
  next
    case False
    obtain j where k: "k = Suc j" using "1.prems"(2) by (cases k) auto
    moreover have "j \<noteq> 0" using False "1.prems"(1) k by (cases j) auto
    ultimately have j: "k = Suc j" "0 < j" by simp_all
    with "1.prems" have "n div 10 < 10 ^ j" by (simp add: div_less_iff_less_mult mult.commute)
    with "1.IH" [OF False, of j] j False show ?thesis by (simp add: show_nat.simps [of n])
  qed
qed

lemma length_show_int: "in_long i \<Longrightarrow> length (show_int i) \<le> 20"
proof -
  assume "in_long i"
  then have "nat i < 10 ^ 19" and "nat (- i) < 10 ^ 19"
    by (auto simp: long_bounds nat_less_iff)
  then have "length (show_nat (nat i)) \<le> 19" and "length (show_nat (nat (- i))) \<le> 19"
    by (auto intro: length_show_nat)
  then show ?thesis by (simp add: show_int_def)
qed

end
