(* ===== verification/Cw_Tokens.thy ===== *)
theory Cw_Tokens
  imports Cw_Prelude
begin

text \<open>
  The tokeniser of \<open>src/iod/src/symboltable.cpp\<close>: it numbers the distinct names of a program,
  so that two symbols are compared by their numbers. The interface is the locale
  \<open>interning\<close>; the tokeniser is its interpretation \<open>tokeniser_interning\<close>.
\<close>

section \<open>The tokeniser\<close>

record tokeniser =
  tokens :: "(string \<times> int) list"
  next_tok :: int

definition new_tokeniser :: tokeniser where
  "new_tokeniser = \<lparr>tokens = [], next_tok = 0\<rparr>"

text \<open>\<open>Tokeniser::getTokenId\<close>: the number of the name and the table after the call.\<close>

definition getTokenId :: "tokeniser \<Rightarrow> string \<Rightarrow> int \<times> tokeniser" where
  "getTokenId t name = (case amap_find (tokens t) name of
     Some n \<Rightarrow> (n, t)
   | None \<Rightarrow>
       (let n = next_tok t + 1
        in (n, t\<lparr>tokens := amap_put name n (tokens t), next_tok := n\<rparr>)))"

text \<open>The names that \<open>Tokeniser::instance\<close> registers, in its order.\<close>

definition builtin_token_names :: "string list" where
  "builtin_token_names =
     [''EXTERNAL'', ''POINT'', ''LIST'', ''TIMER'', ''REFERENCE'', ''ITEM'', ''VARIABLE'',
      ''CONSTANT'', ''CONDITION'', ''MQTTPUBLISHER'', ''MQTTSUBSCRIBER'', ''POLLING_DELAY'',
      ''CYCLE_DELAY'', ''message'', ''SYSTEMSETTINGS'', ''TRACEABLE'', ''VALUE'', ''on'',
      ''off'', ''DEBUG'', ''TRACE'']"

definition intern_all :: "string list \<Rightarrow> tokeniser \<Rightarrow> tokeniser" where
  "intern_all names t = fold (\<lambda>n t. snd (getTokenId t n)) names t"

definition tokeniser_instance :: tokeniser where
  "tokeniser_instance = intern_all builtin_token_names new_tokeniser"

text \<open>The members of \<open>ClockworkToken\<close> are the numbers of these names.\<close>

definition clockwork_token :: "string \<Rightarrow> int" where
  "clockwork_token name = fst (getTokenId tokeniser_instance name)"

text \<open>Numbers are positive, at most the last one given, and belong to one name each.\<close>

definition tokeniser_inv :: "tokeniser \<Rightarrow> bool" where
  "tokeniser_inv t \<longleftrightarrow>
     amap_ok (tokens t) \<and> 0 \<le> next_tok t
     \<and> (\<forall>(k, n) \<in> set (tokens t). 0 < n \<and> n \<le> next_tok t)
     \<and> (\<forall>e \<in> set (tokens t). \<forall>e' \<in> set (tokens t). snd e = snd e' \<longrightarrow> e = e')"

definition token_of :: "tokeniser \<Rightarrow> string \<rightharpoonup> int" where
  "token_of t = amap_find (tokens t)"

section \<open>The interface of a table that numbers names\<close>

locale interning =
  fixes intern :: "'t \<Rightarrow> string \<Rightarrow> int \<times> 't"
    and number_of :: "'t \<Rightarrow> string \<rightharpoonup> int"
    and table_ok :: "'t \<Rightarrow> bool"
  assumes ok_intern: "table_ok t \<Longrightarrow> table_ok (snd (intern t s))"
    and intern_number: "table_ok t \<Longrightarrow> number_of (snd (intern t s)) s = Some (fst (intern t s))"
    and intern_keeps: "table_ok t \<Longrightarrow> number_of t u = Some n \<Longrightarrow> number_of (snd (intern t s)) u = Some n"
    and number_inj: "table_ok t \<Longrightarrow> number_of t s = Some n \<Longrightarrow> number_of t u = Some n \<Longrightarrow> s = u"
    and number_pos: "table_ok t \<Longrightarrow> number_of t s = Some n \<Longrightarrow> 0 < n"
begin

text \<open>The numbers of two names are equal exactly when the names are.\<close>

lemma numbers_eq_iff:
  "table_ok t \<Longrightarrow> number_of t s = Some n \<Longrightarrow> number_of t u = Some m \<Longrightarrow> n = m \<longleftrightarrow> s = u"
  using number_inj by auto

lemma intern_twice:
  assumes "table_ok t"
  shows "number_of (snd (intern (snd (intern t s)) u)) s = Some (fst (intern t s))"
  using assms by (simp add: intern_keeps intern_number ok_intern)

text \<open>Two names interned one after the other, with any calls between them.\<close>

lemma intern_eq_iff:
  assumes "table_ok t" "table_ok t'"
    and "\<And>u n. number_of (snd (intern t s)) u = Some n \<Longrightarrow> number_of t' u = Some n"
  shows "fst (intern t s) = fst (intern t' u) \<longleftrightarrow> s = u"
proof -
  have "number_of t' s = Some (fst (intern t s))"
    using assms intern_number by blast
  then have "number_of (snd (intern t' u)) s = Some (fst (intern t s))"
    using assms(2) by (rule intern_keeps [rotated])
  moreover have "number_of (snd (intern t' u)) u = Some (fst (intern t' u))"
    using assms(2) by (rule intern_number)
  moreover have "table_ok (snd (intern t' u))"
    using assms(2) by (rule ok_intern)
  ultimately show ?thesis using numbers_eq_iff by blast
qed

end

section \<open>The tokeniser implements it\<close>

lemma token_of_entry: "tokeniser_inv t \<Longrightarrow> token_of t s = Some n \<longleftrightarrow> (s, n) \<in> set (tokens t)"
proof -
  assume "tokeniser_inv t"
  then have "distinct (map fst (tokens t))"
    by (simp add: tokeniser_inv_def amap_ok_def strict_sorted_iff)
  then show ?thesis by (simp add: token_of_def amap_find_map_of)
qed

lemma set_amap_put_new:
  "amap_find m k = None \<Longrightarrow> set (amap_put k v m) = insert (k, v) (set m)"
  by (induction k v m rule: amap_put.induct) (auto split: if_splits)

lemma tokeniser_inv_new [simp]: "tokeniser_inv new_tokeniser"
  by (simp add: tokeniser_inv_def new_tokeniser_def)

lemma tokeniser_inv_entry:
  assumes "tokeniser_inv t" "(k, n) \<in> set (tokens t)"
  shows "0 < n" "n \<le> next_tok t"
  using assms by (auto simp: tokeniser_inv_def)

lemma tokeniser_inv_unique:
  "tokeniser_inv t \<Longrightarrow> (k, n) \<in> set (tokens t) \<Longrightarrow> (k', n) \<in> set (tokens t) \<Longrightarrow> k = k'"
  unfolding tokeniser_inv_def by (metis prod.inject snd_conv)

lemma tokeniser_inv_add:
  assumes inv: "tokeniser_inv t" and new: "amap_find (tokens t) s = None"
  defines "n \<equiv> next_tok t + 1"
  shows "tokeniser_inv (t\<lparr>tokens := amap_put s n (tokens t), next_tok := n\<rparr>)"
proof -
  have set: "set (amap_put s n (tokens t)) = insert (s, n) (set (tokens t))"
    using new by (rule set_amap_put_new)
  have old: "m < n" if "(k, m) \<in> set (tokens t)" for k m
    using tokeniser_inv_entry [OF inv that] by (simp add: n_def)
  have notin: "(k, n) \<notin> set (tokens t)" for k
    using old [of k n] by auto
  have pos: "0 < n" using inv by (simp add: tokeniser_inv_def n_def)
  show ?thesis
    unfolding tokeniser_inv_def
  proof (intro conjI)
    show "\<forall>(k, m) \<in> set (tokens (t\<lparr>tokens := amap_put s n (tokens t), next_tok := n\<rparr>)).
        0 < m \<and> m \<le> next_tok (t\<lparr>tokens := amap_put s n (tokens t), next_tok := n\<rparr>)"
      using tokeniser_inv_entry(1) [OF inv] old pos by (fastforce simp: set)
    show "\<forall>e \<in> set (tokens (t\<lparr>tokens := amap_put s n (tokens t), next_tok := n\<rparr>)).
        \<forall>e' \<in> set (tokens (t\<lparr>tokens := amap_put s n (tokens t), next_tok := n\<rparr>)).
          snd e = snd e' \<longrightarrow> e = e'"
      using notin by (auto simp: set dest: tokeniser_inv_unique [OF inv])
  qed (use inv in \<open>auto simp: tokeniser_inv_def n_def\<close>)
qed

lemma tokeniser_inv_getTokenId: "tokeniser_inv t \<Longrightarrow> tokeniser_inv (snd (getTokenId t s))"
  by (cases "amap_find (tokens t) s") (simp_all add: getTokenId_def Let_def tokeniser_inv_add)

interpretation tokeniser_interning: interning getTokenId token_of tokeniser_inv
proof unfold_locales
  fix t :: tokeniser and s u :: string and n :: int
  assume inv: "tokeniser_inv t"
  show "tokeniser_inv (snd (getTokenId t s))" using inv by (rule tokeniser_inv_getTokenId)
  show "token_of (snd (getTokenId t s)) s = Some (fst (getTokenId t s))"
    by (auto simp: token_of_def getTokenId_def Let_def split: option.splits)
  show "token_of (snd (getTokenId t s)) u = Some n" if "token_of t u = Some n"
    using that by (auto simp: token_of_def getTokenId_def Let_def split: option.splits)
  show "s = u" if "token_of t s = Some n" "token_of t u = Some n"
    using that inv by (simp add: token_of_entry tokeniser_inv_unique)
  show "0 < n" if "token_of t s = Some n"
    using that inv by (simp add: token_of_entry tokeniser_inv_entry)
qed

lemma tokeniser_inv_intern_all: "tokeniser_inv t \<Longrightarrow> tokeniser_inv (intern_all names t)"
  unfolding intern_all_def
  by (induction names arbitrary: t) (simp_all add: tokeniser_inv_getTokenId)

lemma tokeniser_inv_instance: "tokeniser_inv tokeniser_instance"
  by (simp add: tokeniser_instance_def tokeniser_inv_intern_all)

end
