(* ===== verification/Cw_Value.thy ===== *)
theory Cw_Value
  imports Cw_CLib Cw_Tokens
begin

unbundle bit_operations_syntax

text \<open>
  The class \<open>Value\<close> of \<open>src/iod/src/value.h\<close> and \<open>src/iod/src/value.cpp\<close>: the dynamically
  typed values of the Clockwork language, their construction, conversions, comparisons and
  arithmetic. The fields \<open>bValue\<close>, \<open>iValue\<close> and \<open>fValue\<close> have no initialiser in the
  class, so they are options here and a read of a field that was never written is the error
  \<open>Indeterminate\<close>. A dynamic value holds what its \<open>operator()\<close> returns at the moment of
  the call. The caches \<open>cached_machine\<close> and \<open>cached_value\<close>, reference counts and messages
  to the log are left out.
\<close>

section \<open>The data\<close>

datatype kind = t_empty | t_integer | t_string | t_bool | t_symbol | t_dynamic | t_float

datatype cw_value =
  Value (kind: kind) (bValue: "bool option") (iValue: "int option") (fValue: "double option")
        (sValue: string) (token_id: "int option") (dyn_value: "cw_value option")

definition set_kind :: "kind \<Rightarrow> cw_value \<Rightarrow> cw_value" where
  "set_kind k v = Value k (bValue v) (iValue v) (fValue v) (sValue v) (token_id v) (dyn_value v)"

definition set_bValue :: "bool \<Rightarrow> cw_value \<Rightarrow> cw_value" where
  "set_bValue b v = Value (kind v) (Some b) (iValue v) (fValue v) (sValue v) (token_id v) (dyn_value v)"

definition set_iValue :: "int \<Rightarrow> cw_value \<Rightarrow> cw_value" where
  "set_iValue i v = Value (kind v) (bValue v) (Some i) (fValue v) (sValue v) (token_id v) (dyn_value v)"

definition set_fValue :: "double \<Rightarrow> cw_value \<Rightarrow> cw_value" where
  "set_fValue x v = Value (kind v) (bValue v) (iValue v) (Some x) (sValue v) (token_id v) (dyn_value v)"

definition set_sValue :: "string \<Rightarrow> cw_value \<Rightarrow> cw_value" where
  "set_sValue s v = Value (kind v) (bValue v) (iValue v) (fValue v) s (token_id v) (dyn_value v)"

definition set_token_id :: "int \<Rightarrow> cw_value \<Rightarrow> cw_value" where
  "set_token_id n v = Value (kind v) (bValue v) (iValue v) (fValue v) (sValue v) (Some n) (dyn_value v)"

section \<open>Construction and assignment\<close>

definition Value_kind :: "kind \<Rightarrow> cw_value" where
  "Value_kind k = Value k None None None [] (Some 0) None"

definition Value_empty :: "cw_value" where
  "Value_empty = Value_kind t_empty"

definition Value_bool :: "bool \<Rightarrow> cw_value" where
  "Value_bool b = Value t_bool (Some b) None None [] (Some 0) None"

text \<open>The constructors for \<open>long\<close>, \<open>int\<close> and \<open>unsigned int\<close>, whose arguments all fit.\<close>

definition Value_long :: "int \<Rightarrow> cw_value" where
  "Value_long i = Value t_integer None (Some i) None [] (Some 0) None"

definition Value_ulong :: "int \<Rightarrow> cw_value" where
  "Value_ulong u = Value_long (to_long u)"

definition Value_double :: "double \<Rightarrow> cw_value" where
  "Value_double x = Value t_float None None (Some x) [] (Some 0) None"

definition Value_dynamic :: "cw_value \<Rightarrow> cw_value" where
  "Value_dynamic r = Value t_dynamic None None None [] None (Some r)"

text \<open>The two constructors of a dynamic value leave \<open>token_id\<close> unset.\<close>

definition setDynamicValue :: "cw_value \<Rightarrow> cw_value option \<Rightarrow> cw_value res" where
  "setDynamicValue v dv =
     bindr (guardr AssertFailed ((kind v = t_dynamic \<and> dyn_value v \<noteq> None) \<or> dyn_value v = None)) (\<lambda>_.
     Inr (Value t_dynamic (bValue v) (iValue v) (fValue v) (sValue v) (token_id v) dv))"

definition setDynamicValue_ref :: "cw_value \<Rightarrow> cw_value \<Rightarrow> cw_value res" where
  "setDynamicValue_ref v dv =
     bindr (if kind v = t_dynamic then guardr NullPointer (dyn_value v \<noteq> None)
            else guardr AssertFailed (dyn_value v = None)) (\<lambda>_.
     Inr (Value t_dynamic (bValue v) (iValue v) (fValue v) (sValue v) (token_id v) (Some dv)))"

text \<open>The constructor from a C string.\<close>

definition Value_cstr :: "tokeniser \<Rightarrow> string \<Rightarrow> kind \<Rightarrow> cw_value \<times> tokeniser" where
  "Value_cstr t str k =
     (let v = set_sValue str (Value_kind k)
      in if k = t_symbol \<and> str \<noteq> []
         then if str = ''FALSE'' then (set_bValue False (set_kind t_bool (set_sValue [] v)), t)
              else if str = ''TRUE'' then (set_bValue True (set_kind t_bool (set_sValue [] v)), t)
              else if str = ''NULL'' then (set_sValue [] (set_kind t_empty v), t)
              else (let (n, t') = getTokenId t str in (set_token_id n v, t'))
         else (v, t))"

text \<open>The constructor from a \<open>std::string\<close> takes a token for the three keywords too.\<close>

definition Value_string :: "tokeniser \<Rightarrow> string \<Rightarrow> kind \<Rightarrow> cw_value \<times> tokeniser" where
  "Value_string t str k =
     (let v = set_sValue str (Value_kind k)
      in if k = t_symbol \<and> str \<noteq> []
         then (let v' = (if str = ''FALSE'' then set_bValue False (set_kind t_bool (set_sValue [] v))
                         else if str = ''TRUE'' then set_bValue True (set_kind t_bool (set_sValue [] v))
                         else if str = ''NULL'' then set_sValue [] (set_kind t_empty v)
                         else v);
                   (n, t') = getTokenId t str
               in (set_token_id n v', t'))
         else (v, t))"

text \<open>
  \<open>operator=\<close> copies the field of the kind and keeps the other fields of the target; a
  dynamic the target held is released.
\<close>

definition value_assign :: "cw_value \<Rightarrow> cw_value \<Rightarrow> cw_value" where
  "value_assign this orig = (case kind orig of
     t_bool \<Rightarrow> Value t_bool (bValue orig) (iValue this) (fValue this) (sValue this) (token_id this) None
   | t_integer \<Rightarrow> Value t_integer (bValue this) (iValue orig) (fValue this) (sValue this) (token_id this) None
   | t_float \<Rightarrow> Value t_float (bValue this) (iValue this) (fValue orig) (sValue this) (token_id this) None
   | t_string \<Rightarrow> Value t_string (bValue this) (iValue this) (fValue this) (sValue orig) (token_id this) None
   | t_symbol \<Rightarrow> Value t_symbol (bValue this) (iValue this) (fValue this) (sValue orig) (token_id orig) None
   | t_dynamic \<Rightarrow> Value t_dynamic (bValue this) (iValue this) (fValue this) (sValue this) (token_id this)
                   (dyn_value orig)
   | t_empty \<Rightarrow> Value t_empty (bValue this) (iValue this) (fValue this) (sValue this) (token_id this) None)"

definition isNull :: "cw_value \<Rightarrow> bool" where
  "isNull v \<longleftrightarrow> kind v = t_empty"

definition value_toString :: "cw_value \<Rightarrow> cw_value" where
  "value_toString v = (if kind v = t_symbol then set_kind t_string v else v)"

definition value_toSymbol :: "cw_value \<Rightarrow> cw_value" where
  "value_toSymbol v = (if kind v = t_string then set_kind t_symbol v else v)"

definition numeric :: "cw_value \<Rightarrow> bool" where
  "numeric v \<longleftrightarrow> kind v = t_integer \<or> kind v = t_float"

definition numeric_types :: "kind \<Rightarrow> kind \<Rightarrow> bool" where
  "numeric_types a b \<longleftrightarrow> (a = t_integer \<or> a = t_float) \<and> (b = t_integer \<or> b = t_float)"

definition value_name :: "cw_value \<Rightarrow> string" where
  "value_name v = (if kind v = t_symbol \<or> kind v = t_string then sValue v else ''Untitled'')"

section \<open>Conversions\<close>

definition value_trunc :: "cw_value \<Rightarrow> int res" where
  "value_trunc v =
     (if kind v = t_integer then read_field (iValue v)
      else if kind v = t_float then bindr (read_field (fValue v)) long_of_dbl
      else Inr 0)"

definition value_round :: "cw_value \<Rightarrow> int res" where
  "value_round v =
     (if kind v = t_integer then read_field (iValue v)
      else if kind v = t_float then bindr (read_field (fValue v)) long_of_round
      else Inr 0)"

text \<open>
  \<open>stringToLong\<close> and \<open>stringToFloat\<close>: whether the whole string was read, and the number.
  The test for a decimal point in the source only chooses what is logged.
\<close>

definition stringToLong :: "string \<Rightarrow> bool \<times> int" where
  "stringToLong s = (let (x, end) = strtol 10 (c_str s) in (end = [], x))"

definition stringToFloat :: "string \<Rightarrow> bool \<times> double" where
  "stringToFloat s = (let (x, end) = strtod (c_str s) in (end = [], x))"

definition toFloat :: "cw_value \<Rightarrow> double res" where
  "toFloat v =
     (if kind v = t_integer then mapr dbl_of_int (read_field (iValue v))
      else if kind v = t_float then read_field (fValue v)
      else if kind v = t_string
      then (let (ok, x) = stringToFloat (sValue v) in Inr (if ok then x else dzero False))
      else Inr (dzero False))"

text \<open>\<open>asString\<close> with no format.\<close>

fun asString :: "cw_value \<Rightarrow> string res" where
  "asString (Value k b i x s tok dyn) = (case k of
     t_bool \<Rightarrow> mapr (\<lambda>b. if b then ''true'' else ''false'') (read_field b)
   | t_integer \<Rightarrow> mapr (\<lambda>i. snprintf_buf 25 (show_int i)) (read_field i)
   | t_float \<Rightarrow> mapr (\<lambda>x. snprintf_buf 25 (show_fixed6 x)) (read_field x)
   | t_empty \<Rightarrow> Inr ''null''
   | t_symbol \<Rightarrow> Inr s
   | t_string \<Rightarrow> Inr s
   | t_dynamic \<Rightarrow> (case dyn of None \<Rightarrow> Inl NullPointer | Some r \<Rightarrow> asString r))"

definition quoted :: "cw_value \<Rightarrow> string res" where
  "quoted v = mapr (\<lambda>s. if s = [] \<or> hd s \<noteq> CHR 0x22 \<or> last s \<noteq> CHR 0x22
                        then [CHR 0x22] @ s @ [CHR 0x22] else s) (asString v)"

text \<open>
  \<open>asBoolean\<close>, \<open>asInteger\<close> and \<open>asFloat\<close> return whether they succeed and what is
  then in the variable passed by reference, whose old content is the last argument.
\<close>

fun asBoolean :: "cw_value \<Rightarrow> bool \<Rightarrow> (bool \<times> bool) res" where
  "asBoolean (Value k b i x s tok dyn) out = (case k of
     t_bool \<Rightarrow> mapr (\<lambda>b. (True, b)) (read_field b)
   | t_integer \<Rightarrow> mapr (\<lambda>i. (True, i \<noteq> 0)) (read_field i)
   | t_float \<Rightarrow> mapr (\<lambda>x. (True, dne x (dzero False))) (read_field x)
   | t_string \<Rightarrow> Inr (if s = ''true'' \<or> s = ''TRUE'' then (True, True)
                      else if s = ''false'' \<or> s = ''FALSE'' then (True, False) else (False, out))
   | t_symbol \<Rightarrow> Inr (if s = ''true'' \<or> s = ''TRUE'' then (True, True)
                      else if s = ''false'' \<or> s = ''FALSE'' then (True, False) else (False, out))
   | t_dynamic \<Rightarrow> (case dyn of None \<Rightarrow> Inl NullPointer | Some r \<Rightarrow> asBoolean r out)
   | t_empty \<Rightarrow> Inr (False, out))"

fun asInteger :: "cw_value \<Rightarrow> int \<Rightarrow> (bool \<times> int) res" where
  "asInteger (Value k b i x s tok dyn) out = (case k of
     t_integer \<Rightarrow> mapr (\<lambda>i. (True, i)) (read_field i)
   | t_float \<Rightarrow> bindr (read_field x) (\<lambda>x. mapr (\<lambda>i. (True, i)) (long_of_dbl x))
   | t_string \<Rightarrow> (let (n, end) = strtol 10 (c_str s) in Inr (end = [], n))
   | t_symbol \<Rightarrow> (let (n, end) = strtol 10 (c_str s) in Inr (end = [], n))
   | t_bool \<Rightarrow> mapr (\<lambda>b. (True, if b then 1 else 0)) (read_field b)
   | t_dynamic \<Rightarrow> (case dyn of None \<Rightarrow> Inl NullPointer | Some r \<Rightarrow> asInteger r out)
   | t_empty \<Rightarrow> Inr (False, out))"

fun asFloat :: "cw_value \<Rightarrow> double \<Rightarrow> (bool \<times> double) res" where
  "asFloat (Value k b i x s tok dyn) out = (case k of
     t_float \<Rightarrow> mapr (\<lambda>x. (True, x)) (read_field x)
   | t_integer \<Rightarrow> mapr (\<lambda>i. (True, dbl_of_int i)) (read_field i)
   | t_string \<Rightarrow> (let (n, end) = strtod (c_str s) in Inr (end = [], n))
   | t_symbol \<Rightarrow> (let (n, end) = strtod (c_str s) in Inr (end = [], n))
   | t_bool \<Rightarrow> mapr (\<lambda>b. (True, if b then dbl_of_int 1 else dzero False)) (read_field b)
   | t_dynamic \<Rightarrow> (case dyn of None \<Rightarrow> Inl NullPointer | Some r \<Rightarrow> asFloat r out)
   | t_empty \<Rightarrow> Inr (False, out))"

section \<open>Comparisons\<close>

definition string_kind :: "kind \<Rightarrow> kind" where
  "string_kind k = (if k = t_symbol then t_string else k)"

definition ZERO_DISTANCE :: double where
  "ZERO_DISTANCE = dlit 1 8"

text \<open>
  The branch the comparison operators share: both operands are read as numbers, as \<open>double\<close>
  when one of them is a float and as \<open>long\<close> when one of them is an integer. \<open>None\<close> falls
  through to the comparison of equal kinds.
\<close>

definition compare_numbers ::
  "(double \<Rightarrow> double \<Rightarrow> bool) \<Rightarrow> (int \<Rightarrow> int \<Rightarrow> bool) \<Rightarrow> bool \<Rightarrow> cw_value \<Rightarrow> cw_value \<Rightarrow> bool option res" where
  "compare_numbers fcmp icmp otherwise v w =
     (let a = string_kind (kind v); b = string_kind (kind w)
      in if numeric_types a b \<or> (a \<noteq> b \<and> (a = t_string \<or> b = t_string))
         then if a = t_float \<or> b = t_float
              then bindr (asFloat v (dzero False)) (\<lambda>(okx, x).
                     if okx
                     then bindr (asFloat w (dzero False)) (\<lambda>(oky, y).
                            Inr (Some (if oky then fcmp x y else otherwise)))
                     else Inr (Some otherwise))
              else if a = t_integer \<or> b = t_integer
              then bindr (asInteger v 0) (\<lambda>(okx, x).
                     if okx
                     then bindr (asInteger w 0) (\<lambda>(oky, y).
                            Inr (Some (if oky then icmp x y else otherwise)))
                     else Inr (Some otherwise))
              else Inr None
         else Inr None)"

definition value_ge :: "cw_value \<Rightarrow> cw_value \<Rightarrow> bool res" where
  "value_ge v w =
     bindr (compare_numbers (\<lambda>x y. dle y x) (\<lambda>x y. y \<le> x) False v w) (\<lambda>r. case r of
       Some b \<Rightarrow> Inr b
     | None \<Rightarrow>
         if string_kind (kind v) \<noteq> string_kind (kind w) then Inr False
         else (case kind v of
             t_integer \<Rightarrow> bindr (read_field (iValue v)) (\<lambda>x. mapr (\<lambda>y. y \<le> x) (read_field (iValue w)))
           | t_float \<Rightarrow> bindr (read_field (fValue v)) (\<lambda>x. mapr (\<lambda>y. dle y x) (read_field (fValue w)))
           | t_symbol \<Rightarrow> Inr (sValue w \<le> sValue v)
           | t_string \<Rightarrow> Inr (sValue w \<le> sValue v)
           | _ \<Rightarrow> Inr False))"

definition value_le :: "cw_value \<Rightarrow> cw_value \<Rightarrow> bool res" where
  "value_le v w =
     bindr (compare_numbers dle (\<lambda>x y. x \<le> y) False v w) (\<lambda>r. case r of
       Some b \<Rightarrow> Inr b
     | None \<Rightarrow>
         if string_kind (kind v) \<noteq> string_kind (kind w) then Inr False
         else (case kind v of
             t_integer \<Rightarrow> bindr (read_field (iValue v)) (\<lambda>x. mapr (\<lambda>y. x \<le> y) (read_field (iValue w)))
           | t_float \<Rightarrow> bindr (read_field (fValue v)) (\<lambda>x. mapr (\<lambda>y. dle x y) (read_field (fValue w)))
           | t_symbol \<Rightarrow> Inr (sValue v \<le> sValue w)
           | t_string \<Rightarrow> Inr (sValue v \<le> sValue w)
           | _ \<Rightarrow> Inr False))"

definition value_lt :: "cw_value \<Rightarrow> cw_value \<Rightarrow> bool res" where
  "value_lt v w = mapr Not (value_ge v w)"

definition value_gt :: "cw_value \<Rightarrow> cw_value \<Rightarrow> bool res" where
  "value_gt v w = mapr Not (value_le v w)"

definition float_near :: "double \<Rightarrow> double \<Rightarrow> bool" where
  "float_near x y \<longleftrightarrow> deq x y \<or> dle (dabs (dsub x y)) ZERO_DISTANCE"

definition float_apart :: "double \<Rightarrow> double \<Rightarrow> bool" where
  "float_apart x y \<longleftrightarrow> dne x y \<and> dlt ZERO_DISTANCE (dabs (dsub x y))"

definition value_eq :: "cw_value \<Rightarrow> cw_value \<Rightarrow> bool res" where
  "value_eq v w =
     (if kind v = t_symbol \<and> kind w = t_symbol
      then bindr (read_field (token_id v)) (\<lambda>x. mapr ((=) x) (read_field (token_id w)))
      else bindr (compare_numbers float_near (=) False v w) (\<lambda>r. case r of
         Some b \<Rightarrow> Inr b
       | None \<Rightarrow>
           if string_kind (kind v) \<noteq> string_kind (kind w) then Inr False
           else (case string_kind (kind v) of
               t_empty \<Rightarrow> Inr True
             | t_float \<Rightarrow> bindr (read_field (fValue v)) (\<lambda>x. mapr (float_near x) (read_field (fValue w)))
             | t_integer \<Rightarrow> bindr (read_field (iValue v)) (\<lambda>x. mapr ((=) x) (read_field (iValue w)))
             | t_symbol \<Rightarrow> bindr (read_field (token_id v)) (\<lambda>x. mapr ((=) x) (read_field (token_id w)))
             | t_string \<Rightarrow> Inr (sValue v = sValue w)
             | t_bool \<Rightarrow> bindr (read_field (bValue v)) (\<lambda>x. mapr ((=) x) (read_field (bValue w)))
             | t_dynamic \<Rightarrow> Inr False)))"

definition value_ne :: "cw_value \<Rightarrow> cw_value \<Rightarrow> bool res" where
  "value_ne v w =
     (if kind v = t_symbol \<and> kind w = t_symbol
      then bindr (read_field (token_id v)) (\<lambda>x. mapr ((\<noteq>) x) (read_field (token_id w)))
      else bindr (compare_numbers float_apart (\<noteq>) True v w) (\<lambda>r. case r of
         Some b \<Rightarrow> Inr b
       | None \<Rightarrow>
           if string_kind (kind v) \<noteq> string_kind (kind w) then Inr True
           else (case string_kind (kind v) of
               t_empty \<Rightarrow> Inr False
             | t_integer \<Rightarrow> bindr (read_field (iValue v)) (\<lambda>x. mapr ((\<noteq>) x) (read_field (iValue w)))
             | t_float \<Rightarrow> bindr (read_field (fValue v)) (\<lambda>x. mapr (float_apart x) (read_field (fValue w)))
             | t_symbol \<Rightarrow> bindr (read_field (token_id v)) (\<lambda>x. mapr ((\<noteq>) x) (read_field (token_id w)))
             | t_string \<Rightarrow> Inr (sValue v \<noteq> sValue w)
             | t_bool \<Rightarrow> bindr (read_field (bValue v)) (\<lambda>x. mapr ((\<noteq>) x) (read_field (bValue w)))
             | t_dynamic \<Rightarrow> Inr False)))"

text \<open>\<open>identical\<close> compares floats exactly.\<close>

definition identical :: "cw_value \<Rightarrow> cw_value \<Rightarrow> bool res" where
  "identical v w =
     (if kind v \<noteq> t_float \<or> kind w \<noteq> t_float then value_eq v w
      else bindr (read_field (fValue v)) (\<lambda>x. mapr (deq x) (read_field (fValue w))))"

section \<open>Logical operators\<close>

text \<open>The left operand's kind chooses the field that is read in both operands.\<close>

definition value_and :: "cw_value \<Rightarrow> cw_value \<Rightarrow> bool res" where
  "value_and v w = (case kind v of
     t_integer \<Rightarrow> bindr (read_field (iValue v)) (\<lambda>x.
                    if x = 0 then Inr False else mapr (\<lambda>y. y \<noteq> 0) (read_field (iValue w)))
   | t_bool \<Rightarrow> bindr (read_field (bValue v)) (\<lambda>x.
                    if x then read_field (bValue w) else Inr False)
   | _ \<Rightarrow> Inr False)"

definition value_or :: "cw_value \<Rightarrow> cw_value \<Rightarrow> bool res" where
  "value_or v w = (case kind v of
     t_integer \<Rightarrow> bindr (read_field (iValue v)) (\<lambda>x.
                    if x \<noteq> 0 then Inr True else mapr (\<lambda>y. y \<noteq> 0) (read_field (iValue w)))
   | t_bool \<Rightarrow> bindr (read_field (bValue v)) (\<lambda>x.
                    if x then Inr True else read_field (bValue w))
   | _ \<Rightarrow> Inr False)"

definition value_not :: "cw_value \<Rightarrow> bool res" where
  "value_not v = (case kind v of
     t_empty \<Rightarrow> Inr True
   | t_integer \<Rightarrow> mapr (\<lambda>i. i = 0) (read_field (iValue v))
   | t_bool \<Rightarrow> mapr Not (read_field (bValue v))
   | t_symbol \<Rightarrow> Inr False
   | t_string \<Rightarrow> Inr False
   | _ \<Rightarrow> Inr True)"

section \<open>Well-formed values\<close>

text \<open>
  The field that the kind selects has been written, the integer is in the range of \<open>long\<close>
  even when it is stale, and only a dynamic value refers to a \<open>DynamicValueBase\<close>.
\<close>

fun value_ok :: "cw_value \<Rightarrow> bool" where
  "value_ok (Value k b i x s tok dyn) =
     ((case i of None \<Rightarrow> k \<noteq> t_integer | Some n \<Rightarrow> in_long n)
      \<and> (k = t_bool \<longrightarrow> b \<noteq> None) \<and> (k = t_float \<longrightarrow> x \<noteq> None) \<and> (k = t_symbol \<longrightarrow> tok \<noteq> None)
      \<and> (case dyn of None \<Rightarrow> k \<noteq> t_dynamic | Some r \<Rightarrow> k = t_dynamic \<and> value_ok r))"

text \<open>A symbol carries the number of its text.\<close>

definition tokenised :: "tokeniser \<Rightarrow> cw_value \<Rightarrow> bool" where
  "tokenised t v \<longleftrightarrow> (kind v = t_symbol \<longrightarrow> token_of t (sValue v) = token_id v)"

definition plain_name :: "string \<Rightarrow> bool" where
  "plain_name s \<longleftrightarrow> s \<noteq> [] \<and> s \<noteq> ''TRUE'' \<and> s \<noteq> ''FALSE'' \<and> s \<noteq> ''NULL''"

text \<open>The comparison is made in floating point and an operand is not a number.\<close>

definition unordered :: "cw_value \<Rightarrow> cw_value \<Rightarrow> bool" where
  "unordered v w \<longleftrightarrow>
     (kind v = t_float \<and> kind w \<in> {t_float, t_integer, t_string, t_symbol}
      \<or> kind w = t_float \<and> kind v \<in> {t_integer, t_string, t_symbol})
     \<and> (case (asFloat v (dzero False), asFloat w (dzero False)) of
          (Inr (okx, x), Inr (oky, y)) \<Rightarrow> okx \<and> oky \<and> (x = NaN \<or> y = NaN)
        | _ \<Rightarrow> False)"

section \<open>Lemmas\<close>

lemmas set_field_defs [value_simps] =
  set_kind_def set_bValue_def set_iValue_def set_fValue_def set_sValue_def set_token_id_def

lemmas constructor_defs [value_simps] =
  Value_kind_def Value_empty_def Value_bool_def Value_long_def Value_double_def Value_dynamic_def

text \<open>A well-formed value has one of these shapes.\<close>

lemma value_ok_cases [consumes 1, case_names empty bool integer float string symbol dynamic]:
  assumes "value_ok v"
  obtains (empty) b i x s tok where "v = Value t_empty b i x s tok None"
    | (bool) b i x s tok where "v = Value t_bool (Some b) i x s tok None"
    | (integer) b i x s tok where "v = Value t_integer b (Some i) x s tok None" "in_long i"
    | (float) b i x s tok where "v = Value t_float b i (Some x) s tok None"
    | (string) b i x s tok where "v = Value t_string b i x s tok None"
    | (symbol) b i x s tok where "v = Value t_symbol b i x s (Some tok) None"
    | (dynamic) b i x s tok r where "v = Value t_dynamic b i x s tok (Some r)" "value_ok r"
  using assms by (cases v; cases "kind v") (auto split: option.splits)

lemma asString_defined: "value_ok v \<Longrightarrow> defined (asString v)"
proof (induction v)
  case (Value k b i x s tok dyn)
  then show ?case by (cases k; cases dyn) (auto split: option.splits)
qed

lemma asBoolean_defined: "value_ok v \<Longrightarrow> defined (asBoolean v out)"
proof (induction v)
  case (Value k b i x s tok dyn)
  then show ?case by (cases k; cases dyn) (auto split: option.splits)
qed

lemma asFloat_defined: "value_ok v \<Longrightarrow> defined (asFloat v out)"
proof (induction v)
  case (Value k b i x s tok dyn)
  then show ?case by (cases k; cases dyn) (auto simp: case_prod_beta split: option.splits)
qed

lemma asFloat_obtain:
  assumes "value_ok v"
  obtains ok x where "asFloat v out = Inr (ok, x)"
  using asFloat_defined [OF assms, of out] by (auto simp: defined_iff)

text \<open>\<open>==\<close> and \<open>!=\<close> on floats.\<close>

lemma dsub_NaN: "x \<noteq> NaN \<Longrightarrow> y \<noteq> NaN \<Longrightarrow> dsub x y = NaN \<Longrightarrow> deq x y"
  by (cases x; cases y) (auto simp: dsub_def Let_def dzero_def split: if_splits)

lemma dabs_NaN_iff [simp]: "dabs x = NaN \<longleftrightarrow> x = NaN"
  by (cases x) auto

lemma dlt_not_dle: "x \<noteq> NaN \<Longrightarrow> y \<noteq> NaN \<Longrightarrow> dlt x y \<longleftrightarrow> \<not> dle y x"
  by (cases x; cases y) (auto simp: dle_def Let_def min.commute)

lemma ZERO_DISTANCE_number: "ZERO_DISTANCE \<noteq> NaN"
  by (simp add: ZERO_DISTANCE_def dlit_def round_double_def)

lemma float_apart_iff: "float_apart x y \<longleftrightarrow> \<not> float_near x y \<and> x \<noteq> NaN \<and> y \<noteq> NaN"
proof (cases "x = NaN \<or> y = NaN")
  case True
  then have "dsub x y = NaN" by (cases x; cases y) (auto simp: dsub_def)
  with True show ?thesis by (auto simp: float_apart_def float_near_def)
next
  case False
  then show ?thesis
    using dsub_NaN [of x y] dlt_not_dle [OF ZERO_DISTANCE_number, of "dabs (dsub x y)"]
    by (auto simp: float_apart_def float_near_def dne_def)
qed

lemma float_near_NaN [simp]: "\<not> float_near NaN y" "\<not> float_near x NaN"
  by (cases y; simp add: float_near_def dsub_def) (cases x; simp add: float_near_def dsub_def)

lemma compare_numbers_defined:
  assumes "value_ok v" "value_ok w"
  shows "defined (compare_numbers f g d v w)"
proof -
  obtain okx x oky y where "asFloat v (dzero False) = Inr (okx, x)" "asFloat w (dzero False) = Inr (oky, y)"
    using assms by (metis asFloat_obtain)
  then show ?thesis
    by (rule_tac value_ok_cases [OF assms(1)]; rule_tac value_ok_cases [OF assms(2)])
      (simp_all add: compare_numbers_def string_kind_def numeric_types_def case_prod_beta)
qed

lemma value_eq_defined:
  assumes "value_ok v" "value_ok w"
  shows "defined (value_eq v w)"
proof -
  obtain r where "compare_numbers float_near (=) False v w = Inr r"
    using compare_numbers_defined [OF assms] unfolding defined_iff by blast
  then show ?thesis
    by (rule_tac value_ok_cases [OF assms(1)]; rule_tac value_ok_cases [OF assms(2)]; cases r)
      (simp_all add: value_eq_def string_kind_def)
qed

lemma value_ge_defined:
  assumes "value_ok v" "value_ok w"
  shows "defined (value_ge v w)"
proof -
  obtain r where "compare_numbers (\<lambda>x y. dle y x) (\<lambda>x y. y \<le> x) False v w = Inr r"
    using compare_numbers_defined [OF assms] unfolding defined_iff by blast
  then show ?thesis
    by (rule_tac value_ok_cases [OF assms(1)]; rule_tac value_ok_cases [OF assms(2)]; cases r)
      (simp_all add: value_ge_def string_kind_def)
qed

lemma value_le_defined:
  assumes "value_ok v" "value_ok w"
  shows "defined (value_le v w)"
proof -
  obtain r where "compare_numbers dle (\<lambda>x y. x \<le> y) False v w = Inr r"
    using compare_numbers_defined [OF assms] unfolding defined_iff by blast
  then show ?thesis
    by (rule_tac value_ok_cases [OF assms(1)]; rule_tac value_ok_cases [OF assms(2)]; cases r)
      (simp_all add: value_le_def string_kind_def)
qed

text \<open>\<open>!=\<close> against \<open>==\<close>.\<close>

lemma compare_numbers_negation:
  assumes "value_ok v" "value_ok w"
  shows "compare_numbers float_apart (\<noteq>) True v w =
    mapr (map_option (\<lambda>b. \<not> b \<and> \<not> unordered v w)) (compare_numbers float_near (=) False v w)"
proof -
  obtain okx x oky y where f: "asFloat v (dzero False) = Inr (okx, x)" "asFloat w (dzero False) = Inr (oky, y)"
    using assms by (metis asFloat_obtain)
  show ?thesis
    by (rule_tac value_ok_cases [OF assms(1)]; rule_tac value_ok_cases [OF assms(2)])
      (use f in \<open>auto simp: compare_numbers_def string_kind_def numeric_types_def unordered_def
        case_prod_beta float_apart_iff\<close>)
qed

lemma value_ne_value_eq:
  assumes "value_ok v" "value_ok w"
  shows "value_ne v w =
    mapr (\<lambda>b. \<not> b \<and> \<not> unordered v w \<and> \<not> (kind v = t_dynamic \<and> kind w = t_dynamic)) (value_eq v w)"
proof -
  obtain r where r: "compare_numbers float_near (=) False v w = Inr r"
    using compare_numbers_defined [OF assms] unfolding defined_iff by blast
  have "compare_numbers float_apart (\<noteq>) True v w = Inr (map_option (\<lambda>b. \<not> b \<and> \<not> unordered v w) r)"
    using compare_numbers_negation [OF assms] r by simp
  with r show ?thesis
    by (rule_tac value_ok_cases [OF assms(1)]; rule_tac value_ok_cases [OF assms(2)]; cases r)
      (auto simp: value_ne_def value_eq_def string_kind_def unordered_def compare_numbers_def
        numeric_types_def Let_def bindr_Inr_iff split: prod.splits if_splits)
qed

text \<open>Tokens.\<close>

lemma Value_cstr_plain:
  "plain_name s \<Longrightarrow> Value_cstr t s t_symbol =
     (Value t_symbol None None None s (Some (fst (getTokenId t s))) None, snd (getTokenId t s))"
  by (simp add: Value_cstr_def plain_name_def value_simps case_prod_beta)

lemma tokenised_Value_cstr:
  "tokeniser_inv t \<Longrightarrow> plain_name s \<Longrightarrow> tokenised (snd (Value_cstr t s t_symbol)) (fst (Value_cstr t s t_symbol))"
  by (simp add: Value_cstr_plain tokenised_def tokeniser_interning.intern_number)

lemma tokenised_symbols_eq:
  assumes "tokeniser_inv t" "tokenised t v" "tokenised t w" "kind v = t_symbol" "kind w = t_symbol"
    "value_ok v" "value_ok w"
  shows "value_eq v w = Inr (sValue v = sValue w)"
proof -
  obtain m n where "token_id v = Some m" "token_id w = Some n"
    using assms(4-) by (cases v; cases w) auto
  moreover have "token_of t (sValue v) = token_id v" "token_of t (sValue w) = token_id w"
    using assms by (auto simp: tokenised_def)
  ultimately show ?thesis
    using assms(4,5) tokeniser_interning.numbers_eq_iff [OF assms(1)] by (auto simp: value_eq_def)
qed

text \<open>What is read through a value depends on the field of its kind only.\<close>

lemma value_assign_kind [simp]: "kind (value_assign u v) = kind v"
  by (cases v) (auto simp: value_assign_def split: kind.splits)

lemma value_assign_reads:
  shows "asString (value_assign u v) = asString v"
    and "asBoolean (value_assign u v) bo = asBoolean v bo"
    and "asInteger (value_assign u v) io = asInteger v io"
    and "asFloat (value_assign u v) fo = asFloat v fo"
  by (cases v; cases "kind v"; simp add: value_assign_def)+

lemma value_assign_fields:
  "kind v = t_bool \<Longrightarrow> bValue (value_assign u v) = bValue v"
  "kind v = t_integer \<Longrightarrow> iValue (value_assign u v) = iValue v"
  "kind v = t_float \<Longrightarrow> fValue (value_assign u v) = fValue v"
  "kind v = t_string \<Longrightarrow> sValue (value_assign u v) = sValue v"
  "kind v = t_symbol \<Longrightarrow> sValue (value_assign u v) = sValue v"
  "kind v = t_symbol \<Longrightarrow> token_id (value_assign u v) = token_id v"
  by (simp_all add: value_assign_def)

lemma value_ok_assign: "value_ok u \<Longrightarrow> value_ok v \<Longrightarrow> value_ok (value_assign u v)"
  by (cases u; cases v; cases "kind v") (auto simp: value_assign_def split: option.splits)

lemma compare_numbers_assign:
  "compare_numbers f g d (value_assign u v) w = compare_numbers f g d v w"
  "compare_numbers f g d w (value_assign u v) = compare_numbers f g d w v"
  by (simp_all add: compare_numbers_def value_assign_reads cong: if_cong)

lemma value_eq_assign: "value_eq (value_assign u v) w = value_eq v w"
  by (cases "kind v") (simp_all add: value_eq_def compare_numbers_assign value_assign_fields string_kind_def
      cong: option.case_cong kind.case_cong if_cong)

lemma value_ge_assign: "value_ge (value_assign u v) w = value_ge v w"
  by (cases "kind v") (simp_all add: value_ge_def compare_numbers_assign value_assign_fields string_kind_def
      cong: option.case_cong kind.case_cong if_cong)

lemma value_le_assign: "value_le (value_assign u v) w = value_le v w"
  by (cases "kind v") (simp_all add: value_le_def compare_numbers_assign value_assign_fields string_kind_def
      cong: option.case_cong kind.case_cong if_cong)

text \<open>Reading back a printed integer.\<close>

lemma asString_Value_long: "in_long i \<Longrightarrow> asString (Value_long i) = Inr (show_int i)"
  using length_show_int [of i] by (simp add: Value_long_def snprintf_buf_def)

lemma asInteger_show_int:
  "in_long i \<Longrightarrow> asInteger (Value t_string b n x (show_int i) tok d) out = Inr (True, i)"
  by (simp add: show_int_no_null strtol_show_int)

section \<open>Properties\<close>

text \<open>
  Claim C34. A comparison of two well-formed values reads no field that was never written and
  does not trap: each of the seven comparison operators returns.
\<close>

theorem comparisons_defined:
  assumes "value_ok v" "value_ok w"
  shows "defined (value_eq v w) \<and> defined (value_ne v w) \<and> defined (value_lt v w) \<and>
    defined (value_gt v w) \<and> defined (value_le v w) \<and> defined (value_ge v w) \<and> defined (identical v w)"
proof -
  have "defined (identical v w)"
    by (rule_tac value_ok_cases [OF assms(1)]; rule_tac value_ok_cases [OF assms(2)])
      (use value_eq_defined [OF assms] in \<open>simp_all add: identical_def\<close>)
  then show ?thesis
    using value_eq_defined [OF assms] value_ge_defined [OF assms] value_le_defined [OF assms]
    by (simp add: value_ne_value_eq [OF assms] value_lt_def value_gt_def)
qed

theorem comparisons_defined_witness:
  "value_ok (Value_long 3) \<and> value_ok (Value t_string None None None ''x'' (Some 0) None) \<and>
   defined (value_eq (Value_long 3) (Value t_string None None None ''x'' (Some 0) None))"
proof -
  have "value_ok (Value_long 3)" by (simp add: Value_long_def long_bounds)
  moreover have "value_ok (Value t_string None None None ''x'' (Some 0) None)" by simp
  ultimately show ?thesis using comparisons_defined by blast
qed

text \<open>
  On well-formed values \<open>!=\<close> is the negation of \<open>==\<close> exactly when the values
  are not both dynamic and no number that is NaN takes part in the comparison; in the
  remaining cases both operators return false.
\<close>

lemma value_ne_negates_value_eq:
  assumes "value_ok v" "value_ok w"
  shows "value_ne v w = mapr Not (value_eq v w) \<longleftrightarrow>
    \<not> unordered v w \<and> \<not> (kind v = t_dynamic \<and> kind w = t_dynamic)"
proof -
  obtain b where b: "value_eq v w = Inr b"
    using value_eq_defined [OF assms] by (auto simp: defined_iff)
  have "\<not> b" if "unordered v w \<or> (kind v = t_dynamic \<and> kind w = t_dynamic)"
    using that b
    by (auto simp: value_eq_def compare_numbers_def unordered_def string_kind_def numeric_types_def
        bindr_Inr_iff Let_def split: prod.splits sum.splits if_splits)
  then show ?thesis by (auto simp: value_ne_value_eq [OF assms] b)
qed

text \<open>
  Two symbols built one after the other from names other than the keywords \<open>TRUE\<close>,
  \<open>FALSE\<close> and \<open>NULL\<close> are equal exactly when the names are, although only their token
  numbers are compared.
\<close>

lemma symbols_equal_iff_names:
  assumes "tokeniser_inv t" "plain_name s" "plain_name u"
  shows "(let (v, t') = Value_cstr t s t_symbol; (w, t'') = Value_cstr t' u t_symbol
          in value_eq v w) = Inr (s = u)"
proof -
  have "fst (getTokenId t s) = fst (getTokenId (snd (getTokenId t s)) u) \<longleftrightarrow> s = u"
    using assms(1) by (intro tokeniser_interning.intern_eq_iff) (auto intro: tokeniser_interning.ok_intern)
  then show ?thesis
    using assms(2,3) by (auto simp: Value_cstr_plain value_eq_def)
qed

text \<open>
  For symbols that carry the number of their text, the order on texts agrees with
  equality of numbers: both \<open><=\<close> and \<open>>=\<close> hold exactly when \<open>==\<close> does.
\<close>

lemma symbol_order_antisym:
  assumes "tokeniser_inv t" "tokenised t v" "tokenised t w" "value_ok v" "value_ok w"
    and "kind v = t_symbol" "kind w = t_symbol"
  shows "bindr (value_le v w) (\<lambda>x. mapr (\<lambda>y. x \<and> y) (value_ge v w)) = value_eq v w"
proof -
  have "value_le v w = Inr (sValue v \<le> sValue w)" "value_ge v w = Inr (sValue w \<le> sValue v)"
    using assms(6,7)
    by (simp_all add: value_le_def value_ge_def compare_numbers_def string_kind_def numeric_types_def)
  then show ?thesis
    using tokenised_symbols_eq [OF assms(1-3,6,7,4,5)] by auto
qed

text \<open>
  Claim C36. Printing an integer with \<open>asString\<close> and reading the text back with
  \<open>asInteger\<close> succeeds and returns the integer, for every value of type \<open>long\<close>: the
  buffer of 25 characters is long enough.
\<close>

theorem integer_text_round_trip:
  assumes "in_long i"
  shows "bindr (asString (Value_long i)) (\<lambda>s. asInteger (fst (Value_string t s t_string)) out) = Inr (True, i)"
  unfolding asString_Value_long [OF assms]
  using asInteger_show_int [OF assms, of None None None "Some 0" None out]
  by (simp add: Value_string_def value_simps)

theorem integer_text_round_trip_witness:
  "in_long LONG_MIN \<and>
   bindr (asString (Value_long LONG_MIN)) (\<lambda>s. asInteger (fst (Value_string new_tokeniser s t_string)) 0)
     = Inr (True, LONG_MIN)"
proof -
  have "in_long LONG_MIN" by (simp add: long_bounds)
  then show ?thesis using integer_text_round_trip by blast
qed

text \<open>
  An integer compared with a string that holds a printed integer is compared with
  that integer: all six comparison operators agree with the order of the integers.
\<close>

lemma integer_against_text:
  assumes "in_long i" "in_long j"
  shows "let v = Value_long i; w = Value t_string None None None (show_int j) (Some 0) None
    in value_eq v w = Inr (i = j) \<and> value_ne v w = Inr (i \<noteq> j) \<and> value_lt v w = Inr (i < j) \<and>
       value_le v w = Inr (i \<le> j) \<and> value_gt v w = Inr (j < i) \<and> value_ge v w = Inr (j \<le> i)"
proof -
  have "asInteger (Value t_string None None None (show_int j) (Some 0) None) 0 = Inr (True, j)"
    using assms(2) by (rule asInteger_show_int)
  then show ?thesis
    unfolding Let_def Value_long_def value_eq_def value_ne_def value_lt_def value_le_def value_gt_def
      value_ge_def compare_numbers_def string_kind_def numeric_types_def
    by (auto simp del: asInteger.simps simp: asInteger.simps [of t_integer])
qed

text \<open>
  After \<open>a = b\<close> every reading of \<open>a\<close> is the reading of \<open>b\<close>, although the
  assignment copies only the field of the kind and leaves the other fields of \<open>a\<close> stale: the
  conversions and the comparisons with any third value give the same results, and \<open>a\<close> is
  well-formed after it when both were.
\<close>

lemma assignment_is_transparent:
  "asString (value_assign a b) = asString b \<and>
   asBoolean (value_assign a b) bo = asBoolean b bo \<and>
   asInteger (value_assign a b) io = asInteger b io \<and>
   asFloat (value_assign a b) fo = asFloat b fo \<and>
   value_eq (value_assign a b) c = value_eq b c \<and>
   value_le (value_assign a b) c = value_le b c \<and>
   value_ge (value_assign a b) c = value_ge b c \<and>
   (value_ok a \<and> value_ok b \<longrightarrow> value_ok (value_assign a b))"
  by (simp add: value_assign_reads value_eq_assign value_le_assign value_ge_assign value_ok_assign)

text \<open>
  An integer of magnitude below \<open>2^53\<close> survives the conversion to floating point:
  truncating or rounding the float gives the integer back, and the float equals the integer.
\<close>

lemma integer_float_round_trip:
  assumes "\<bar>i\<bar> < 2 ^ 53"
  shows "mapr fst (asFloat (Value_long i) out) = Inr True \<and>
    bindr (asFloat (Value_long i) out) (\<lambda>(_, x). value_trunc (Value_double x)) = Inr i \<and>
    value_eq (Value_long i) (Value_double (dbl_of_int i)) = Inr True"
proof -
  have "dbl_of_int i \<noteq> NaN" by (simp add: dbl_of_int_def round_double_def)
  then have "float_near (dbl_of_int i) (dbl_of_int i)" by (simp add: float_near_def)
  then show ?thesis
    using long_of_dbl_of_int [OF assms]
    by (simp add: value_simps value_trunc_def value_eq_def compare_numbers_def string_kind_def numeric_types_def)
qed

text \<open>
  Values of two different kinds neither of which is a number, a string or a symbol
  are each reported both less and greater than the other, because \<open><\<close> is computed as the
  negation of \<open>>=\<close> and \<open>>\<close> as the negation of \<open><=\<close>.
\<close>

lemma incomparable_kinds_both_less:
  assumes "kind v \<noteq> kind w" "kind v \<in> {t_empty, t_bool, t_dynamic}" "kind w \<in> {t_empty, t_bool, t_dynamic}"
  shows "value_lt v w = Inr True \<and> value_gt v w = Inr True \<and> value_le v w = Inr False \<and> value_ge v w = Inr False"
  using assms
  by (auto simp: value_lt_def value_gt_def value_le_def value_ge_def compare_numbers_def string_kind_def
      numeric_types_def)

end
