(* ===== verification/Cw_Arith.thy ===== *)
theory Cw_Arith
  imports Cw_Value
begin

unbundle bit_operations_syntax

text \<open>
  The arithmetic of \<open>Value\<close> in \<open>src/iod/src/value.cpp\<close>: the operation classes applied to
  operands of different kinds, the conversion \<open>TypeFix\<close> makes first, and the compound
  assignments. Every operation that may append to a symbol threads the table of tokens.
  Signed overflow and the division traps of \<open>long\<close> are errors of the result.
\<close>

section \<open>Binary operations on operands of different kinds\<close>

text \<open>The classes of the namespace \<open>ValueOperations\<close>.\<close>

definition op_Sum :: "tokeniser \<Rightarrow> cw_value \<Rightarrow> cw_value \<Rightarrow> (cw_value \<times> tokeniser) res" where
  "op_Sum t a b =
     (if kind a = t_integer
      then if kind b = t_integer
           then bindr (read_field (iValue a)) (\<lambda>x. bindr (read_field (iValue b)) (\<lambda>y.
                  mapr (\<lambda>z. (Value_long z, t)) (chk_long (x + y))))
           else if kind b = t_float
           then bindr (read_field (fValue b)) (\<lambda>y. bindr (read_field (iValue a)) (\<lambda>x.
                  Inr (Value_double (dadd y (dbl_of_int x)), t)))
           else mapr (\<lambda>x. (Value_long x, t)) (read_field (iValue a))
      else if kind a = t_float
      then if kind b = t_float
           then bindr (read_field (fValue a)) (\<lambda>x. bindr (read_field (fValue b)) (\<lambda>y.
                  Inr (Value_double (dadd x y), t)))
           else if kind b = t_integer
           then bindr (read_field (fValue a)) (\<lambda>x. bindr (read_field (iValue b)) (\<lambda>y.
                  Inr (Value_double (dadd x (dbl_of_int y)), t)))
           else mapr (\<lambda>x. (Value_double x, t)) (read_field (fValue a))
      else if kind b = t_integer then mapr (\<lambda>y. (Value_long y, t)) (read_field (iValue b))
      else if kind b = t_float then mapr (\<lambda>y. (Value_double y, t)) (read_field (fValue b))
      else if kind a = t_string
      then mapr (\<lambda>s. Value_string t (sValue a @ s) t_string) (asString b)
      else if kind a = t_symbol
      then mapr (\<lambda>s. Value_string t (sValue a @ s) (kind a)) (asString b)
      else Inr (Value_long 0, t))"

definition op_Minus :: "cw_value \<Rightarrow> cw_value \<Rightarrow> cw_value res" where
  "op_Minus a b =
     (if kind a = t_integer
      then if kind b = t_integer
           then bindr (read_field (iValue a)) (\<lambda>x. bindr (read_field (iValue b)) (\<lambda>y.
                  mapr Value_long (chk_long (x - y))))
           else if kind b = t_float
           then bindr (read_field (iValue a)) (\<lambda>x. bindr (read_field (fValue b)) (\<lambda>y.
                  Inr (Value_double (dsub (dbl_of_int x) y))))
           else mapr Value_long (read_field (iValue a))
      else if kind a = t_float
      then if kind b = t_float
           then bindr (read_field (fValue a)) (\<lambda>x. bindr (read_field (fValue b)) (\<lambda>y.
                  Inr (Value_double (dsub x y))))
           else if kind b = t_integer
           then bindr (read_field (fValue a)) (\<lambda>x. bindr (read_field (iValue b)) (\<lambda>y.
                  Inr (Value_double (dsub x (dbl_of_int y)))))
           else mapr Value_double (read_field (fValue a))
      else if kind b = t_integer
      then bindr (read_field (iValue b)) (\<lambda>y. mapr Value_long (chk_long (- y)))
      else if kind b = t_float then mapr (\<lambda>y. Value_double (dneg y)) (read_field (fValue b))
      else if kind a = t_string then Inr a
      else if kind a = t_symbol then Inr a
      else Inr (Value_long 0))"

definition op_Multiply :: "cw_value \<Rightarrow> cw_value \<Rightarrow> cw_value res" where
  "op_Multiply a b =
     (if kind a = t_integer
      then if kind b = t_integer
           then bindr (read_field (iValue a)) (\<lambda>x. bindr (read_field (iValue b)) (\<lambda>y.
                  mapr Value_long (chk_long (x * y))))
           else if kind b = t_float
           then bindr (read_field (fValue b)) (\<lambda>y. bindr (read_field (iValue a)) (\<lambda>x.
                  Inr (Value_double (dmul y (dbl_of_int x)))))
           else Inr (Value_long 0)
      else if kind a = t_float
      then if kind b = t_float
           then bindr (read_field (fValue a)) (\<lambda>x. bindr (read_field (fValue b)) (\<lambda>y.
                  Inr (Value_double (dmul x y))))
           else if kind b = t_integer
           then bindr (read_field (fValue a)) (\<lambda>x. bindr (read_field (iValue b)) (\<lambda>y.
                  Inr (Value_double (dmul x (dbl_of_int y)))))
           else Inr (Value_long 0)
      else Inr (Value_long 0))"

definition op_Divide :: "cw_value \<Rightarrow> cw_value \<Rightarrow> cw_value res" where
  "op_Divide a b =
     (if kind a = t_integer
      then bindr (read_field (iValue a)) (\<lambda>x.
           if x = 0 then Inr a
           else if kind b = t_integer
           then bindr (read_field (iValue b)) (\<lambda>y.
                if y = 0 then Inr (Value_long (if x < 0 then INT_MIN else INT_MAX))
                else mapr Value_long (div_long x y))
           else if kind b = t_float
           then bindr (read_field (fValue b)) (\<lambda>y.
                if deq y (dzero False) then Inr (Value_long (if x < 0 then INT_MIN else INT_MAX))
                else Inr (Value_double (ddiv (dbl_of_int x) y)))
           else Inr a)
      else if kind a = t_float
      then bindr (read_field (fValue a)) (\<lambda>x.
           if deq x (dzero False) then Inr (Value_double (dzero False))
           else if kind b = t_float
           then bindr (read_field (fValue b)) (\<lambda>y.
                if deq y (dzero False)
                then Inr (Value_long (if dlt x (dzero False) then INT_MIN else INT_MAX))
                else Inr (Value_double (ddiv x y)))
           else if kind b = t_integer
           then bindr (read_field (iValue b)) (\<lambda>y.
                if y = 0
                then Inr (Value_long (if dlt x (dzero False) then INT_MIN else INT_MAX))
                else Inr (Value_double (ddiv x (dbl_of_int y))))
           else Inr (Value_long 0))
      else Inr a)"

definition op_Modulus :: "cw_value \<Rightarrow> cw_value \<Rightarrow> cw_value res" where
  "op_Modulus a b =
     (if kind b \<noteq> t_integer then Inr a
      else bindr (read_field (iValue b)) (\<lambda>y.
           if y = 0 then Inr (Value_long 0)
           else if kind a = t_integer
           then bindr (read_field (iValue a)) (\<lambda>x. mapr Value_long (rem_long x y))
           else if kind a = t_float
           then bindr (read_field (fValue a)) (\<lambda>x. bindr (long_of_dbl x) (\<lambda>i.
                  mapr Value_long (rem_long i y)))
           else Inr (Value_long 0)))"

text \<open>The bit operations do not look at the kinds.\<close>

definition op_Bits :: "(int \<Rightarrow> int \<Rightarrow> int) \<Rightarrow> cw_value \<Rightarrow> cw_value \<Rightarrow> cw_value res" where
  "op_Bits f a b = bindr (read_field (iValue a)) (\<lambda>x. bindr (read_field (iValue b)) (\<lambda>y.
     Inr (Value_long (f x y))))"

datatype value_op = Sum | Minus | Multiply | Divide | Modulus | BitAnd | BitOr | BitXOr

definition run_op :: "value_op \<Rightarrow> tokeniser \<Rightarrow> cw_value \<Rightarrow> cw_value \<Rightarrow> (cw_value \<times> tokeniser) res" where
  "run_op op t a b = (case op of
     Sum \<Rightarrow> op_Sum t a b
   | Minus \<Rightarrow> mapr (\<lambda>v. (v, t)) (op_Minus a b)
   | Multiply \<Rightarrow> mapr (\<lambda>v. (v, t)) (op_Multiply a b)
   | Divide \<Rightarrow> mapr (\<lambda>v. (v, t)) (op_Divide a b)
   | Modulus \<Rightarrow> mapr (\<lambda>v. (v, t)) (op_Modulus a b)
   | BitAnd \<Rightarrow> mapr (\<lambda>v. (v, t)) (op_Bits (AND) a b)
   | BitOr \<Rightarrow> mapr (\<lambda>v. (v, t)) (op_Bits (OR) a b)
   | BitXOr \<Rightarrow> mapr (\<lambda>v. (v, t)) (op_Bits (XOR) a b))"

text \<open>
  \<open>TypeFix\<close> brings the right operand to the kind of the left one. Its last resort is to
  return the left operand; the message it then logs prints both operands.
\<close>

definition TypeFix :: "tokeniser \<Rightarrow> cw_value \<Rightarrow> value_op \<Rightarrow> cw_value \<Rightarrow> (cw_value \<times> tokeniser) res" where
  "TypeFix t a op b =
     (if kind a \<noteq> kind b
      then if (kind a = t_integer \<or> kind a = t_float) \<and> (kind b = t_string \<or> kind b = t_symbol)
           then (let (okl, x) = stringToLong (sValue b); (okf, y) = stringToFloat (sValue b)
                 in if okl then run_op op t a (value_assign Value_empty (Value_long x))
                    else if okf then run_op op t a (value_assign Value_empty (Value_double y))
                    else mapr (\<lambda>_. (a, t)) (asString a))
           else if kind a = t_string \<or> kind a = t_symbol
           then bindr (asString b) (\<lambda>s.
                  let (w, t') = Value_string t s t_string in run_op op t' a w)
           else if (kind a = t_integer \<and> kind b = t_float) \<or> (kind a = t_float \<and> kind b = t_integer)
           then run_op op t a b
           else Inr (a, t)
      else Inr (a, t))"

section \<open>Compound assignments\<close>

text \<open>
  Each definition is the compound assignment; the binary operator of the class copies the left
  operand and applies it. The left operand after the assignment is the result.
\<close>

definition value_plus :: "tokeniser \<Rightarrow> cw_value \<Rightarrow> cw_value \<Rightarrow> (cw_value \<times> tokeniser) res" where
  "value_plus t v w =
     (if kind v \<noteq> kind w
      then mapr (\<lambda>(r, t'). (value_assign v r, t')) (TypeFix t v Sum w)
      else (case kind v of
          t_integer \<Rightarrow> bindr (read_field (iValue v)) (\<lambda>x. bindr (read_field (iValue w)) (\<lambda>y.
                         mapr (\<lambda>z. (set_iValue z v, t)) (chk_long (x + y))))
        | t_float \<Rightarrow> bindr (read_field (fValue v)) (\<lambda>x. bindr (read_field (fValue w)) (\<lambda>y.
                         Inr (set_fValue (dadd x y) v, t)))
        | t_bool \<Rightarrow> bindr (read_field (bValue v)) (\<lambda>x. bindr (read_field (bValue w)) (\<lambda>y.
                         bindr (asString w) (\<lambda>s.
                         Inr (set_token_id 0 (set_sValue (sValue v @ s) (set_bValue (x \<or> y) v)), t))))
        | t_symbol \<Rightarrow> bindr (asString w) (\<lambda>s. Inr (set_token_id 0 (set_sValue (sValue v @ s) v), t))
        | t_string \<Rightarrow> bindr (asString w) (\<lambda>s. Inr (set_token_id 0 (set_sValue (sValue v @ s) v), t))
        | _ \<Rightarrow> Inr (v, t)))"

definition value_uminus :: "cw_value \<Rightarrow> cw_value res" where
  "value_uminus v = (case string_kind (kind v) of
     t_integer \<Rightarrow> bindr (read_field (iValue v)) (\<lambda>x. mapr Value_long (chk_long (- x)))
   | t_float \<Rightarrow> mapr (\<lambda>x. Value_double (dneg x)) (read_field (fValue v))
   | t_string \<Rightarrow> (let (ok, x) = stringToLong (sValue v)
                  in if ok then mapr Value_long (chk_long (- x))
                     else (let (x, end) = strtol 10 (c_str (sValue v))
                           in if end = [] then mapr Value_long (chk_long (- x)) else Inr v))
   | _ \<Rightarrow> Inr v)"

definition value_minus :: "tokeniser \<Rightarrow> cw_value \<Rightarrow> cw_value \<Rightarrow> (cw_value \<times> tokeniser) res" where
  "value_minus t v w =
     (if kind v \<noteq> kind w
      then mapr (\<lambda>(r, t'). (value_assign v r, t')) (TypeFix t v Minus w)
      else (case kind v of
          t_integer \<Rightarrow> bindr (read_field (iValue v)) (\<lambda>x. bindr (read_field (iValue w)) (\<lambda>y.
                         mapr (\<lambda>z. (set_iValue z v, t)) (chk_long (x - y))))
        | t_float \<Rightarrow> bindr (read_field (fValue v)) (\<lambda>x. bindr (read_field (fValue w)) (\<lambda>y.
                         Inr (set_fValue (dsub x y) v, t)))
        | t_bool \<Rightarrow> bindr (read_field (bValue v)) (\<lambda>x. bindr (read_field (bValue w)) (\<lambda>y.
                         Inr (set_bValue (x \<or> y) v, t)))
        | _ \<Rightarrow> Inr (v, t)))"

definition value_times :: "tokeniser \<Rightarrow> cw_value \<Rightarrow> cw_value \<Rightarrow> (cw_value \<times> tokeniser) res" where
  "value_times t v w =
     (if kind v \<noteq> kind w
      then if kind v = t_string \<or> kind v = t_symbol
           then mapr (\<lambda>_. (v, t)) (asString w)
           else mapr (\<lambda>(r, t'). (value_assign v r, t')) (TypeFix t v Multiply w)
      else (case kind v of
          t_integer \<Rightarrow> bindr (read_field (iValue v)) (\<lambda>x. bindr (read_field (iValue w)) (\<lambda>y.
                         mapr (\<lambda>z. (set_iValue z v, t)) (chk_long (x * y))))
        | t_float \<Rightarrow> bindr (read_field (fValue v)) (\<lambda>x. bindr (read_field (fValue w)) (\<lambda>y.
                         Inr (set_fValue (dmul x y) v, t)))
        | t_bool \<Rightarrow> bindr (read_field (bValue v)) (\<lambda>x. bindr (read_field (bValue w)) (\<lambda>y.
                         Inr (set_bValue (x \<and> y) v, t)))
        | _ \<Rightarrow> Inr (v, t)))"

definition value_divide :: "tokeniser \<Rightarrow> cw_value \<Rightarrow> cw_value \<Rightarrow> (cw_value \<times> tokeniser) res" where
  "value_divide t v w =
     (if kind v \<noteq> kind w
      then mapr (\<lambda>(r, t'). (value_assign v r, t')) (TypeFix t v Divide w)
      else (case kind v of
          t_integer \<Rightarrow> bindr (read_field (iValue v)) (\<lambda>x.
              if x = 0 then Inr (v, t)
              else bindr (read_field (iValue w)) (\<lambda>y.
                if y = 0 then Inr (set_iValue (if x < 0 then INT_MIN else INT_MAX) v, t)
                else mapr (\<lambda>z. (set_iValue z v, t)) (div_long x y)))
        | t_float \<Rightarrow> bindr (read_field (fValue v)) (\<lambda>x.
              if dne x (dzero False)
              then bindr (read_field (fValue w)) (\<lambda>y.
                if deq y (dzero False)
                then Inr (set_fValue (dbl_of_int (if dlt x (dzero False) then INT_MIN else INT_MAX)) v, t)
                else Inr (set_fValue (ddiv x y) v, t))
              else Inr (v, t))
        | t_bool \<Rightarrow> bindr (read_field (bValue v)) (\<lambda>x. bindr (read_field (bValue w)) (\<lambda>y.
                         Inr (set_bValue (x \<and> y) v, t)))
        | _ \<Rightarrow> Inr (v, t)))"

definition value_modulus :: "tokeniser \<Rightarrow> cw_value \<Rightarrow> cw_value \<Rightarrow> (cw_value \<times> tokeniser) res" where
  "value_modulus t v w =
     (if kind v \<noteq> kind w
      then mapr (\<lambda>(r, t'). (value_assign v r, t')) (TypeFix t v Modulus w)
      else (case kind v of
          t_integer \<Rightarrow> bindr (read_field (iValue w)) (\<lambda>y.
              if y = 0 then Inr (set_iValue 0 v, t)
              else bindr (read_field (iValue v)) (\<lambda>x. mapr (\<lambda>z. (set_iValue z v, t)) (rem_long x y)))
        | t_float \<Rightarrow> bindr (read_field (fValue w)) (\<lambda>y.
              if deq y (dzero False) then Inr (set_kind t_integer (set_iValue 0 v), t)
              else bindr (read_field (fValue v)) (\<lambda>x. bindr (long_of_dbl x) (\<lambda>i.
                   bindr (read_field (iValue w)) (\<lambda>j.
                   mapr (\<lambda>z. (set_kind t_integer (set_iValue z v), t)) (rem_long i j)))))
        | t_bool \<Rightarrow> bindr (read_field (bValue v)) (\<lambda>x. bindr (read_field (bValue w)) (\<lambda>y.
                         Inr (set_bValue (x \<noteq> y) v, t)))
        | _ \<Rightarrow> Inr (v, t)))"

text \<open>The three bit assignments differ in the operation and its counterpart on \<open>bool\<close>.\<close>

definition bits_assign ::
  "value_op \<Rightarrow> (int \<Rightarrow> int \<Rightarrow> int) \<Rightarrow> (bool \<Rightarrow> bool \<Rightarrow> bool) \<Rightarrow>
   tokeniser \<Rightarrow> cw_value \<Rightarrow> cw_value \<Rightarrow> (cw_value \<times> tokeniser) res" where
  "bits_assign op f g t v w =
     (if kind v \<noteq> kind w
      then mapr (\<lambda>(r, t'). (value_assign v r, t')) (TypeFix t v op w)
      else (case kind v of
          t_integer \<Rightarrow> bindr (read_field (iValue v)) (\<lambda>x. bindr (read_field (iValue w)) (\<lambda>y.
                         Inr (set_iValue (f x y) v, t)))
        | t_bool \<Rightarrow> bindr (read_field (bValue v)) (\<lambda>x. bindr (read_field (bValue w)) (\<lambda>y.
                         Inr (set_bValue (g x y) v, t)))
        | _ \<Rightarrow> Inr (v, t)))"

definition value_bitand :: "tokeniser \<Rightarrow> cw_value \<Rightarrow> cw_value \<Rightarrow> (cw_value \<times> tokeniser) res" where
  "value_bitand = bits_assign BitAnd (AND) (\<and>)"

definition value_bitor :: "tokeniser \<Rightarrow> cw_value \<Rightarrow> cw_value \<Rightarrow> (cw_value \<times> tokeniser) res" where
  "value_bitor = bits_assign BitOr (OR) (\<or>)"

definition value_bitxor :: "tokeniser \<Rightarrow> cw_value \<Rightarrow> cw_value \<Rightarrow> (cw_value \<times> tokeniser) res" where
  "value_bitxor = bits_assign BitXOr (XOR) (\<noteq>)"

definition value_bitnot :: "cw_value \<Rightarrow> cw_value res" where
  "value_bitnot v = (case kind v of
     t_integer \<Rightarrow> mapr (\<lambda>x. set_iValue (NOT x) v) (read_field (iValue v))
   | t_bool \<Rightarrow> mapr (\<lambda>b. set_bValue (\<not> b) v) (read_field (bValue v))
   | _ \<Rightarrow> Inr v)"

text \<open>The compound assignment that belongs to an operation.\<close>

definition compound_assign :: "value_op \<Rightarrow> tokeniser \<Rightarrow> cw_value \<Rightarrow> cw_value \<Rightarrow> (cw_value \<times> tokeniser) res" where
  "compound_assign op = (case op of
     Sum \<Rightarrow> value_plus | Minus \<Rightarrow> value_minus | Multiply \<Rightarrow> value_times | Divide \<Rightarrow> value_divide
   | Modulus \<Rightarrow> value_modulus | BitAnd \<Rightarrow> value_bitand | BitOr \<Rightarrow> value_bitor | BitXOr \<Rightarrow> value_bitxor)"

definition basic_op :: "value_op \<Rightarrow> bool" where
  "basic_op op \<longleftrightarrow> op = Sum \<or> op = Minus \<or> op = Multiply \<or> op = Divide"

text \<open>The exact result of an operation on integers, and operands that denote an integer.\<close>

definition exact_result :: "value_op \<Rightarrow> int \<Rightarrow> int \<Rightarrow> int" where
  "exact_result op x y = (case op of Sum \<Rightarrow> x + y | Minus \<Rightarrow> x - y | Multiply \<Rightarrow> x * y | _ \<Rightarrow> 0)"

definition denotes :: "cw_value \<Rightarrow> int \<Rightarrow> bool" where
  "denotes w j \<longleftrightarrow> in_long j \<and>
     (kind w = t_integer \<and> iValue w = Some j
      \<or> (kind w = t_string \<or> kind w = t_symbol) \<and> sValue w = show_int j)"

section \<open>Lemmas\<close>

lemma Value_string_token:
  "tokeniser_inv t \<Longrightarrow> tokeniser_inv (snd (Value_string t s k))"
  by (auto simp: Value_string_def Let_def case_prod_beta intro: tokeniser_inv_getTokenId)

lemma value_ok_Value_string:
  "k = t_string \<or> k = t_symbol \<Longrightarrow> value_ok (fst (Value_string t s k))"
  by (auto simp: Value_string_def Let_def case_prod_beta value_simps)

lemma value_ok_constructors [simp]:
  "value_ok (Value_long i) = in_long i" "value_ok (Value_double x)" "value_ok (Value_bool b)"
  "value_ok Value_empty"
  by (simp_all add: value_simps)

lemma in_long_ints [simp]: "in_long 0" "in_long INT_MIN" "in_long INT_MAX"
  by (simp_all add: long_bounds)

lemma div_long_in_long: "in_long x \<Longrightarrow> div_long x y = Inr z \<Longrightarrow> in_long z"
  by (auto simp: div_long_def quot_in_long split: if_splits)

lemma in_long_abs_less: "in_long y \<Longrightarrow> \<bar>z\<bar> < \<bar>y\<bar> \<Longrightarrow> in_long z"
  by (auto simp: long_bounds)

lemma rem_long_in_long: "in_long y \<Longrightarrow> rem_long x y = Inr z \<Longrightarrow> in_long z"
  using abs_remt_less [of y x] by (auto simp: rem_long_def in_long_abs_less split: if_splits)

lemma long_of_dbl_in_long: "long_of_dbl x = Inr i \<Longrightarrow> in_long i"
  by (auto simp: long_of_dbl_def Let_def split: double.splits if_splits)

lemma value_ok_iValue: "value_ok v \<Longrightarrow> kind v = t_integer \<Longrightarrow> \<exists>i. iValue v = Some i \<and> in_long i"
  by (cases v) (auto split: option.splits)

lemma stringToLong_in_long: "in_long (snd (stringToLong s))"
  by (auto simp: stringToLong_def case_prod_beta strtol_in_long)

lemma in_long_bits_iff: "in_long i \<longleftrightarrow> (\<forall>n. bit i (min 63 n) = bit i n)"
proof -
  have "in_long i \<longleftrightarrow> signed_take_bit 63 i = i"
    by (auto simp: signed_take_bit_int_eq_self_iff long_bounds)
  also have "\<dots> \<longleftrightarrow> (\<forall>n. bit i (min 63 n) = bit i n)"
    by (simp add: bit_eq_iff bit_signed_take_bit_iff)
  finally show ?thesis .
qed

lemma in_long_bits:
  assumes "in_long x" "in_long y"
  shows "in_long (x AND y)" "in_long (x OR y)" "in_long (x XOR y)" "in_long (NOT x)"
  using assms by (simp_all add: in_long_bits_iff bit_simps)

lemma value_ok_set [simp]:
  "value_ok v \<Longrightarrow> in_long i \<Longrightarrow> value_ok (set_iValue i v)"
  "value_ok v \<Longrightarrow> value_ok (set_bValue b v)"
  "value_ok v \<Longrightarrow> value_ok (set_fValue x v)"
  "value_ok v \<Longrightarrow> value_ok (set_sValue s v)"
  "value_ok v \<Longrightarrow> value_ok (set_token_id n v)"
  by (cases v; auto simp: set_field_defs split: option.splits)+

lemma value_ok_iValue_in_long: "value_ok v \<Longrightarrow> iValue v = Some i \<Longrightarrow> in_long i"
  by (cases v) auto

lemma div_long_ok: "div_long x y = Inr z \<Longrightarrow> iValue a = Some x \<Longrightarrow> value_ok a \<Longrightarrow> in_long z"
  using value_ok_iValue_in_long div_long_in_long by blast

lemma rem_long_ok: "rem_long x y = Inr z \<Longrightarrow> iValue b = Some y \<Longrightarrow> value_ok b \<Longrightarrow> in_long z"
  using value_ok_iValue_in_long rem_long_in_long by blast

lemma op_Sum_ok:
  "op_Sum t a b = Inr (r, t') \<Longrightarrow> value_ok a \<Longrightarrow> value_ok b \<Longrightarrow> tokeniser_inv t \<Longrightarrow>
   value_ok r \<and> tokeniser_inv t'"
  using value_ok_Value_string Value_string_token
  by (auto simp: op_Sum_def ub_simps chk_long_Inr_iff value_ok_iValue_in_long split: if_splits)
    (metis fst_conv snd_conv)+

lemma op_Minus_ok: "op_Minus a b = Inr r \<Longrightarrow> value_ok a \<Longrightarrow> value_ok b \<Longrightarrow> value_ok r"
  by (auto simp: op_Minus_def ub_simps chk_long_Inr_iff value_ok_iValue_in_long split: if_splits)

lemma op_Multiply_ok: "op_Multiply a b = Inr r \<Longrightarrow> value_ok a \<Longrightarrow> value_ok b \<Longrightarrow> value_ok r"
  by (auto simp: op_Multiply_def ub_simps chk_long_Inr_iff split: if_splits)

lemma op_Divide_ok: "op_Divide a b = Inr r \<Longrightarrow> value_ok a \<Longrightarrow> value_ok b \<Longrightarrow> value_ok r"
  by (auto simp: op_Divide_def ub_simps value_ok_iValue_in_long dest: div_long_ok split: if_splits)

lemma op_Modulus_ok: "op_Modulus a b = Inr r \<Longrightarrow> value_ok a \<Longrightarrow> value_ok b \<Longrightarrow> value_ok r"
  by (auto simp: op_Modulus_def ub_simps value_ok_iValue_in_long dest: rem_long_ok split: if_splits)

lemma op_Bits_ok:
  assumes "op_Bits f a b = Inr r" "value_ok a" "value_ok b"
    and "\<And>x y. in_long x \<Longrightarrow> in_long y \<Longrightarrow> in_long (f x y)"
  shows "value_ok r"
  using assms by (auto simp: op_Bits_def ub_simps value_ok_iValue_in_long)

lemma run_op_ok:
  assumes "run_op op t a b = Inr (r, t')" "value_ok a" "value_ok b" "tokeniser_inv t"
  shows "value_ok r \<and> tokeniser_inv t'"
  using assms
  by (cases op)
    (auto simp: run_op_def ub_simps in_long_bits
      dest: op_Sum_ok op_Minus_ok op_Multiply_ok op_Divide_ok op_Modulus_ok op_Bits_ok)

lemma value_ok_assign_empty: "value_ok v \<Longrightarrow> value_ok (value_assign Value_empty v)"
  by (simp add: value_ok_assign)

lemma TypeFix_ok:
  assumes "TypeFix t a op b = Inr (r, t')" "value_ok a" "value_ok b" "tokeniser_inv t"
  shows "value_ok r \<and> tokeniser_inv t'"
proof -
  have conv: "value_ok (value_assign Value_empty (Value_long (snd (stringToLong (sValue b)))))"
    "value_ok (value_assign Value_empty (Value_double (snd (stringToFloat (sValue b)))))"
    by (simp_all add: value_ok_assign_empty stringToLong_in_long)
  have str: "value_ok (fst (Value_string t s t_string))" "tokeniser_inv (snd (Value_string t s t_string))" for s
    using assms(4) by (simp_all add: value_ok_Value_string Value_string_token)
  show ?thesis
    using assms conv str
    by (auto simp: TypeFix_def case_prod_beta ub_simps split: if_splits dest: run_op_ok)
qed

lemmas compound_defs = value_plus_def value_minus_def value_times_def value_divide_def
  value_modulus_def value_bitand_def value_bitor_def value_bitxor_def bits_assign_def

lemma value_ok_modulus_float: "value_ok v \<Longrightarrow> in_long i \<Longrightarrow> kind v = t_float \<Longrightarrow> value_ok (set_kind t_integer (set_iValue i v))"
  by (cases v) (auto simp: set_field_defs split: option.splits)

lemma compound_assign_mixed:
  "kind v \<noteq> kind w \<Longrightarrow> compound_assign op t v w = Inr (r, t') \<Longrightarrow>
   r = v \<and> t' = t \<or> (\<exists>x. TypeFix t v op w = Inr (x, t') \<and> r = value_assign v x)"
  by (cases op) (auto simp: compound_assign_def compound_defs ub_simps split: if_splits)

lemma compound_assign_same_ok:
  assumes "kind v = kind w" "compound_assign op t v w = Inr (r, t')" "value_ok v" "value_ok w"
  shows "value_ok r \<and> t' = t"
  using assms
  by (cases op; cases "kind v")
    (auto simp: compound_assign_def compound_defs ub_simps chk_long_Inr_iff value_ok_iValue_in_long
      in_long_bits value_ok_modulus_float split: if_splits
      dest: div_long_ok rem_long_ok)

lemma compound_assign_ok:
  assumes "value_ok v" "value_ok w" "tokeniser_inv t" "compound_assign op t v w = Inr (r, t')"
  shows "value_ok r \<and> tokeniser_inv t'"
proof (cases "kind v = kind w")
  case True
  then show ?thesis using compound_assign_same_ok assms by blast
next
  case False
  then show ?thesis
    using compound_assign_mixed [OF False assms(4)] TypeFix_ok [OF _ assms(1-3)] value_ok_assign assms
    by blast
qed

text \<open>The errors that the four basic operations can end in.\<close>

lemma op_Sum_error: "op_Sum t a b = Inl e \<Longrightarrow> value_ok a \<Longrightarrow> value_ok b \<Longrightarrow> e = SignedOverflow"
  using asString_defined [of b]
  by (cases a; cases b; cases "kind a"; cases "kind b"; cases "asString b")
    (auto simp: op_Sum_def chk_long_def split: option.splits if_splits)

lemma op_Minus_error: "op_Minus a b = Inl e \<Longrightarrow> value_ok a \<Longrightarrow> value_ok b \<Longrightarrow> e = SignedOverflow"
  by (cases a; cases b; cases "kind a"; cases "kind b")
    (auto simp: op_Minus_def chk_long_def split: option.splits if_splits)

lemma op_Multiply_error: "op_Multiply a b = Inl e \<Longrightarrow> value_ok a \<Longrightarrow> value_ok b \<Longrightarrow> e = SignedOverflow"
  by (cases a; cases b; cases "kind a"; cases "kind b")
    (auto simp: op_Multiply_def chk_long_def split: option.splits if_splits)

lemma op_Divide_error: "op_Divide a b = Inl e \<Longrightarrow> value_ok a \<Longrightarrow> value_ok b \<Longrightarrow> e = DivisionTrap"
  by (cases a; cases b; cases "kind a"; cases "kind b")
    (auto simp: op_Divide_def div_long_def split: option.splits if_splits)

lemma run_op_error:
  assumes "run_op op t a b = Inl e" "value_ok a" "value_ok b" "basic_op op"
  shows "e = SignedOverflow \<or> e = DivisionTrap"
  using assms
  by (auto simp: run_op_def basic_op_def
      dest: op_Sum_error op_Minus_error op_Multiply_error op_Divide_error)

lemma TypeFix_error:
  assumes "TypeFix t a op b = Inl e" "value_ok a" "value_ok b" "basic_op op"
  shows "e = SignedOverflow \<or> e = DivisionTrap"
proof -
  have conv: "value_ok (value_assign Value_empty (Value_long (snd (stringToLong (sValue b)))))"
    "value_ok (value_assign Value_empty (Value_double (snd (stringToFloat (sValue b)))))"
    by (simp_all add: value_ok_assign_empty stringToLong_in_long)
  obtain x y where "asString a = Inr x" "asString b = Inr y"
    using asString_defined assms(2,3) unfolding defined_iff by blast
  then show ?thesis
    using assms conv value_ok_Value_string [of t_string]
    by (auto simp: TypeFix_def case_prod_beta split: if_splits dest!: run_op_error)
qed

lemma compound_assign_mixed_error:
  assumes "kind v \<noteq> kind w" "compound_assign op t v w = Inl e" "basic_op op" "value_ok w"
  shows "TypeFix t v op w = Inl e"
  using assms asString_defined [OF assms(4)]
  by (auto simp: compound_assign_def basic_op_def compound_defs defined_iff split: if_splits)

lemma compound_assign_same_error:
  assumes "kind v = kind w" "compound_assign op t v w = Inl e" "basic_op op" "value_ok v" "value_ok w"
  shows "e = SignedOverflow \<or> e = DivisionTrap"
  using assms asString_defined [OF assms(5)]
  by (cases v; cases w; cases "kind v")
    (auto simp: compound_assign_def basic_op_def compound_defs chk_long_def div_long_def defined_iff
      split: if_splits option.splits)

text \<open>\<open>TypeFix\<close> on an integer and the text of an integer.\<close>

lemma stringToLong_show_int: "in_long j \<Longrightarrow> stringToLong (show_int j) = (True, j)"
  by (simp add: stringToLong_def show_int_no_null strtol_show_int)

lemma TypeFix_integer_text:
  assumes "kind a = t_integer" "kind b = t_string \<or> kind b = t_symbol" "sValue b = show_int j" "in_long j"
  shows "TypeFix t a op b = run_op op t a (Value_long j)"
proof -
  have "value_assign Value_empty (Value_long j) = Value_long j"
    by (simp add: value_assign_def value_simps)
  then show ?thesis
    using assms by (auto simp: TypeFix_def stringToLong_show_int)
qed

section \<open>Properties\<close>

text \<open>
  Claim C32. Every compound assignment keeps its left operand well-formed and the table of
  tokens consistent, whatever the kinds of the two operands.
\<close>

theorem compound_assign_invariant:
  assumes "value_ok v" "value_ok w" "tokeniser_inv t" "compound_assign op t v w = Inr (r, t')"
  shows "value_ok r \<and> tokeniser_inv t'"
  using assms by (rule compound_assign_ok)

theorem compound_assign_invariant_witness:
  "\<exists>r t'. compound_assign Sum new_tokeniser (Value_long 2) (Value_long 3) = Inr (r, t') \<and>
     value_ok r \<and> tokeniser_inv t' \<and> iValue r = Some 5"
proof -
  have run: "compound_assign Sum new_tokeniser (Value_long 2) (Value_long 3) = Inr (Value_long 5, new_tokeniser)"
    by (simp add: compound_assign_def value_plus_def value_simps long_bounds chk_long_def)
  have "value_ok (Value_long 2)" "value_ok (Value_long 3)" by (simp_all add: long_bounds)
  then have "value_ok (Value_long 5) \<and> tokeniser_inv new_tokeniser"
    using compound_assign_invariant [OF _ _ tokeniser_inv_new run] by blast
  then show ?thesis using run by (simp add: Value_long_def)
qed

text \<open>
  Claim C33. On well-formed operands of any kinds, addition, subtraction, multiplication and
  division fail in no other way than signed overflow of \<open>long\<close> or the hardware trap of a
  division: they read no field that was never written and follow no null pointer.
\<close>

theorem basic_arithmetic_errors:
  assumes "value_ok v" "value_ok w" "basic_op op" "compound_assign op t v w = Inl e"
  shows "e = SignedOverflow \<or> e = DivisionTrap"
proof (cases "kind v = kind w")
  case True
  then show ?thesis using compound_assign_same_error assms by blast
next
  case False
  then show ?thesis using compound_assign_mixed_error TypeFix_error assms by blast
qed

theorem basic_arithmetic_errors_witness:
  "value_ok (Value_long LONG_MAX) \<and> value_ok (Value_long 1) \<and>
   (\<exists>e. compound_assign Sum new_tokeniser (Value_long LONG_MAX) (Value_long 1) = Inl e \<and>
      (e = SignedOverflow \<or> e = DivisionTrap))"
proof -
  have ok: "value_ok (Value_long LONG_MAX)" "value_ok (Value_long 1)" by (simp_all add: long_bounds)
  have run: "compound_assign Sum new_tokeniser (Value_long LONG_MAX) (Value_long 1) = Inl SignedOverflow"
    by (simp add: compound_assign_def value_plus_def value_simps long_bounds chk_long_def)
  show ?thesis using basic_arithmetic_errors [OF ok _ run] ok run by (simp add: basic_op_def)
qed

text \<open>
  Claim C35. An integer plus, minus or times a right operand that denotes an integer, as an
  integer or as a string or symbol holding its digits, is the exact result when that fits
  \<open>long\<close>, and signed overflow when it does not.
\<close>

theorem integer_arithmetic_exact:
  assumes "value_ok v" "kind v = t_integer" "iValue v = Some x" "denotes w y" "op \<in> {Sum, Minus, Multiply}"
  shows "compound_assign op t v w =
    (if in_long (exact_result op x y) then Inr (set_iValue (exact_result op x y) v, t) else Inl SignedOverflow)"
proof (cases "kind w = t_integer")
  case True
  with assms show ?thesis
    by (auto simp: compound_assign_def compound_defs denotes_def exact_result_def chk_long_def)
next
  case False
  then have "TypeFix t v op w = run_op op t v (Value_long y)"
    using assms(2,4) by (intro TypeFix_integer_text) (auto simp: denotes_def)
  moreover have "value_assign v (Value_long z) = set_iValue z v" for z
    using assms(1,2) by (cases v) (auto simp: value_assign_def value_simps split: option.splits)
  ultimately show ?thesis
    using False assms
    by (auto simp: compound_assign_def compound_defs run_op_def op_Sum_def op_Minus_def op_Multiply_def
        denotes_def exact_result_def chk_long_def Value_long_def)
qed

theorem integer_arithmetic_exact_witness:
  "denotes (Value t_string None None None (show_int 12) (Some 0) None) 12 \<and>
   compound_assign Multiply new_tokeniser (Value_long 5)
     (Value t_string None None None (show_int 12) (Some 0) None) = Inr (Value_long 60, new_tokeniser)"
proof -
  have d: "denotes (Value t_string None None None (show_int 12) (Some 0) None) 12"
    by (simp add: denotes_def long_bounds)
  have "value_ok (Value_long 5)" "kind (Value_long 5) = t_integer" "iValue (Value_long 5) = Some 5"
    by (simp_all add: Value_long_def long_bounds)
  from integer_arithmetic_exact [OF this d, of Multiply new_tokeniser]
  have "compound_assign Multiply new_tokeniser (Value_long 5)
     (Value t_string None None None (show_int 12) (Some 0) None) = Inr (set_iValue 60 (Value_long 5), new_tokeniser)"
    by (simp add: exact_result_def long_bounds)
  with d show ?thesis by (simp add: set_iValue_def Value_long_def)
qed

text \<open>
  Division and modulus of integers. With a divisor other than zero both return,
  except that the least \<open>long\<close> divided by \<open>-1\<close> traps; then the quotient times the
  divisor plus the remainder is the dividend and the remainder is smaller than the divisor. A
  divisor of zero is no error: the quotient is the least or the greatest 32-bit integer, or
  zero for a dividend of zero, and the remainder is zero.
\<close>

lemma integer_division:
  assumes "value_ok v" "value_ok w" "kind v = t_integer" "kind w = t_integer"
    "iValue v = Some x" "iValue w = Some y"
  shows
    "(if x = LONG_MIN \<and> y = - 1
      then value_divide t v w = Inl DivisionTrap \<and> value_modulus t v w = Inl DivisionTrap
      else \<exists>q r. value_divide t v w = Inr (set_iValue q v, t) \<and> in_long q \<and>
           value_modulus t v w = Inr (set_iValue r v, t) \<and> in_long r \<and>
           (if y = 0 then q = (if x < 0 then INT_MIN else if x = 0 then 0 else INT_MAX) \<and> r = 0
            else q * y + r = x \<and> \<bar>r\<bar> < \<bar>y\<bar>))"
proof (cases "y = 0 \<or> x = LONG_MIN \<and> y = - 1")
  case True
  moreover have "set_iValue 0 v = v" if "x = 0" using assms(5) that by (cases v) (simp add: set_iValue_def)
  ultimately show ?thesis using assms(3-)
    by (cases "x = 0") (auto simp: value_divide_def value_modulus_def div_long_def rem_long_def long_bounds)
next
  case False
  have "in_long x" "in_long y" using assms value_ok_iValue_in_long by blast+
  then have range: "in_long (quot x y)" "in_long (remt x y)" "\<bar>remt x y\<bar> < \<bar>y\<bar>"
    using False quot_in_long abs_remt_less in_long_abs_less by blast+
  have "quot x y * y + remt x y = x" using quot_remt [of y x] by (simp add: mult.commute)
  moreover have "value_modulus t v w = Inr (set_iValue (remt x y) v, t)"
    using False assms(3-) by (auto simp: value_modulus_def rem_long_def)
  moreover have "value_divide t v w = Inr (set_iValue (quot x y) v, t)"
  proof (cases "x = 0")
    case True
    then have "set_iValue (quot x y) v = v"
      using assms(5) by (cases v) (simp add: set_iValue_def quot_def)
    then show ?thesis using True assms(3-) by (simp add: value_divide_def)
  qed (use False assms(3-) in \<open>auto simp: value_divide_def div_long_def\<close>)
  ultimately show ?thesis using False range by auto
qed

text \<open>
  The modulus of two floats reads the integer field of the divisor, which a float
  never writes: whenever the divisor is not zero and the dividend fits \<open>long\<close>, the result
  is indeterminate.
\<close>

lemma float_modulus_indeterminate:
  assumes "\<not> deq y (dzero False)" "long_of_dbl x = Inr i"
  shows "value_modulus t (Value_double x) (Value_double y) = Inl Indeterminate"
  using assms by (simp add: value_modulus_def Value_double_def)

text \<open>
  The sum of two symbols is a symbol whose token number is zero, so any two such
  sums compare equal, whatever their texts.
\<close>

lemma symbol_sums_all_equal:
  assumes "kind a = t_symbol" "kind b = t_symbol" "kind c = t_symbol" "kind d = t_symbol"
  shows "bindr (value_plus t a b) (\<lambda>(v, t'). bindr (value_plus t' c d) (\<lambda>(w, t''). value_eq v w)) = Inr True"
proof -
  have "asString b = Inr (sValue b)" "asString d = Inr (sValue d)"
    using assms by (cases b; cases d; simp)+
  then show ?thesis using assms by (simp add: value_plus_def value_eq_def set_field_defs)
qed

end
