(* ===== verification/Cw_Symbols.thy ===== *)
theory Cw_Symbols
  imports Cw_Value
begin

text \<open>
  The class \<open>SymbolTable\<close> of \<open>src/iod/src/symboltable.h\<close> and \<open>symboltable.cpp\<close>: the
  properties of a machine, found by name and, for values that are symbols, by token, and the
  table of keywords whose values are computed on every reference. The two \<open>std::map\<close> members
  are ordered association lists. The static table \<open>keywords\<close> is an argument, absent before
  the first constructor has run. The clock, the calendar and the random generator are the
  record \<open>clock_env\<close>.
\<close>

section \<open>The table\<close>

record symbol_table =
  st :: "(string \<times> cw_value) list"
  stok :: "(int \<times> cw_value) list"

datatype replace_mode = ST_REPLACE | NO_REPLACE

definition empty_table :: symbol_table where
  "empty_table = \<lparr>st = [], stok = []\<rparr>"

text \<open>\<open>m[k] = v\<close>: the entry is created empty when there is none, and assigned to.\<close>

definition amap_assign :: "'k::linorder \<Rightarrow> cw_value \<Rightarrow> ('k \<times> cw_value) list \<Rightarrow> ('k \<times> cw_value) list" where
  "amap_assign k v m =
     amap_put k (value_assign (case amap_find m k of None \<Rightarrow> Value_empty | Some old \<Rightarrow> old) v) m"

text \<open>Both maps get a symbol, the first one alone any other value.\<close>

definition put_symbol :: "tokeniser \<Rightarrow> string \<Rightarrow> cw_value \<Rightarrow> symbol_table \<Rightarrow> symbol_table \<times> tokeniser" where
  "put_symbol t name val tbl =
     (let tbl' = tbl\<lparr>st := amap_assign name val (st tbl)\<rparr>
      in if kind val = t_symbol
         then (let (n, t') = getTokenId t name in (tbl'\<lparr>stok := amap_assign n val (stok tbl')\<rparr>, t'))
         else (tbl', t))"

definition SymbolTable_exists :: "symbol_table \<Rightarrow> string \<Rightarrow> bool" where
  "SymbolTable_exists tbl name \<longleftrightarrow> amap_find (st tbl) name \<noteq> None"

definition SymbolTable_exists_token :: "symbol_table \<Rightarrow> int \<Rightarrow> bool" where
  "SymbolTable_exists_token tbl n \<longleftrightarrow> amap_find (stok tbl) n \<noteq> None"

definition SymbolTable_add ::
  "tokeniser \<Rightarrow> symbol_table \<Rightarrow> string \<Rightarrow> cw_value \<Rightarrow> replace_mode \<Rightarrow> bool \<times> symbol_table \<times> tokeniser" where
  "SymbolTable_add t tbl name val mode =
     (if mode = ST_REPLACE \<or> mode = NO_REPLACE \<and> amap_find (st tbl) name = None
      then (True, put_symbol t name val tbl)
      else (False, tbl, t))"

text \<open>Loading the symbols of another table; \<open>NAME\<close> and \<open>STATE\<close> are never loaded.\<close>

definition load_symbol ::
  "replace_mode \<Rightarrow> string \<times> cw_value \<Rightarrow> symbol_table \<times> tokeniser \<Rightarrow> symbol_table \<times> tokeniser" where
  "load_symbol mode = (\<lambda>(name, val) (tbl, t).
     if mode \<noteq> ST_REPLACE \<and> amap_find (st tbl) name \<noteq> None then (tbl, t)
     else if name \<noteq> ''NAME'' \<and> name \<noteq> ''STATE'' then put_symbol t name val tbl
     else (tbl, t))"

definition SymbolTable_load ::
  "tokeniser \<Rightarrow> symbol_table \<Rightarrow> symbol_table \<Rightarrow> replace_mode \<Rightarrow> symbol_table \<times> tokeniser" where
  "SymbolTable_load t tbl orig mode = fold (load_symbol mode) (st orig) (tbl, t)"

definition copy_symbols ::
  "tokeniser \<Rightarrow> (string \<times> cw_value) list \<Rightarrow> symbol_table \<Rightarrow> symbol_table \<times> tokeniser" where
  "copy_symbols t entries tbl = fold (\<lambda>(name, val) (tbl, t). put_symbol t name val tbl) entries (tbl, t)"

text \<open>The copy constructor.\<close>

definition SymbolTable_copy :: "tokeniser \<Rightarrow> symbol_table \<Rightarrow> symbol_table \<times> tokeniser" where
  "SymbolTable_copy t orig = copy_symbols t (st orig) empty_table"

text \<open>The assignment erases the first map of the target and not the second.\<close>

definition SymbolTable_assign :: "tokeniser \<Rightarrow> symbol_table \<Rightarrow> symbol_table \<Rightarrow> symbol_table \<times> tokeniser" where
  "SymbolTable_assign t tbl orig = copy_symbols t (st orig) (tbl\<lparr>st := []\<rparr>)"

definition SymbolTable_push_back :: "symbol_table \<Rightarrow> string \<times> cw_value \<Rightarrow> symbol_table" where
  "SymbolTable_push_back tbl item = tbl\<lparr>st := amap_assign (fst item) (snd item) (st tbl)\<rparr>"

definition SymbolTable_clear :: "symbol_table \<Rightarrow> symbol_table" where
  "SymbolTable_clear tbl = tbl\<lparr>st := [], stok := []\<rparr>"

section \<open>Look-up\<close>

text \<open>The object \<open>NullValue\<close> and the constant \<open>Null\<close> are both the empty value.\<close>

definition find_local :: "symbol_table \<Rightarrow> string \<Rightarrow> cw_value" where
  "find_local tbl name = (case amap_find (st tbl) name of None \<Rightarrow> Value_empty | Some v \<Rightarrow> v)"

text \<open>
  \<open>find\<close> and \<open>lookup\<close> by name, on a table that is not the table of keywords; on the
  table of keywords they are \<open>find_local\<close>.
\<close>

definition SymbolTable_find :: "symbol_table option \<Rightarrow> symbol_table \<Rightarrow> string \<Rightarrow> cw_value res" where
  "SymbolTable_find kw tbl name = (case kw of
     None \<Rightarrow> Inr (find_local tbl name)
   | Some k \<Rightarrow> bindr (value_ne (find_local k name) Value_empty) (\<lambda>found.
       Inr (if found then find_local k name else find_local tbl name)))"

definition lookup_local :: "symbol_table \<Rightarrow> cw_value \<Rightarrow> cw_value res" where
  "lookup_local tbl name = bindr (read_field (token_id name)) (\<lambda>n.
     Inr (case amap_find (stok tbl) n of None \<Rightarrow> Value_empty | Some v \<Rightarrow> v))"

definition SymbolTable_lookup :: "symbol_table option \<Rightarrow> symbol_table \<Rightarrow> cw_value \<Rightarrow> cw_value res" where
  "SymbolTable_lookup kw tbl name = (case kw of
     None \<Rightarrow> lookup_local tbl name
   | Some k \<Rightarrow> bindr (lookup_local k name) (\<lambda>r. bindr (value_ne r Value_empty) (\<lambda>found.
       if found then Inr r else lookup_local tbl name)))"

section \<open>Keywords\<close>

definition keyword_entries :: "(string \<times> cw_value) list" where
  "keyword_entries =
     map (\<lambda>n. (n, Value_long 0))
       [''NOW'', ''CLOCK'', ''SECONDS'', ''MINUTE'', ''HOUR'', ''DAY'', ''MONTH'', ''YR'', ''YEAR'']
     @ map (\<lambda>n. (n, fst (Value_cstr new_tokeniser [] t_symbol)))
       [''TIMESEQ'', ''LOCALTIME'', ''UTCTIME'', ''TIMEZONE'', ''TIMESTAMP'', ''UTCTIMESTAMP'',
        ''ISOTIMESTAMP'', ''RANDOM'']"

text \<open>The table that the first constructor of a \<open>SymbolTable\<close> fills.\<close>

definition keyword_table :: "tokeniser \<Rightarrow> symbol_table \<times> tokeniser" where
  "keyword_table t =
     fold (\<lambda>(name, val) (tbl, t). snd (SymbolTable_add t tbl name val ST_REPLACE)) keyword_entries
       (empty_table, t)"

definition reserved :: "string list" where
  "reserved = [''NAME'', ''PERSISTENT'', ''STATE'', ''tab'']"

definition isKeyword :: "symbol_table option \<Rightarrow> string \<Rightarrow> bool" where
  "isKeyword kw name = (case kw of None \<Rightarrow> False | Some k \<Rightarrow> SymbolTable_exists k name)"

definition isKeyword_value :: "symbol_table option \<Rightarrow> cw_value \<Rightarrow> bool res" where
  "isKeyword_value kw name = (case kw of
     None \<Rightarrow> Inr False
   | Some k \<Rightarrow>
       if kind name = t_symbol \<or> kind name = t_string
       then bindr (read_field (token_id name)) (\<lambda>n.
              Inr (n \<noteq> 0 \<and> SymbolTable_exists_token k n \<or> SymbolTable_exists k (sValue name)))
       else Inr False)"

record tm =
  tm_sec :: int
  tm_min :: int
  tm_hour :: int
  tm_mday :: int
  tm_mon :: int
  tm_year :: int

record clock_env =
  microsecs :: int        \<comment> \<open>the monotonic clock, a \<open>uint64_t\<close>\<close>
  random_bits :: int      \<comment> \<open>what \<open>random()\<close> returns\<close>
  utc_tm :: tm
  local_tm :: tm
  tm_zone :: string
  day_msecs :: int        \<comment> \<open>\<open>total_milliseconds()\<close> of the local time of day\<close>
  iso_utc :: string
  asctime_local :: string
  asctime_utc :: string

text \<open>The conversion \<open>%0<w>d\<close>.\<close>

definition zero_pad :: "nat \<Rightarrow> int \<Rightarrow> string" where
  "zero_pad w i = (if i < 0 then CHR ''-'' # pad_left (CHR ''0'') (w - 1) (show_int (- i))
                   else pad_left (CHR ''0'') w (show_int i))"

definition show_date :: "tm \<Rightarrow> int \<Rightarrow> string" where
  "show_date d ms = snprintf_buf 40
     (zero_pad 4 (tm_year d + 1900) @ ''/'' @ zero_pad 2 (tm_mon d + 1) @ ''/'' @ zero_pad 2 (tm_mday d)
      @ '' '' @ zero_pad 2 (tm_hour d) @ '':'' @ zero_pad 2 (tm_min d) @ '':'' @ zero_pad 2 (tm_sec d)
      @ ''.'' @ zero_pad 3 ms)"

definition show_timeseq :: "tm \<Rightarrow> int \<Rightarrow> string" where
  "show_timeseq d ms = snprintf_buf 40
     (zero_pad 2 (tm_year d - 100) @ zero_pad 2 (tm_mon d + 1) @ zero_pad 2 (tm_mday d)
      @ zero_pad 2 (tm_hour d) @ zero_pad 2 (tm_min d) @ zero_pad 2 (tm_sec d) @ zero_pad 3 ms)"

definition strip_newline :: "string \<Rightarrow> string" where
  "strip_newline s = (if 1 < length s \<and> last s = CHR 0x0A then butlast s else s)"

text \<open>The value a keyword has when it is referenced, or none for an unknown name.\<close>

definition key_value :: "clock_env \<Rightarrow> tokeniser \<Rightarrow> string \<Rightarrow> cw_value option \<times> tokeniser" where
  "key_value env t name =
     (if name = ''NOW'' then (Some (Value_ulong (to_u64 (microsecs env + 500) div 1000)), t)
      else if name = ''CLOCK'' then (Some (Value_long (to_long (microsecs env))), t)
      else if name = ''RANDOM'' then (Some (Value_ulong (random_bits env)), t)
      else if name = ''ISOTIMESTAMP'' then
        apfst Some (Value_cstr t (snprintf_buf 40 (iso_utc env @ ''Z'')) t_string)
      else if name = ''SECONDS'' then (Some (Value_long (tm_sec (local_tm env))), t)
      else if name = ''MINUTE'' then (Some (Value_long (tm_min (local_tm env))), t)
      else if name = ''HOUR'' then (Some (Value_long (tm_hour (local_tm env))), t)
      else if name = ''DAY'' then (Some (Value_long (tm_mday (local_tm env))), t)
      else if name = ''MONTH'' then (Some (Value_long (tm_mon (local_tm env) + 1)), t)
      else if name = ''YEAR'' then (Some (Value_long (tm_year (local_tm env) + 1900)), t)
      else if name = ''YR'' then (Some (Value_long (tm_year (local_tm env) - 100)), t)
      else if name = ''TIMEZONE'' then apfst Some (Value_cstr t (tm_zone env) t_symbol)
      else if name = ''LOCALTIME'' then
        apfst Some (Value_cstr t (show_date (local_tm env) (day_msecs env)) t_string)
      else if name = ''UTCTIME'' then
        apfst Some (Value_cstr t (show_date (utc_tm env) (day_msecs env)) t_string)
      else if name = ''TIMESEQ'' then
        apfst Some (Value_cstr t (show_timeseq (local_tm env) (day_msecs env)) t_string)
      else if name = ''TIMESTAMP'' then
        (let s = strip_newline (asctime_local env); n = length s;
             s' = (if n + length (tm_zone env) < 39 then s @ snprintf_buf (39 - n) ('' '' @ tm_zone env) else s)
         in apfst Some (Value_cstr t s' t_string))
      else if name = ''UTCTIMESTAMP'' then apfst Some (Value_cstr t (strip_newline (asctime_utc env)) t_string)
      else (None, t))"

text \<open>\<open>getKeyValue\<close>: the value, with the table of keywords it was assigned to.\<close>

definition getKeyValue ::
  "clock_env \<Rightarrow> tokeniser \<Rightarrow> symbol_table option \<Rightarrow> string \<Rightarrow> cw_value \<times> symbol_table option \<times> tokeniser" where
  "getKeyValue env t kw name = (case kw of
     None \<Rightarrow> (Value_empty, kw, t)
   | Some k \<Rightarrow> (case amap_find (st k) name of
       None \<Rightarrow> (Value_empty, kw, t)
     | Some old \<Rightarrow> (case key_value env t name of
         (None, t') \<Rightarrow> (old, kw, t')
       | (Some v, t') \<Rightarrow>
           (let r = value_assign old v
            in (r, Some (k\<lparr>st := amap_put name r (st k)\<rparr>), t')))))"

section \<open>Auxiliary notions\<close>

text \<open>What remains in an entry after an assignment.\<close>

definition assign_entry :: "cw_value option \<Rightarrow> cw_value \<Rightarrow> cw_value" where
  "assign_entry old v = value_assign (case old of None \<Rightarrow> Value_empty | Some u \<Rightarrow> u) v"

text \<open>Whether \<open>load_symbol\<close> takes a symbol.\<close>

definition loads :: "replace_mode \<Rightarrow> cw_value option \<Rightarrow> string \<Rightarrow> bool" where
  "loads mode old name \<longleftrightarrow> (mode = ST_REPLACE \<or> old = None) \<and> name \<noteq> ''NAME'' \<and> name \<noteq> ''STATE''"

text \<open>No keyword has the empty value.\<close>

definition keywords_ok :: "symbol_table \<Rightarrow> bool" where
  "keywords_ok k \<longleftrightarrow> list_all (\<lambda>(name, v). kind v \<noteq> t_empty) (st k)"

section \<open>The interface of a store that is assigned to by key\<close>

text \<open>
  A store gives for a key what was last assigned to it. What an assignment leaves of the old
  entry is the function \<open>upd\<close>. Clients load whole lists of entries, one after the other.
\<close>

locale keyed_store =
  fixes put :: "'k \<Rightarrow> 'v \<Rightarrow> 's \<Rightarrow> 's"
    and get :: "'s \<Rightarrow> 'k \<Rightarrow> 'v option"
    and upd :: "'v option \<Rightarrow> 'v \<Rightarrow> 'v"
    and store_ok :: "'s \<Rightarrow> bool"
  assumes get_put: "get (put k v m) k' = (if k' = k then Some (upd (get m k) v) else get m k')"
    and store_ok_put: "store_ok m \<Longrightarrow> store_ok (put k v m)"
begin

definition put_all :: "('k \<times> 'v) list \<Rightarrow> 's \<Rightarrow> 's" where
  "put_all es m = fold (\<lambda>(k, v). put k v) es m"

lemma store_ok_put_all: "store_ok m \<Longrightarrow> store_ok (put_all es m)"
  unfolding put_all_def by (induction es arbitrary: m) (auto simp: store_ok_put)

lemma get_put_all_other: "k \<notin> fst ` set es \<Longrightarrow> get (put_all es m) k = get m k"
  unfolding put_all_def by (induction es arbitrary: m) (auto simp: get_put)

text \<open>Entries with distinct keys: each key of the list has its value, the other keys are kept.\<close>

lemma get_put_all:
  assumes "distinct (map fst es)"
  shows "get (put_all es m) k = (case map_of es k of None \<Rightarrow> get m k | Some v \<Rightarrow> Some (upd (get m k) v))"
  using assms
proof (induction es arbitrary: m)
  case (Cons e es)
  obtain k1 v1 where e: "e = (k1, v1)" by (cases e)
  have step: "put_all ((k1, v1) # es) m = put_all es (put k1 v1 m)" by (simp add: put_all_def)
  show ?case
  proof (cases "k = k1")
    case True
    then have "k \<notin> fst ` set es" using Cons.prems e by auto
    then show ?thesis using True by (simp add: e step get_put_all_other get_put)
  next
    case False
    then show ?thesis using Cons by (simp add: e step get_put split: option.split)
  qed
qed (simp add: put_all_def)

end

section \<open>The map of symbols implements it\<close>

lemma amap_assign_find:
  "amap_find (amap_assign k v m) k' = (if k' = k then Some (assign_entry (amap_find m k) v) else amap_find m k')"
  by (simp add: amap_assign_def assign_entry_def)

lemma amap_ok_assign: "amap_ok m \<Longrightarrow> amap_ok (amap_assign k v m)"
  by (simp add: amap_assign_def)

interpretation named_values: keyed_store "amap_assign :: string \<Rightarrow> cw_value \<Rightarrow> _" amap_find assign_entry amap_ok
  by unfold_locales (simp_all add: amap_assign_find amap_ok_assign)

interpretation token_values: keyed_store "amap_assign :: int \<Rightarrow> cw_value \<Rightarrow> _" amap_find assign_entry amap_ok
  by unfold_locales (simp_all add: amap_assign_find amap_ok_assign)

lemma assign_entry_kind [simp]: "kind (assign_entry old v) = kind v"
  by (simp add: assign_entry_def)

lemma assign_entry_reads:
  "asString (assign_entry old v) = asString v" "value_eq (assign_entry old v) w = value_eq v w"
  by (simp_all add: assign_entry_def value_assign_reads value_eq_assign)

section \<open>Lemmas\<close>

lemma st_put_symbol [simp]: "st (fst (put_symbol t name val tbl)) = amap_assign name val (st tbl)"
  by (simp add: put_symbol_def Let_def case_prod_beta)

lemma stok_put_symbol:
  "stok (fst (put_symbol t name val tbl)) =
     (if kind val = t_symbol then amap_assign (fst (getTokenId t name)) val (stok tbl) else stok tbl)"
  by (simp add: put_symbol_def Let_def case_prod_beta)

lemma tok_put_symbol:
  "snd (put_symbol t name val tbl) = (if kind val = t_symbol then snd (getTokenId t name) else t)"
  by (simp add: put_symbol_def Let_def case_prod_beta)

lemma st_copy_symbols: "st (fst (copy_symbols t es tbl)) = named_values.put_all es (st tbl)"
proof (induction es arbitrary: t tbl)
  case (Cons e es)
  then show ?case
    by (cases e) (simp add: copy_symbols_def named_values.put_all_def,
      metis prod.collapse st_put_symbol)
qed (simp add: copy_symbols_def named_values.put_all_def)

lemma copy_symbols_keeps_tokens:
  "SymbolTable_exists_token tbl n \<Longrightarrow> SymbolTable_exists_token (fst (copy_symbols t es tbl)) n"
proof (induction es arbitrary: t tbl)
  case (Cons e es)
  obtain name val where e: "e = (name, val)" by (cases e)
  obtain tbl' t' where l: "put_symbol t name val tbl = (tbl', t')" by fastforce
  have "SymbolTable_exists_token tbl' n"
    using Cons.prems stok_put_symbol [of t name val tbl] l
    by (auto simp: SymbolTable_exists_token_def amap_assign_find)
  then show ?case using Cons.IH [of tbl' t'] by (simp add: copy_symbols_def e l)
qed (simp add: copy_symbols_def)

lemma find_load_symbol:
  "amap_find (st (fst (load_symbol mode (name, val) (tbl, t)))) k =
     (if k = name \<and> loads mode (amap_find (st tbl) name) name then Some (assign_entry (amap_find (st tbl) name) val)
      else amap_find (st tbl) k)"
  by (cases mode) (auto simp: load_symbol_def loads_def amap_assign_find)

lemma find_load_other:
  "k \<notin> fst ` set es \<Longrightarrow> amap_find (st (fst (fold (load_symbol mode) es (tbl, t)))) k = amap_find (st tbl) k"
proof (induction es arbitrary: tbl t)
  case (Cons e es)
  obtain n v where e: "e = (n, v)" by (cases e)
  obtain tbl' t' where l: "load_symbol mode e (tbl, t) = (tbl', t')" by fastforce
  have "amap_find (st tbl') k = amap_find (st tbl) k"
    using find_load_symbol [of mode n v tbl t k] Cons.prems l e by simp
  then show ?case using Cons l by simp
qed simp

lemma find_load_all:
  assumes "distinct (map fst es)"
  shows "amap_find (st (fst (fold (load_symbol mode) es (tbl, t)))) k =
    (case map_of es k of
       Some v \<Rightarrow> if loads mode (amap_find (st tbl) k) k then Some (assign_entry (amap_find (st tbl) k) v)
                 else amap_find (st tbl) k
     | None \<Rightarrow> amap_find (st tbl) k)"
  using assms
proof (induction es arbitrary: tbl t)
  case (Cons e es)
  obtain n v where e: "e = (n, v)" by (cases e)
  obtain tbl' t' where l: "load_symbol mode e (tbl, t) = (tbl', t')" by fastforce
  have step: "amap_find (st tbl') j =
      (if j = n \<and> loads mode (amap_find (st tbl) n) n then Some (assign_entry (amap_find (st tbl) n) v)
       else amap_find (st tbl) j)" for j
    using find_load_symbol [of mode n v tbl t j] l e by simp
  show ?case
  proof (cases "k = n")
    case True
    then have "k \<notin> fst ` set es" using Cons.prems e by auto
    then show ?thesis using True l e step [of n] by (simp add: find_load_other)
  next
    case False
    then show ?thesis using Cons l e step [of k] by (simp split: option.split)
  qed
qed simp

lemma value_ne_empty: "value_ne v Value_empty = Inr (kind v \<noteq> t_empty)"
  by (cases "kind v") (simp_all add: value_ne_def compare_numbers_def string_kind_def numeric_types_def value_simps)

lemma kind_empty [simp]: "kind Value_empty = t_empty"
  by (simp add: value_simps)

lemma keywords_ok_find: "keywords_ok k \<Longrightarrow> amap_find (st k) name = Some v \<Longrightarrow> kind v \<noteq> t_empty"
  by (auto simp: keywords_ok_def list_all_iff amap_find_map_of dest: map_of_SomeD)

lemma find_local_empty: "amap_find (st k) name = None \<Longrightarrow> find_local k name = Value_empty"
  by (simp add: find_local_def)

lemma set_amap_put: "set (amap_put k v m) \<subseteq> insert (k, v) (set m)"
  by (induction k v m rule: amap_put.induct) (auto split: if_splits)

lemma keywords_ok_put:
  "keywords_ok k \<Longrightarrow> kind v \<noteq> t_empty \<Longrightarrow> keywords_ok (k\<lparr>st := amap_put name v (st k)\<rparr>)"
  using set_amap_put [of name v "st k"] by (auto simp: keywords_ok_def list_all_iff)

lemma kind_Value_cstr_string [simp]: "kind (fst (Value_cstr t s t_string)) = t_string"
  by (simp add: Value_cstr_def value_simps)

lemma kind_Value_cstr_zone: "s \<noteq> ''NULL'' \<Longrightarrow> kind (fst (Value_cstr t s t_symbol)) \<noteq> t_empty"
  by (simp add: Value_cstr_def value_simps case_prod_beta Let_def)

lemma kind_key_value:
  assumes "key_value env t name = (Some v, t')" "tm_zone env \<noteq> ''NULL''"
  shows "kind v \<noteq> t_empty"
proof -
  have if_pred: "pred_option P (fst (if c then x else y)) =
      (if c then pred_option P (fst x) else pred_option P (fst y))" for P :: "cw_value \<Rightarrow> bool" and c and x y :: "cw_value option \<times> tokeniser"
    by simp
  have "kind (Value_long i) \<noteq> t_empty" "kind (Value_ulong i) \<noteq> t_empty" for i
    by (simp_all add: Value_long_def Value_ulong_def)
  then have "pred_option (\<lambda>v. kind v \<noteq> t_empty) (fst (key_value env t name))"
    unfolding key_value_def Let_def if_pred fst_apfst fst_conv option.pred_inject
    by (simp only: kind_Value_cstr_zone [OF assms(2)] kind_Value_cstr_string kind.distinct
        option.pred_True if_cancel simp_thms) (simp only: option.pred_inject if_cancel)
  then show ?thesis using assms(1) by simp
qed

lemma getKeyValue_cases:
  assumes "getKeyValue env t (Some k) name = (v, kw, t')"
  obtains (same) "kw = Some k"
    | (new) old u where "amap_find (st k) name = Some old" "key_value env t name = (Some u, t')"
        "v = value_assign old u" "kw = Some (k\<lparr>st := amap_put name v (st k)\<rparr>)"
  using assms by (auto simp: getKeyValue_def Let_def split: option.splits prod.splits)

section \<open>Properties\<close>

text \<open>
  Loading the symbols of one table into another takes exactly the names of the
  source other than \<open>NAME\<close> and \<open>STATE\<close> that the mode allows to replace; every other name
  keeps its value.
\<close>

lemma load_symbols:
  assumes "amap_ok (st orig)"
  shows "amap_find (st (fst (SymbolTable_load t tbl orig mode))) k =
    (case amap_find (st orig) k of
       Some v \<Rightarrow> if (mode = ST_REPLACE \<or> amap_find (st tbl) k = None) \<and> k \<noteq> ''NAME'' \<and> k \<noteq> ''STATE''
                 then Some (assign_entry (amap_find (st tbl) k) v) else amap_find (st tbl) k
     | None \<Rightarrow> amap_find (st tbl) k)"
proof -
  have "distinct (map fst (st orig))" using assms by (simp add: amap_ok_def strict_sorted_iff)
  from find_load_all [OF this] show ?thesis
    by (simp add: SymbolTable_load_def loads_def amap_find_map_of [of "st orig"] split: option.split)
qed

text \<open>
  A keyword hides a property of the same name in every table, and a name that is no
  keyword is looked up in the table itself. Referring to a keyword changes neither which names
  are keywords nor that they hide properties, unless the time zone is called \<open>NULL\<close>.
\<close>

lemma keywords_shadow_properties:
  assumes "keywords_ok k"
  shows "SymbolTable_find (Some k) tbl name =
      Inr (if isKeyword (Some k) name then find_local k name else find_local tbl name) \<and>
    (tm_zone env \<noteq> ''NULL'' \<longrightarrow> getKeyValue env t (Some k) ref = (v, Some k', t') \<longrightarrow>
       keywords_ok k' \<and> isKeyword (Some k') name = isKeyword (Some k) name)"
proof (intro conjI impI)
  show "SymbolTable_find (Some k) tbl name =
      Inr (if isKeyword (Some k) name then find_local k name else find_local tbl name)"
    using keywords_ok_find [OF assms]
    by (cases "amap_find (st k) name")
      (auto simp: SymbolTable_find_def isKeyword_def SymbolTable_exists_def value_ne_empty find_local_def
        kind_empty)
next
  assume zone: "tm_zone env \<noteq> ''NULL''" and get: "getKeyValue env t (Some k) ref = (v, Some k', t')"
  show "keywords_ok k'"
    using get by (cases rule: getKeyValue_cases)
      (use assms zone in \<open>auto simp: keywords_ok_put kind_key_value\<close>)
  show "isKeyword (Some k') name = isKeyword (Some k) name"
    using get by (cases rule: getKeyValue_cases) (auto simp: isKeyword_def SymbolTable_exists_def)
qed

text \<open>
  A symbol added under a name is found by the name and by the token of the name.
  When a value that is no symbol replaces it, the name finds the new value while the token
  still finds the old symbol: the two ways to look up a property disagree.
\<close>

lemma stale_token_lookup:
  assumes "tokeniser_inv t" "kind val = t_symbol" "kind val' \<noteq> t_symbol" "token_id key = Some n"
    and "SymbolTable_add t tbl name val ST_REPLACE = (True, tbl1, t1)" "token_of t1 name = Some n"
    and "SymbolTable_add t1 tbl1 name val' ST_REPLACE = (True, tbl2, t2)"
  shows "asString (find_local tbl1 name) = asString val \<and>
    mapr asString (lookup_local tbl1 key) = Inr (asString val) \<and>
    asString (find_local tbl2 name) = asString val' \<and>
    mapr asString (lookup_local tbl2 key) = Inr (asString val)"
proof -
  have tbl1: "tbl1 = fst (put_symbol t name val tbl)" and t1: "t1 = snd (put_symbol t name val tbl)"
    and tbl2: "tbl2 = fst (put_symbol t1 name val' tbl1)"
    using assms(5,7) by (auto simp: SymbolTable_add_def)
  have "n = fst (getTokenId t name)"
    using assms(1,2,6) t1 by (simp add: tok_put_symbol tokeniser_interning.intern_number)
  then show ?thesis
    using assms(2-4)
    by (simp add: tbl1 tbl2 find_local_def lookup_local_def stok_put_symbol amap_assign_find assign_entry_reads)
qed

text \<open>
  After one table is assigned to another, the names found in the target are exactly
  those of the source, with values that read the same; but every token found in the target
  before the assignment is still found there, since only the map of names is erased.
\<close>

lemma table_assignment:
  assumes "amap_ok (st orig)"
  shows "amap_find (st (fst (SymbolTable_assign t tbl orig))) k =
      map_option (value_assign Value_empty) (amap_find (st orig) k) \<and>
    (SymbolTable_exists_token tbl n \<longrightarrow> SymbolTable_exists_token (fst (SymbolTable_assign t tbl orig)) n)"
proof (intro conjI impI)
  have "distinct (map fst (st orig))" using assms by (simp add: amap_ok_def strict_sorted_iff)
  from named_values.get_put_all [OF this]
  show "amap_find (st (fst (SymbolTable_assign t tbl orig))) k =
      map_option (value_assign Value_empty) (amap_find (st orig) k)"
    by (simp add: SymbolTable_assign_def st_copy_symbols amap_find_map_of [of "st orig"] assign_entry_def
        split: option.split)
next
  assume "SymbolTable_exists_token tbl n"
  then show "SymbolTable_exists_token (fst (SymbolTable_assign t tbl orig)) n"
    unfolding SymbolTable_assign_def by (intro copy_symbols_keeps_tokens) (simp add: SymbolTable_exists_token_def)
qed

end
