(* ===== verification/Cw_Expression.thy ===== *)
theory Cw_Expression
  imports Cw_Arith Cw_Symbols
begin

text \<open>
  The expressions of \<open>src/iod/src/Expression.h\<close> and \<open>Expression.cpp\<close>: predicates are trees
  whose leaves name constants, states, properties or machines. \<open>prep\<close> resolves the leaves in
  the scope of a machine and lays the tree out on a stack in prefix order, \<open>eval_stack\<close>
  evaluates the stack. A resolved leaf is remembered as a pointer, so that later evaluations can
  read the object again without resolving its name.

  What the evaluation asks of the machine is the record \<open>scope\<close>: which states it has, which
  object a name resolves to, what the objects hold, which machines a name finds. The regular
  expression library is its field \<open>regex_matches\<close>. The members \<open>mi\<close> and \<open>dyn_value\<close> of a
  predicate are left out: the first is never set in the compiled code, the second is only shown
  in messages.
\<close>

section \<open>Predicates\<close>

datatype pred_op =
    opNone | opGE | opGT | opLE | opLT | opEQ | opNE | opAND | opOR | opNOT | opUnaryMinus
  | opPlus | opMinus | opTimes | opDivide | opMod | opAssign | opMatch | opBitAnd | opBitOr
  | opBitXOr | opNegate | opAny | opAll | opCount | opIncludes | opInteger | opFloat
  | opAbsoluteValue | opString

text \<open>What a \<open>const Value *\<close> that resolves a leaf points to.\<close>

datatype value_ref = RefEntry | RefTrue | RefFalse | RefObj nat

datatype predicate =
  Predicate (left_p: "predicate option") (pop: pred_op) (right_p: "predicate option") (entry: "cw_value")
    (cached_entry: "value_ref option") (needs_reevaluation: bool)

definition leaf_predicate :: "cw_value \<Rightarrow> predicate" where
  "leaf_predicate v = Predicate None opNone None v None True"

definition op_predicate :: "predicate \<Rightarrow> pred_op \<Rightarrow> predicate \<Rightarrow> predicate" where
  "op_predicate l opr r = Predicate (Some l) opr (Some r) Value_empty None True"

text \<open>The default state has a low priority.\<close>

definition leaf_priority :: "cw_value \<Rightarrow> int" where
  "leaf_priority v = (if kind v = t_symbol \<and> sValue v = ''DEFAULT'' then 1 else 0)"

text \<open>The copy constructor keeps no cached pointers.\<close>

fun copy_predicate :: "predicate \<Rightarrow> predicate" where
  "copy_predicate (Predicate l opr r e c n) =
     Predicate (case l of None \<Rightarrow> None | Some p \<Rightarrow> Some (copy_predicate p)) opr
       (case r of None \<Rightarrow> None | Some p \<Rightarrow> Some (copy_predicate p)) (value_assign Value_empty e) None True"

definition flushCache :: "predicate \<Rightarrow> predicate" where
  "flushCache p = Predicate (left_p p) (pop p) (right_p p) (entry p) None True"

section \<open>The scope of a machine\<close>

record scope =
  has_state :: "string \<Rightarrow> bool"
  resolve_name :: "string \<Rightarrow> nat"          \<comment> \<open>the object \<open>MachineInstance::resolve\<close> points to\<close>
  object_value :: "nat \<Rightarrow> cw_value"           \<comment> \<open>what the objects hold\<close>
  current_state :: nat                      \<comment> \<open>the object \<open>getCurrentStateVal\<close> points to\<close>
  lookup_machine :: "cw_value \<Rightarrow> nat option"   \<comment> \<open>\<open>MachineInstance::lookup\<close>\<close>
  machine_has_state :: "nat \<Rightarrow> string \<Rightarrow> bool"
  machine_timer :: "nat \<Rightarrow> int"             \<comment> \<open>\<open>getTimerVal()->iValue\<close> of a machine\<close>
  machine_named :: "string \<Rightarrow> nat option"
  machine_name :: "nat \<Rightarrow> string"
  self_timer :: int
  self_name :: string
  regex_matches :: "string \<Rightarrow> string \<Rightarrow> bool"

definition deref :: "scope \<Rightarrow> cw_value \<Rightarrow> value_ref \<Rightarrow> cw_value" where
  "deref s e r = (case r of
     RefEntry \<Rightarrow> e | RefTrue \<Rightarrow> Value_bool True | RefFalse \<Rightarrow> Value_bool False | RefObj a \<Rightarrow> object_value s a)"

text \<open>\<open>resolveCacheMiss\<close>: keywords first, then states, then what the machine resolves.\<close>

definition resolveCacheMiss :: "scope \<Rightarrow> bool \<Rightarrow> cw_value \<Rightarrow> value_ref" where
  "resolveCacheMiss s left v =
     (if kind v = t_symbol
      then if left \<and> sValue v = ''DEFAULT'' then RefTrue
           else if sValue v = ''SELF'' then RefObj (current_state s)
           else if sValue v = ''TRUE'' then RefTrue
           else if sValue v = ''FALSE'' then RefFalse
           else if has_state s (sValue v) then RefEntry
           else let a = resolve_name s (sValue v)
                in if isNull (object_value s a) then RefEntry else RefObj a
      else RefEntry)"

text \<open>\<open>resolve\<close>, with the test for the null value that \<open>prep\<close> makes on its result.\<close>

definition resolve :: "scope \<Rightarrow> bool \<Rightarrow> bool \<Rightarrow> predicate \<Rightarrow> value_ref" where
  "resolve s left reevaluate p =
     (case (if reevaluate then None else cached_entry p) of
        Some r \<Rightarrow> r
      | None \<Rightarrow> resolveCacheMiss s left (entry p))"

definition resolved_leaf :: "scope \<Rightarrow> bool \<Rightarrow> bool \<Rightarrow> predicate \<Rightarrow> value_ref res" where
  "resolved_leaf s left reevaluate p =
     (let r = resolve s left reevaluate p
      in mapr (\<lambda>null. if null then RefEntry else r) (value_eq (deref s (entry p) r) Value_empty))"

section \<open>The stack\<close>

datatype expr_node = NodeOp pred_op | NodeVal "cw_value"

text \<open>
  A comparison of two leaves that are symbols, one naming a machine and the other one of its
  states: the state's name becomes a string.
\<close>

definition set_entry_string :: "predicate \<Rightarrow> predicate" where
  "set_entry_string p =
     Predicate (left_p p) (pop p) (right_p p) (set_kind t_string (entry p)) (cached_entry p) (needs_reevaluation p)"

definition state_comparison :: "scope \<Rightarrow> pred_op \<Rightarrow> predicate \<Rightarrow> predicate \<Rightarrow> predicate \<times> predicate" where
  "state_comparison s opr l r =
     (if pop l = opNone \<and> pop r = opNone \<and> (opr = opEQ \<or> opr = opNE)
         \<and> kind (entry l) = t_symbol \<and> kind (entry r) = t_symbol
      then (case (lookup_machine s (entry l), lookup_machine s (entry r)) of
          (Some lhm, None) \<Rightarrow> if machine_has_state s lhm (sValue (entry r)) then (l, set_entry_string r) else (l, r)
        | (None, Some rhm) \<Rightarrow> if machine_has_state s rhm (sValue (entry l)) then (set_entry_string l, r) else (l, r)
        | _ \<Rightarrow> (l, r))
      else (l, r))"

lemma size_state_comparison [simp]:
  "size (fst (state_comparison s opr l r)) = size l" "size (snd (state_comparison s opr l r)) = size r"
  by (auto simp: state_comparison_def set_entry_string_def split: option.splits; cases l; cases r; simp)+

text \<open>
  \<open>prep\<close>: the nodes pushed for the predicate, last pushed first, and the predicate with its
  pointers remembered. A binary operator without a right operand dereferences a null pointer.
\<close>

function prep :: "scope \<Rightarrow> bool \<Rightarrow> bool \<Rightarrow> predicate \<Rightarrow> (expr_node list \<times> predicate) res" where
  "prep s left reevaluate (Predicate (Some l) opr (Some r) e c n) =
     (case prep s True reevaluate (fst (state_comparison s opr l r)) of
        Inl err \<Rightarrow> Inl err
      | Inr (ln, l'') \<Rightarrow>
          (case prep s False reevaluate (snd (state_comparison s opr l r)) of
             Inl err \<Rightarrow> Inl err
           | Inr (rn, r'') \<Rightarrow> Inr (NodeOp opr # rn @ ln, Predicate (Some l'') opr (Some r'') e c n)))"
| "prep s left reevaluate (Predicate (Some l) opr None e c n) = Inl NullPointer"
| "prep s left reevaluate (Predicate None opr (Some r) e c n) =
     (if opr = opNOT \<or> opr = opInteger \<or> opr = opFloat \<or> opr = opString
      then (case prep s False reevaluate r of
              Inl err \<Rightarrow> Inl err
            | Inr (rn, r') \<Rightarrow> Inr (NodeOp opr # rn @ [NodeVal (Value_bool True)], Predicate None opr (Some r') e c n))
      else mapr (\<lambda>ref. ([NodeVal (deref s e ref)], Predicate None opr (Some r) e (Some ref) False))
             (resolved_leaf s left reevaluate (Predicate None opr (Some r) e c n)))"
| "prep s left reevaluate (Predicate None opr None e c n) =
     (if opr = opNOT \<or> opr = opInteger \<or> opr = opFloat \<or> opr = opString then Inl NullPointer
      else mapr (\<lambda>ref. ([NodeVal (deref s e ref)], Predicate None opr None e (Some ref) False))
             (resolved_leaf s left reevaluate (Predicate None opr None e c n)))"
  by pat_completeness auto
termination
  by (relation "measure (\<lambda>(s, left, reevaluate, p). size p)") auto

section \<open>Evaluation of a stack\<close>

text \<open>
  Evaluating a node runs out of fuel (\<open>None\<close>), is undefined, or gives a value together with
  the nodes that are left. The fuel is never used up when it exceeds the number of nodes.
\<close>

definition bindo :: "'a res option \<Rightarrow> ('a \<Rightarrow> 'b res option) \<Rightarrow> 'b res option" where
  "bindo r f = (case r of None \<Rightarrow> None | Some (Inl e) \<Rightarrow> Some (Inl e) | Some (Inr x) \<Rightarrow> f x)"

definition dynamic_result :: "cw_value \<Rightarrow> cw_value res" where
  "dynamic_result v = (case dyn_value v of None \<Rightarrow> Inl NullPointer | Some r \<Rightarrow> Inr r)"

definition node_value :: "cw_value \<Rightarrow> cw_value res" where
  "node_value v = (if kind v = t_dynamic then dynamic_result v else Inr v)"

definition operand :: "cw_value \<Rightarrow> cw_value res" where
  "operand v = mapr (value_assign Value_empty) (node_value v)"

text \<open>A dynamic right operand that settles a conjunction or disjunction is the result.\<close>

definition short_circuit :: "pred_op \<Rightarrow> cw_value \<Rightarrow> cw_value \<Rightarrow> bool res" where
  "short_circuit opr b rhs =
     (if kind b = t_dynamic \<and> (opr = opAND \<or> opr = opOR) \<and> kind rhs = t_bool
      then mapr (\<lambda>x. x = (opr = opOR)) (read_field (bValue rhs))
      else Inr False)"

definition apply_operator ::
  "scope \<Rightarrow> tokeniser \<Rightarrow> pred_op \<Rightarrow> cw_value \<Rightarrow> cw_value \<Rightarrow> cw_value \<Rightarrow> cw_value \<Rightarrow> (cw_value \<times> tokeniser) res" where
  "apply_operator s t opr a b lhs rhs =
     (let bool = mapr (\<lambda>x. (Value_bool x, t)); same = mapr (\<lambda>v. (v, t))
      in case opr of
          opGE \<Rightarrow> bool (value_ge lhs rhs)
        | opGT \<Rightarrow> bool (value_gt lhs rhs)
        | opLE \<Rightarrow> bool (value_le lhs rhs)
        | opLT \<Rightarrow> bool (value_lt lhs rhs)
        | opEQ \<Rightarrow> bool (value_eq lhs rhs)
        | opNE \<Rightarrow> bool (value_ne lhs rhs)
        | opAND \<Rightarrow> bool (value_and lhs rhs)
        | opOR \<Rightarrow> bool (value_or lhs rhs)
        | opNOT \<Rightarrow> bool (value_not rhs)
        | opUnaryMinus \<Rightarrow> same (value_uminus rhs)
        | opPlus \<Rightarrow> value_plus t lhs rhs
        | opMinus \<Rightarrow> value_minus t lhs rhs
        | opTimes \<Rightarrow> value_times t lhs rhs
        | opDivide \<Rightarrow> value_divide t lhs rhs
        | opAbsoluteValue \<Rightarrow>
            bindr (value_lt rhs (Value_long 0)) (\<lambda>neg. same (if neg then value_uminus rhs else Inr rhs))
        | opMod \<Rightarrow> value_modulus t lhs rhs
        | opBitAnd \<Rightarrow> value_bitand t lhs rhs
        | opBitOr \<Rightarrow> value_bitor t lhs rhs
        | opNegate \<Rightarrow> same (value_bitnot rhs)
        | opBitXOr \<Rightarrow> value_bitxor t lhs rhs
        | opInteger \<Rightarrow> mapr (\<lambda>(ok, i). (Value_long (if ok then i else 0), t)) (asInteger rhs 0)
        | opFloat \<Rightarrow> mapr (\<lambda>x. (Value_double x, t)) (toFloat rhs)
        | opString \<Rightarrow> mapr (\<lambda>str. Value_string t str t_string) (asString rhs)
        | opAssign \<Rightarrow> Inr (rhs, t)
        | opMatch \<Rightarrow>
            bindr (asString a) (\<lambda>str. bindr (asString b) (\<lambda>pat. bool (Inr (regex_matches s str pat))))
        | opAny \<Rightarrow> Inr (a, t) | opCount \<Rightarrow> Inr (a, t) | opAll \<Rightarrow> Inr (a, t) | opIncludes \<Rightarrow> Inr (a, t)
        | opNone \<Rightarrow> Inr (Value_long 0, t))"

primrec eval_stack ::
  "nat \<Rightarrow> scope \<Rightarrow> tokeniser \<Rightarrow> expr_node list \<Rightarrow> (cw_value \<times> expr_node list \<times> tokeniser) res option" where
  "eval_stack 0 s t nodes = None"
| "eval_stack (Suc n) s t nodes = (case nodes of
     [] \<Rightarrow> Some (Inl OutOfRange)
   | NodeVal v # rest \<Rightarrow> Some (mapr (\<lambda>r. (r, rest, t)) (node_value v))
   | NodeOp opr # rest \<Rightarrow>
       bindo (eval_stack n s t rest) (\<lambda>(b, rest1, t1).
       bindo (Some (operand b)) (\<lambda>rhs.
       bindo (Some (short_circuit opr b rhs)) (\<lambda>settled.
       if settled then Some (Inr (rhs, rest1, t1))
       else bindo (eval_stack n s t1 rest1) (\<lambda>(a, rest2, t2).
            bindo (Some (operand a)) (\<lambda>lhs.
            Some (mapr (\<lambda>(v, t3). (v, rest2, t3)) (apply_operator s t2 opr a b lhs rhs))))))))"

text \<open>
  \<open>Evaluator::evaluate\<close> resolves every name again, \<open>Predicate::evaluate\<close> and
  \<open>Condition::operator()\<close> only when the predicate is marked. The predicate comes back with
  the pointers it remembers.
\<close>

definition run_predicate ::
  "bool \<Rightarrow> scope \<Rightarrow> tokeniser \<Rightarrow> predicate \<Rightarrow> (cw_value \<times> tokeniser \<times> predicate) res option" where
  "run_predicate reevaluate s t p = (case prep s True reevaluate p of
     Inl e \<Rightarrow> Some (Inl e)
   | Inr (nodes, p') \<Rightarrow>
       map_option (mapr (\<lambda>(v, rest, t'). (v, t', p'))) (eval_stack (Suc (length nodes)) s t nodes))"

definition Evaluator_evaluate :: "scope \<Rightarrow> tokeniser \<Rightarrow> predicate \<Rightarrow> (cw_value \<times> tokeniser \<times> predicate) res option" where
  "Evaluator_evaluate = run_predicate True"

definition Predicate_evaluate :: "scope \<Rightarrow> tokeniser \<Rightarrow> predicate \<Rightarrow> (cw_value \<times> tokeniser \<times> predicate) res option" where
  "Predicate_evaluate s t p = run_predicate (needs_reevaluation p) s t p"

text \<open>A condition is a predicate or none, with its last result.\<close>

record cond =
  predicate_of :: "predicate option"
  last_result :: cw_value

definition Condition_predicate :: "predicate option \<Rightarrow> cond" where
  "Condition_predicate p = \<lparr>predicate_of = map_option copy_predicate p, last_result = Value_empty\<rparr>"

definition Condition_copy :: "cond \<Rightarrow> cond" where
  "Condition_copy c = Condition_predicate (predicate_of c)"

text \<open>Assigning a condition without a predicate keeps the old predicate.\<close>

definition Condition_assign :: "cond \<Rightarrow> cond \<Rightarrow> cond" where
  "Condition_assign this c = (case predicate_of c of
     None \<Rightarrow> this | Some p \<Rightarrow> this\<lparr>predicate_of := Some (copy_predicate p)\<rparr>)"

definition Condition_call :: "scope \<Rightarrow> tokeniser \<Rightarrow> cond \<Rightarrow> (bool \<times> tokeniser \<times> cond) res option" where
  "Condition_call s t c = (case predicate_of c of
     None \<Rightarrow> Some (Inr (False, t, c))
   | Some p \<Rightarrow> bindo (Predicate_evaluate s t p) (\<lambda>(v, t', p').
       let r = value_assign (last_result c) v; c' = c\<lparr>predicate_of := Some p', last_result := r\<rparr>
       in if kind r = t_bool then Some (mapr (\<lambda>b. (b, t', c')) (read_field (bValue r)))
          else Some (Inr (False, t', c'))))"

section \<open>The reference evaluation\<close>

text \<open>The value of a tree, without a stack: the right operand first, then the left one.\<close>

function eval_tree :: "scope \<Rightarrow> bool \<Rightarrow> bool \<Rightarrow> tokeniser \<Rightarrow> predicate \<Rightarrow> (cw_value \<times> tokeniser) res" where
  "eval_tree s left reevaluate t (Predicate (Some l) opr (Some r) e c n) =
     bindr (eval_tree s False reevaluate t (snd (state_comparison s opr l r))) (\<lambda>(b, t1).
     bindr (eval_tree s True reevaluate t1 (fst (state_comparison s opr l r))) (\<lambda>(a, t2).
     apply_operator s t2 opr a b (value_assign Value_empty a) (value_assign Value_empty b)))"
| "eval_tree s left reevaluate t (Predicate (Some l) opr None e c n) = Inl NullPointer"
| "eval_tree s left reevaluate t (Predicate None opr (Some r) e c n) =
     (if opr = opNOT \<or> opr = opInteger \<or> opr = opFloat \<or> opr = opString
      then bindr (eval_tree s False reevaluate t r) (\<lambda>(b, t1).
           apply_operator s t1 opr (Value_bool True) b (Value_bool True) (value_assign Value_empty b))
      else bindr (resolved_leaf s left reevaluate (Predicate None opr (Some r) e c n)) (\<lambda>ref.
           mapr (\<lambda>v. (v, t)) (node_value (deref s e ref))))"
| "eval_tree s left reevaluate t (Predicate None opr None e c n) =
     (if opr = opNOT \<or> opr = opInteger \<or> opr = opFloat \<or> opr = opString then Inl NullPointer
      else bindr (resolved_leaf s left reevaluate (Predicate None opr None e c n)) (\<lambda>ref.
           mapr (\<lambda>v. (v, t)) (node_value (deref s e ref))))"
  by pat_completeness auto
termination
  by (relation "measure (\<lambda>(s, left, reevaluate, t, p). size p)") auto

text \<open>The operands that the operator of each node needs are there.\<close>

fun shaped :: "predicate \<Rightarrow> bool" where
  "shaped (Predicate l opr r e c n) =
     ((l \<noteq> None \<or> opr = opNOT \<or> opr = opInteger \<or> opr = opFloat \<or> opr = opString \<longrightarrow> r \<noteq> None)
      \<and> (case l of None \<Rightarrow> True | Some p \<Rightarrow> shaped p) \<and> (case r of None \<Rightarrow> True | Some p \<Rightarrow> shaped p))"

text \<open>A dynamic value whose result is not dynamic again.\<close>

definition flat :: "cw_value \<Rightarrow> bool" where
  "flat v \<longleftrightarrow> (kind v = t_dynamic \<longrightarrow> (\<exists>r. dyn_value v = Some r \<and> kind r \<noteq> t_dynamic))"

text \<open>All values that the leaves of a predicate can be resolved to satisfy a condition.\<close>

fun leaves :: "predicate \<Rightarrow> cw_value list" where
  "leaves (Predicate l opr r e c n) =
     (case l of None \<Rightarrow> [] | Some p \<Rightarrow> leaves p) @ (case r of None \<Rightarrow> [] | Some p \<Rightarrow> leaves p) @ [e]"

definition all_values :: "(cw_value \<Rightarrow> bool) \<Rightarrow> scope \<Rightarrow> predicate \<Rightarrow> bool" where
  "all_values P s p \<longleftrightarrow> P (Value_bool True) \<and> P (Value_bool False) \<and> (\<forall>a. P (object_value s a)) \<and> list_all P (leaves p)"

text \<open>Conditions: comparisons of leaves combined by conjunction, disjunction and negation.\<close>

definition is_leaf :: "predicate \<Rightarrow> bool" where
  "is_leaf p \<longleftrightarrow> left_p p = None \<and> right_p p = None \<and> pop p = opNone"

definition comparison :: "pred_op \<Rightarrow> bool" where
  "comparison opr \<longleftrightarrow> opr = opGE \<or> opr = opGT \<or> opr = opLE \<or> opr = opLT \<or> opr = opEQ \<or> opr = opNE"

fun boolean_form :: "predicate \<Rightarrow> bool" where
  "boolean_form (Predicate (Some l) opr (Some r) e c n) =
     (comparison opr \<and> is_leaf l \<and> is_leaf r
      \<or> (opr = opAND \<or> opr = opOR) \<and> boolean_form l \<and> boolean_form r
      \<or> opr = opNOT \<and> is_leaf l \<and> boolean_form r)"
| "boolean_form (Predicate None opr (Some r) e c n) = (opr = opNOT \<and> boolean_form r)"
| "boolean_form (Predicate (Some l) opr None e c n) = False"
| "boolean_form (Predicate None opr None e c n) = (opr = opNone \<and> kind e = t_bool)"

definition compare :: "pred_op \<Rightarrow> cw_value \<Rightarrow> cw_value \<Rightarrow> bool res" where
  "compare opr = (case opr of opGE \<Rightarrow> value_ge | opGT \<Rightarrow> value_gt | opLE \<Rightarrow> value_le | opLT \<Rightarrow> value_lt
     | opEQ \<Rightarrow> value_eq | _ \<Rightarrow> value_ne)"

text \<open>The value of a leaf, with a dynamic value replaced by its result.\<close>

definition leaf_value :: "scope \<Rightarrow> bool \<Rightarrow> predicate \<Rightarrow> cw_value" where
  "leaf_value s left p =
     (let r = resolveCacheMiss s left (entry p);
          v = (if isNull (deref s (entry p) r) then entry p else deref s (entry p) r)
      in if kind v = t_dynamic then the (dyn_value v) else v)"

fun holds :: "scope \<Rightarrow> predicate \<Rightarrow> bool" where
  "holds s (Predicate (Some l) opr (Some r) e c n) =
     (case opr of
        opAND \<Rightarrow> holds s l \<and> holds s r
      | opOR \<Rightarrow> holds s l \<or> holds s r
      | opNOT \<Rightarrow> \<not> holds s r
      | _ \<Rightarrow> (let (l', r') = state_comparison s opr l r
              in compare opr (leaf_value s True l') (leaf_value s False r') = Inr True))"
| "holds s (Predicate None opr (Some r) e c n) = (\<not> holds s r)"
| "holds s (Predicate l opr None e c n) = (bValue e = Some True)"

definition sound :: "cw_value \<Rightarrow> bool" where
  "sound v \<longleftrightarrow> flat v \<and> value_ok v"

text \<open>A scope in which every name resolves to one object, used to show that the claims apply.\<close>

definition example_scope :: "cw_value \<Rightarrow> scope" where
  "example_scope v = \<lparr>has_state = (\<lambda>_. False), resolve_name = (\<lambda>_. 0), object_value = (\<lambda>_. v), current_state = 0,
     lookup_machine = (\<lambda>_. None), machine_has_state = (\<lambda>_ _. False), machine_timer = (\<lambda>_. 0),
     machine_named = (\<lambda>_. None), machine_name = (\<lambda>_. ''M''), self_timer = 0, self_name = ''M'',
     regex_matches = (\<lambda>_ _. False)\<rparr>"

definition example_symbol :: cw_value where
  "example_symbol = Value t_symbol None None None ''count'' (Some 50) None"

definition example_condition :: predicate where
  "example_condition = op_predicate (leaf_predicate example_symbol) opLT (leaf_predicate (Value_long 5))"

section \<open>Lemmas\<close>

lemma bindo_simps [simp]:
  "bindo None f = None" "bindo (Some (Inl e)) f = Some (Inl e)" "bindo (Some (Inr x)) f = f x"
  by (simp_all add: bindo_def)

lemma value_eq_empty: "value_eq v Value_empty = Inr (kind v = t_empty)"
  by (cases "kind v") (simp_all add: value_eq_def compare_numbers_def string_kind_def numeric_types_def value_simps)

lemma resolved_leaf_eq:
  "resolved_leaf s left reevaluate p =
     Inr (let r = resolve s left reevaluate p in if kind (deref s (entry p) r) = t_empty then RefEntry else r)"
  by (simp add: resolved_leaf_def value_eq_empty Let_def)

lemma shaped_set_entry [simp]: "shaped (set_entry_string p) = shaped p"
  by (cases p) (simp add: set_entry_string_def)

lemma shaped_state_comparison [simp]:
  "shaped l \<Longrightarrow> shaped (fst (state_comparison s opr l r))"
  "shaped r \<Longrightarrow> shaped (snd (state_comparison s opr l r))"
  by (simp_all add: state_comparison_def split: option.splits)

text \<open>Preparing a predicate with all its operands succeeds.\<close>

lemma prep_shaped:
  "shaped p \<Longrightarrow> \<exists>ns p'. prep s left reevaluate p = Inr (ns, p') \<and> shaped p' \<and> ns \<noteq> []"
proof (induction s left reevaluate p rule: prep.induct)
  case (1 s left reevaluate l opr r e c n)
  then obtain ln l' where l: "prep s True reevaluate (fst (state_comparison s opr l r)) = Inr (ln, l')" "shaped l'"
    by auto
  with 1 obtain rn r' where "prep s False reevaluate (snd (state_comparison s opr l r)) = Inr (rn, r')" "shaped r'"
    by force
  with l show ?case by simp
qed (auto simp: resolved_leaf_eq)

text \<open>Every evaluation ends and consumes a node.\<close>

lemma eval_stack_ends:
  "length nodes < n \<Longrightarrow> \<exists>r. eval_stack n s t nodes = Some r \<and>
     (\<forall>v rest t'. r = Inr (v, rest, t') \<longrightarrow> length rest < length nodes)"
proof (induction n arbitrary: t nodes)
  case (Suc n)
  show ?case
  proof (cases nodes)
    case (Cons a rest)
    show ?thesis
    proof (cases a)
      case (NodeOp opr)
      obtain r1 where r1: "eval_stack n s t rest = Some r1"
        "\<forall>v rest1 t1. r1 = Inr (v, rest1, t1) \<longrightarrow> length rest1 < length rest"
        using Suc.IH [of rest t] Suc.prems Cons by auto
      show ?thesis
      proof (cases r1)
        case (Inr x)
        obtain b rest1 t1 where x: "x = (b, rest1, t1)" by (cases x)
        then have less: "length rest1 < length rest" using r1(2) Inr by simp
        obtain r2 where r2: "eval_stack n s t1 rest1 = Some r2"
          "\<forall>v rest2 t2. r2 = Inr (v, rest2, t2) \<longrightarrow> length rest2 < length rest1"
          using Suc.IH [of rest1 t1] Suc.prems Cons less by auto
        show ?thesis
          using Cons NodeOp r1(1) Inr x less r2
          by (cases "operand b"; cases r2)
            (auto simp: bindo_def mapr_Inr_iff split: sum.splits prod.splits)
      qed (use Cons NodeOp r1 in auto)
    qed (use Cons in \<open>auto simp: mapr_Inr_iff\<close>)
  qed simp
qed simp

lemma kind_simps [simp]:
  "kind (Value_bool b) = t_bool" "kind (Value_long i) = t_integer" "kind (Value_double x) = t_float"
  "kind (set_kind k v) = k" "kind (set_bValue b v) = kind v" "kind (set_iValue i v) = kind v"
  "kind (set_fValue x v) = kind v" "kind (set_sValue str v) = kind v" "kind (set_token_id n v) = kind v"
  by (simp_all add: value_simps)

lemma kind_Value_string: "k \<noteq> t_dynamic \<Longrightarrow> kind (fst (Value_string t str k)) \<noteq> t_dynamic"
  by (auto simp: Value_string_def Let_def Value_kind_def case_prod_beta set_field_defs)

lemma run_op_not_dynamic:
  assumes "run_op op t a b = Inr (r, t')" "kind a \<noteq> t_dynamic"
  shows "kind r \<noteq> t_dynamic"
  using assms kind_Value_string [of "kind a" t] kind_Value_string [of t_string t]
  by (cases op)
    (auto simp: run_op_def op_Sum_def op_Minus_def op_Multiply_def op_Divide_def op_Modulus_def op_Bits_def
      ub_simps split: if_splits; metis fst_conv kind.distinct)+

lemma TypeFix_not_dynamic:
  assumes "TypeFix t a op b = Inr (r, t')" "kind a \<noteq> t_dynamic"
  shows "kind r \<noteq> t_dynamic"
  using assms
  by (auto simp: TypeFix_def case_prod_beta ub_simps split: if_splits dest: run_op_not_dynamic)

lemma compound_assign_not_dynamic:
  assumes "compound_assign op t a b = Inr (r, t')" "kind a \<noteq> t_dynamic"
  shows "kind r \<noteq> t_dynamic"
proof (cases "kind a = kind b")
  case True
  then show ?thesis
    using assms by (cases op; cases "kind a")
      (auto simp: compound_assign_def compound_defs ub_simps split: if_splits)
next
  case False
  then show ?thesis
    using compound_assign_mixed [OF False assms(1)] TypeFix_not_dynamic assms by fastforce
qed

lemma value_uminus_not_dynamic: "value_uminus v = Inr r \<Longrightarrow> kind v \<noteq> t_dynamic \<Longrightarrow> kind r \<noteq> t_dynamic"
  by (cases "kind v") (auto simp: value_uminus_def string_kind_def ub_simps case_prod_beta split: if_splits)

lemma value_bitnot_not_dynamic: "value_bitnot v = Inr r \<Longrightarrow> kind v \<noteq> t_dynamic \<Longrightarrow> kind r \<noteq> t_dynamic"
  by (cases "kind v") (auto simp: value_bitnot_def ub_simps)

lemmas not_dynamic = value_uminus_not_dynamic value_bitnot_not_dynamic
  compound_assign_not_dynamic [of Sum, unfolded compound_assign_def, simplified]
  compound_assign_not_dynamic [of Minus, unfolded compound_assign_def, simplified]
  compound_assign_not_dynamic [of Multiply, unfolded compound_assign_def, simplified]
  compound_assign_not_dynamic [of Divide, unfolded compound_assign_def, simplified]
  compound_assign_not_dynamic [of Modulus, unfolded compound_assign_def, simplified]
  compound_assign_not_dynamic [of BitAnd, unfolded compound_assign_def, simplified]
  compound_assign_not_dynamic [of BitOr, unfolded compound_assign_def, simplified]
  compound_assign_not_dynamic [of BitXOr, unfolded compound_assign_def, simplified]

lemma apply_operator_not_dynamic:
  assumes "apply_operator s t opr a b lhs rhs = Inr (r, t')"
    and "kind a \<noteq> t_dynamic" "kind lhs \<noteq> t_dynamic" "kind rhs \<noteq> t_dynamic"
  shows "kind r \<noteq> t_dynamic"
  using assms kind_Value_string [of t_string t]
  by (cases opr)
    (auto simp: apply_operator_def ub_simps split: if_splits dest: not_dynamic; metis fst_conv kind.distinct)+

lemma all_values_deref:
  "all_values P s p \<Longrightarrow> P (deref s (entry p) r)"
  by (cases p) (auto simp: all_values_def deref_def split: value_ref.splits option.splits)

lemma leaves_set_entry:
  "list_all P (leaves p) \<Longrightarrow> kind (entry p) = t_symbol \<Longrightarrow> (\<And>v. P v \<Longrightarrow> kind v = t_symbol \<Longrightarrow> P (set_kind t_string v)) \<Longrightarrow>
   list_all P (leaves (set_entry_string p))"
  by (cases p) (simp add: set_entry_string_def)

lemma all_values_state_comparison:
  assumes "\<And>v. P v \<Longrightarrow> kind v = t_symbol \<Longrightarrow> P (set_kind t_string v)" "all_values P s l" "all_values P s r"
  shows "all_values P s (fst (state_comparison s opr l r))" "all_values P s (snd (state_comparison s opr l r))"
  using assms leaves_set_entry [of P l] leaves_set_entry [of P r]
  by (auto simp: all_values_def state_comparison_def split: option.splits)

lemma flat_state_comparison:
  assumes "all_values flat s l" "all_values flat s r"
  shows "all_values flat s (fst (state_comparison s opr l r))" "all_values flat s (snd (state_comparison s opr l r))"
  using assms by (simp_all add: all_values_state_comparison flat_def)

lemma node_value_flat: "flat v \<Longrightarrow> \<exists>r. node_value v = Inr r \<and> kind r \<noteq> t_dynamic"
  by (auto simp: flat_def node_value_def dynamic_result_def)

lemma leaf_flat:
  "all_values flat s p \<Longrightarrow> mapr f (node_value (deref s (entry p) ref)) = Inr w \<Longrightarrow> \<exists>r. w = f r \<and> kind r \<noteq> t_dynamic"
  using node_value_flat [OF all_values_deref [of flat s p ref]] by auto

lemma all_values_children:
  "all_values P s (Predicate (Some l) opr r e c n) \<Longrightarrow> all_values P s l"
  "all_values P s (Predicate k opr (Some q) e c n) \<Longrightarrow> all_values P s q"
  by (simp_all add: all_values_def)

lemma operand_plain: "kind v \<noteq> t_dynamic \<Longrightarrow> operand v = Inr (value_assign Value_empty v)"
  by (simp add: operand_def node_value_def)

lemma eval_tree_not_dynamic:
  "all_values flat s p \<Longrightarrow> eval_tree s left reevaluate t p = Inr (v, t') \<Longrightarrow> kind v \<noteq> t_dynamic"
proof (induction s left reevaluate t p arbitrary: v t' rule: eval_tree.induct)
  case (1 s left reevaluate t l opr r e c n)
  have flat: "all_values flat s (fst (state_comparison s opr l r))" "all_values flat s (snd (state_comparison s opr l r))"
    using flat_state_comparison [OF all_values_children(1) [OF 1(3)] all_values_children(2) [OF 1(3)]]
    by simp_all
  from 1(4) obtain b t1 a t2 where
    b: "eval_tree s False reevaluate t (snd (state_comparison s opr l r)) = Inr (b, t1)"
    and a: "eval_tree s True reevaluate t1 (fst (state_comparison s opr l r)) = Inr (a, t2)"
    and v: "apply_operator s t2 opr a b (value_assign Value_empty a) (value_assign Value_empty b) = Inr (v, t')"
    by (auto simp only: eval_tree.simps bindr_Inr_iff prod.case)
  have "kind b \<noteq> t_dynamic" "kind a \<noteq> t_dynamic" using 1(1) [OF flat(2) b] 1(2) [OF flat(1) a] by simp_all
  then show ?case using apply_operator_not_dynamic [OF v] by simp
next
  case (3 s left reevaluate t opr r e c n)
  show ?case
  proof (cases "opr = opNOT \<or> opr = opInteger \<or> opr = opFloat \<or> opr = opString")
    case True
    with 3(3) obtain b t1 where b: "eval_tree s False reevaluate t r = Inr (b, t1)"
      and v: "apply_operator s t1 opr (Value_bool True) b (Value_bool True) (value_assign Value_empty b) = Inr (v, t')"
      by (auto simp only: eval_tree.simps if_True bindr_Inr_iff split: prod.splits)
    have "kind b \<noteq> t_dynamic" using 3(1) [OF True all_values_children(2) [OF 3(2)] b] .
    then show ?thesis using apply_operator_not_dynamic [OF v] by simp
  next
    case False
    then show ?thesis using 3(3) leaf_flat [OF 3(2), of "\<lambda>v. (v, t)"]
      by (auto simp only: eval_tree.simps if_False bindr_Inr_iff predicate.sel prod.inject)
  qed
next
  case (4 s left reevaluate t opr e c n)
  then show ?case using leaf_flat [OF 4(1), of "\<lambda>v. (v, t)"]
    by (auto simp only: eval_tree.simps bindr_Inr_iff predicate.sel prod.inject sum.distinct split: if_splits)
qed simp

lemma short_circuit_plain: "kind b \<noteq> t_dynamic \<Longrightarrow> short_circuit opr b rhs = Inr False"
  by (simp add: short_circuit_def)

text \<open>One operator node whose operands are evaluated from the nodes behind it.\<close>

lemma eval_stack_operator:
  assumes "eval_stack n s t rest = Some (mapr (\<lambda>(v, t'). (v, rest1, t')) B)"
    and "\<And>b t1. B = Inr (b, t1) \<Longrightarrow> kind b \<noteq> t_dynamic \<and> eval_stack n s t1 rest1 = Some (mapr (\<lambda>(v, t'). (v, rest2, t')) (A t1))"
    and "\<And>b t1 a t2. B = Inr (b, t1) \<Longrightarrow> A t1 = Inr (a, t2) \<Longrightarrow> kind a \<noteq> t_dynamic"
  shows "eval_stack (Suc n) s t (NodeOp opr # rest) = Some (mapr (\<lambda>(v, t'). (v, rest2, t'))
     (bindr B (\<lambda>(b, t1). bindr (A t1) (\<lambda>(a, t2).
        apply_operator s t2 opr a b (value_assign Value_empty a) (value_assign Value_empty b)))))"
proof (cases B)
  case (Inr x)
  obtain b t1 where x: "x = (b, t1)" by (cases x)
  show ?thesis
  proof (cases "A t1")
    case (Inr y)
    obtain a t2 where "y = (a, t2)" by (cases y)
    then show ?thesis
      using assms x Inr \<open>B = Inr x\<close> by (simp add: operand_plain short_circuit_plain)
  qed (use assms x Inr in \<open>simp add: operand_plain short_circuit_plain\<close>)
qed (use assms in simp)

lemma eval_stack_prep:
  "prep s left reevaluate p = Inr (ns, p') \<Longrightarrow> all_values flat s p \<Longrightarrow> length (ns @ rest) < k \<Longrightarrow>
   eval_stack k s t (ns @ rest) = Some (mapr (\<lambda>(v, t'). (v, rest, t')) (eval_tree s left reevaluate t p))"
proof (induction s left reevaluate p arbitrary: ns p' rest k t rule: prep.induct)
  case (1 s left reevaluate l opr r e c n)
  let ?l = "fst (state_comparison s opr l r)" and ?r = "snd (state_comparison s opr l r)"
  obtain ln l' rn r' where l: "prep s True reevaluate ?l = Inr (ln, l')"
    and r: "prep s False reevaluate ?r = Inr (rn, r')" and ns: "ns = NodeOp opr # rn @ ln"
    using 1(3) by (auto split: sum.splits)
  obtain m where k: "k = Suc m" using 1(5) by (cases k) auto
  note flat = flat_state_comparison [OF all_values_children(1) [OF 1(4)] all_values_children(2) [OF 1(4)], of opr]
  have right: "eval_stack m s t (rn @ ln @ rest) =
      Some (mapr (\<lambda>(v, t'). (v, ln @ rest, t')) (eval_tree s False reevaluate t ?r))"
    by (rule 1(2) [OF l refl r flat(2)]) (use 1(5) k ns in simp)
  have "eval_stack m s t1 (ln @ rest) = Some (mapr (\<lambda>(v, t'). (v, rest, t')) (eval_tree s True reevaluate t1 ?l))" for t1
    by (rule 1(1) [OF l flat(1)]) (use 1(5) k ns in simp)
  then show ?case
    using eval_stack_operator [OF right, of rest "\<lambda>t1. eval_tree s True reevaluate t1 ?l" opr]
      eval_tree_not_dynamic [OF flat(1)] eval_tree_not_dynamic [OF flat(2)]
    by (simp only: k ns eval_tree.simps append_Cons append_assoc) blast
next
  case (3 s left reevaluate opr r e c n)
  show ?case
  proof (cases "opr = opNOT \<or> opr = opInteger \<or> opr = opFloat \<or> opr = opString")
    case True
    obtain rn r' where r: "prep s False reevaluate r = Inr (rn, r')" and ns: "ns = NodeOp opr # rn @ [NodeVal (Value_bool True)]"
      using 3(2) True by (auto split: sum.splits)
    obtain m where k: "k = Suc (Suc m)" using 3(4) ns by (cases k; cases "k - 1") auto
    have right: "eval_stack (Suc m) s t (rn @ NodeVal (Value_bool True) # rest) =
        Some (mapr (\<lambda>(v, t'). (v, NodeVal (Value_bool True) # rest, t')) (eval_tree s False reevaluate t r))"
      by (rule 3(1) [OF True r all_values_children(2) [OF 3(3)]]) (use 3(4) k ns in simp)
    have true: "value_assign Value_empty (Value_bool True) = Value_bool True"
      by (simp add: value_assign_def value_simps)
    have "eval_stack (Suc (Suc m)) s t (NodeOp opr # rn @ NodeVal (Value_bool True) # rest) =
      Some (mapr (\<lambda>(v, t'). (v, rest, t')) (bindr (eval_tree s False reevaluate t r) (\<lambda>(b, t1).
        bindr (Inr (Value_bool True, t1)) (\<lambda>(a, t2).
          apply_operator s t2 opr a b (value_assign Value_empty a) (value_assign Value_empty b)))))"
      by (rule eval_stack_operator [OF right])
        (use eval_tree_not_dynamic [OF all_values_children(2) [OF 3(3)]] in \<open>auto simp: node_value_def\<close>)
    then show ?thesis using True by (simp add: k ns true del: eval_stack.simps(2))
  next
    case False
    then show ?thesis using 3(2) 3(4) by (cases k) (auto simp: resolved_leaf_eq mapr_mapr)
  qed
next
  case (4 s left reevaluate opr e c n)
  then show ?case by (cases k) (auto simp: resolved_leaf_eq mapr_mapr split: if_splits)
qed simp

lemma compare_defined: "value_ok v \<Longrightarrow> value_ok w \<Longrightarrow> \<exists>b. compare opr v w = Inr b"
  using value_eq_defined [of v w] value_ge_defined [of v w] value_le_defined [of v w]
  by (cases opr)
    (auto simp: compare_def value_lt_def value_gt_def value_ne_value_eq defined_iff)

lemma comparison_assign_right:
  "value_eq w (value_assign u v) = value_eq w v" "value_ge w (value_assign u v) = value_ge w v"
  "value_le w (value_assign u v) = value_le w v" "value_ne w (value_assign u v) = value_ne w v"
  by (cases "kind v"; simp add: value_eq_def value_ge_def value_le_def value_ne_def compare_numbers_assign value_assign_fields
    string_kind_def cong: if_cong option.case_cong kind.case_cong)+

lemma value_ne_assign: "value_ne (value_assign u v) w = value_ne v w"
  by (cases "kind v") (simp_all add: value_ne_def compare_numbers_assign value_assign_fields string_kind_def
    cong: if_cong option.case_cong kind.case_cong)

lemma compare_assign:
  "compare opr (value_assign u v) (value_assign u' w) = compare opr v w"
  by (cases opr) (simp_all add: compare_def value_lt_def value_gt_def comparison_assign_right
    value_eq_assign value_ge_assign value_le_assign value_ne_assign)

lemma sound_string: "sound v \<Longrightarrow> kind v = t_symbol \<Longrightarrow> sound (set_kind t_string v)"
  by (cases v) (auto simp: sound_def flat_def set_kind_def split: option.splits)

lemma leaf_value_sound:
  assumes "all_values sound s p"
  shows "value_ok (leaf_value s left p)" "kind (leaf_value s left p) \<noteq> t_dynamic"
proof -
  have "sound (if isNull (deref s (entry p) r) then entry p else deref s (entry p) r)" for r
    using all_values_deref [OF assms, of r] all_values_deref [OF assms, of RefEntry] by (simp add: deref_def)
  then have "sound (let r = resolveCacheMiss s left (entry p) in if isNull (deref s (entry p) r) then entry p else deref s (entry p) r)"
    by (simp add: Let_def)
  then show "value_ok (leaf_value s left p)" "kind (leaf_value s left p) \<noteq> t_dynamic"
    unfolding leaf_value_def Let_def sound_def flat_def
    by (auto elim: value_ok_cases)
qed

lemma node_value_sound: "sound v \<Longrightarrow> node_value v = Inr (if kind v = t_dynamic then the (dyn_value v) else v)"
  by (auto simp: sound_def flat_def node_value_def dynamic_result_def)

lemma eval_tree_leaf:
  assumes "all_values sound s p" "is_leaf p"
  shows "eval_tree s left True t p = Inr (leaf_value s left p, t)"
proof -
  have "sound (deref s (entry p) r)" for r by (rule all_values_deref [OF assms(1)])
  moreover have "deref s (entry p) RefEntry = entry p" by (simp add: deref_def)
  ultimately show ?thesis
    using assms(2) node_value_sound
    by (cases p) (auto simp: is_leaf_def resolved_leaf_eq leaf_value_def resolve_def Let_def isNull_def)
qed

lemma sound_state_comparison:
  assumes "all_values sound s l" "all_values sound s r"
  shows "all_values sound s (fst (state_comparison s opr l r))" "all_values sound s (snd (state_comparison s opr l r))"
  using assms all_values_state_comparison [of sound s l r opr] sound_string by auto

lemma is_leaf_state_comparison:
  "is_leaf l \<Longrightarrow> is_leaf (fst (state_comparison s opr l r))" "is_leaf r \<Longrightarrow> is_leaf (snd (state_comparison s opr l r))"
  by (auto simp: is_leaf_def state_comparison_def set_entry_string_def split: option.splits)

lemma state_comparison_other: "opr \<noteq> opEQ \<Longrightarrow> opr \<noteq> opNE \<Longrightarrow> state_comparison s opr l r = (l, r)"
  by (simp add: state_comparison_def)

lemma apply_comparison:
  "comparison opr \<Longrightarrow> apply_operator s t opr a b lhs rhs = mapr (\<lambda>x. (Value_bool x, t)) (compare opr lhs rhs)"
  by (auto simp: comparison_def apply_operator_def compare_def)

lemma holds_comparison:
  "comparison opr \<Longrightarrow> holds s (Predicate (Some l) opr (Some r) e c n) \<longleftrightarrow>
     compare opr (leaf_value s True (fst (state_comparison s opr l r))) (leaf_value s False (snd (state_comparison s opr l r))) = Inr True"
  by (auto simp: comparison_def case_prod_beta)

lemma bValue_assign: "kind v = t_bool \<Longrightarrow> bValue (value_assign u v) = bValue v"
  by (simp add: value_assign_def)

text \<open>A condition has a boolean value, the one its parts determine.\<close>

lemma eval_tree_boolean:
  "boolean_form p \<Longrightarrow> all_values sound s p \<Longrightarrow>
   \<exists>v. eval_tree s left True t p = Inr (v, t) \<and> kind v = t_bool \<and> bValue v = Some (holds s p)"
proof (induction p arbitrary: left rule: boolean_form.induct)
  case (1 l opr r e c n)
  note ok = all_values_children(1) [OF 1(5)] all_values_children(2) [OF 1(5)]
  consider (cmp) "comparison opr" "is_leaf l" "is_leaf r"
    | (junct) "opr = opAND \<or> opr = opOR" "boolean_form l" "boolean_form r"
    | (neg) "opr = opNOT" "is_leaf l" "boolean_form r"
    using 1(4) by (auto simp: comparison_def)
  then show ?case
  proof cases
    case cmp
    note leaf = is_leaf_state_comparison(1) [OF cmp(2), of s opr r] is_leaf_state_comparison(2) [OF cmp(3), of s opr l]
    note ok' = sound_state_comparison [OF ok, of opr]
    obtain b where "compare opr (leaf_value s True (fst (state_comparison s opr l r)))
        (leaf_value s False (snd (state_comparison s opr l r))) = Inr b"
      using compare_defined leaf_value_sound(1) ok' by meson
    then show ?thesis
      using eval_tree_leaf [OF ok'(1) leaf(1)] eval_tree_leaf [OF ok'(2) leaf(2)]
      by (simp add: apply_comparison [OF cmp(1)] compare_assign holds_comparison [OF cmp(1)] Value_bool_def del: holds.simps)
  next
    case junct
    then obtain v w where "eval_tree s True True t l = Inr (v, t)" "kind v = t_bool" "bValue v = Some (holds s l)"
      "eval_tree s False True t r = Inr (w, t)" "kind w = t_bool" "bValue w = Some (holds s r)"
      using 1(1) [OF _ ok(1), of True] 1(2) [OF _ ok(2), of False] by blast
    then show ?thesis using junct(1)
      by (auto simp: state_comparison_other apply_operator_def value_and_def value_or_def bValue_assign Value_bool_def)
  next
    case neg
    then obtain w where "eval_tree s False True t r = Inr (w, t)" "kind w = t_bool" "bValue w = Some (holds s r)"
      using 1(3) [OF _ ok(2), of False] by blast
    then show ?thesis using neg(1) eval_tree_leaf [OF ok(1) neg(2)]
      by (auto simp: state_comparison_other apply_operator_def value_not_def bValue_assign Value_bool_def)
  qed
next
  case (2 opr r e c n)
  then obtain w where "eval_tree s False True t r = Inr (w, t)" "kind w = t_bool" "bValue w = Some (holds s r)"
    using 2(1) [OF _ all_values_children(2) [OF 2(3)], of False] by auto
  then show ?case using 2(2)
    by (auto simp: apply_operator_def value_not_def bValue_assign Value_bool_def)
next
  case (4 opr e c n)
  then have "leaf_value s left (Predicate None opr None e c n) = e" "value_ok e"
    by (auto simp: leaf_value_def resolveCacheMiss_def deref_def isNull_def all_values_def sound_def)
  moreover have "is_leaf (Predicate None opr None e c n)" using 4(1) by (simp add: is_leaf_def)
  ultimately show ?case using 4(1) eval_tree_leaf [OF 4(2)] by (auto elim: value_ok_cases)
qed simp

lemma is_leaf_shaped: "is_leaf p \<Longrightarrow> shaped p"
  by (cases p) (simp add: is_leaf_def)

lemma boolean_form_shaped: "boolean_form p \<Longrightarrow> shaped p"
  by (induction p rule: boolean_form.induct) (auto simp: is_leaf_shaped)

lemma eval_prepared:
  assumes "prep s True reevaluate p = Inr (ns, p')" "all_values flat s p"
  shows "eval_stack (Suc (length ns)) s t ns = Some (mapr (\<lambda>(v, t'). (v, [], t')) (eval_tree s True reevaluate t p))"
    and "run_predicate reevaluate s t p = Some (mapr (\<lambda>(v, t'). (v, t', p')) (eval_tree s True reevaluate t p))"
proof -
  show *: "eval_stack (Suc (length ns)) s t ns = Some (mapr (\<lambda>(v, t'). (v, [], t')) (eval_tree s True reevaluate t p))"
    using eval_stack_prep [OF assms, of "[]" "Suc (length ns)"] by simp
  show "run_predicate reevaluate s t p = Some (mapr (\<lambda>(v, t'). (v, t', p')) (eval_tree s True reevaluate t p))"
    unfolding run_predicate_def assms(1) sum.case prod.case *
    by (cases "eval_tree s True reevaluate t p") auto
qed

lemma all_values_mono: "all_values P s p \<Longrightarrow> (\<And>v. P v \<Longrightarrow> Q v) \<Longrightarrow> all_values Q s p"
  by (auto simp: all_values_def list.pred_mono_strong)

lemma example_sound: "all_values sound (example_scope (Value_long 3)) example_condition"
  by (simp add: all_values_def example_scope_def example_condition_def op_predicate_def leaf_predicate_def
    example_symbol_def sound_def flat_def value_simps long_bounds)

lemma example_shaped: "shaped example_condition" "boolean_form example_condition" "needs_reevaluation example_condition"
  by (simp_all add: example_condition_def op_predicate_def leaf_predicate_def comparison_def is_leaf_def)

lemma example_holds: "holds (example_scope (Value_long 3)) example_condition"
  by (simp add: example_condition_def op_predicate_def leaf_predicate_def leaf_value_def resolveCacheMiss_def
    state_comparison_def example_symbol_def example_scope_def deref_def isNull_def compare_def value_lt_def value_ge_def
    value_simps string_kind_def compare_numbers_def numeric_types_def)

section \<open>Properties\<close>

lemma condition_decided:
  assumes "predicate_of c = Some p" "boolean_form p" "needs_reevaluation p" "all_values sound s p"
  shows "\<exists>c'. Condition_call s t c = Some (Inr (holds s p, t, c'))"
proof -
  have "all_values flat s p" using assms(4) by (rule all_values_mono) (simp add: sound_def)
  then obtain p' where "run_predicate True s t p = Some (mapr (\<lambda>(v, t'). (v, t', p')) (eval_tree s True True t p))"
    using prep_shaped [OF boolean_form_shaped [OF assms(2)]] eval_prepared(2) by metis
  moreover obtain v where "eval_tree s True True t p = Inr (v, t)" "kind v = t_bool" "bValue v = Some (holds s p)"
    using eval_tree_boolean [OF assms(2,4)] by blast
  ultimately show ?thesis
    using assms(1,3) by (simp add: Condition_call_def Predicate_evaluate_def bValue_assign Let_def)
qed

text \<open>
  Claim C1. Evaluating a predicate by its stack gives what the direct evaluation of the tree
  gives, value, errors and new tokens alike, and uses up the whole stack.
\<close>

theorem stack_evaluation_is_tree_evaluation:
  assumes "shaped p" "all_values flat s p"
  shows "\<exists>ns p'. prep s True reevaluate p = Inr (ns, p') \<and>
    eval_stack (Suc (length ns)) s t ns = Some (mapr (\<lambda>(v, t'). (v, [], t')) (eval_tree s True reevaluate t p)) \<and>
    run_predicate reevaluate s t p = Some (mapr (\<lambda>(v, t'). (v, t', p')) (eval_tree s True reevaluate t p))"
  using prep_shaped [OF assms(1)] eval_prepared [OF _ assms(2)] by metis

theorem stack_evaluation_is_tree_evaluation_witness:
  "shaped example_condition \<and> all_values flat (example_scope (Value_long 3)) example_condition \<and>
   (\<exists>ns p'. prep (example_scope (Value_long 3)) True True example_condition = Inr (ns, p') \<and> length ns = 3 \<and>
     eval_stack 4 (example_scope (Value_long 3)) new_tokeniser ns =
       Some (mapr (\<lambda>(v, t'). (v, [], t')) (eval_tree (example_scope (Value_long 3)) True True new_tokeniser example_condition)))"
proof -
  have flat: "all_values flat (example_scope (Value_long 3)) example_condition"
    using example_sound by (rule all_values_mono) (simp add: sound_def)
  obtain ns p' where *: "prep (example_scope (Value_long 3)) True True example_condition = Inr (ns, p')"
    "eval_stack (Suc (length ns)) (example_scope (Value_long 3)) new_tokeniser ns =
       Some (mapr (\<lambda>(v, t'). (v, [], t')) (eval_tree (example_scope (Value_long 3)) True True new_tokeniser example_condition))"
    using stack_evaluation_is_tree_evaluation [OF example_shaped(1) flat] by blast
  moreover have "length ns = 3"
    using *(1) by (auto simp: example_condition_def op_predicate_def leaf_predicate_def state_comparison_def resolved_leaf_eq)
  ultimately show ?thesis using flat example_shaped(1) by (auto simp: numeral_eq_Suc)
qed

text \<open>
  Claim C3. Evaluation always ends: for every predicate, whatever its leaves resolve to and
  however its operands are nested, the evaluation of the stack returns a value or an error and
  never runs out of fuel.
\<close>

theorem evaluation_returns: "\<exists>r. run_predicate reevaluate s t p = Some r"
proof (cases "prep s True reevaluate p")
  case (Inr x)
  obtain ns p' where "x = (ns, p')" by (cases x)
  moreover obtain r where "eval_stack (Suc (length ns)) s t ns = Some r"
    using eval_stack_ends [of ns "Suc (length ns)"] by blast
  ultimately show ?thesis using Inr by (simp add: run_predicate_def del: eval_stack.simps(2))
qed (simp add: run_predicate_def)

text \<open>
  Claim C2. A condition built from comparisons of leaves with \<open>AND\<close>, \<open>OR\<close> and \<open>NOT\<close> is
  always decided: the call returns, without undefined behaviour, the truth value that the
  comparisons and the logical structure determine, when every value it can reach is well-formed.
\<close>

theorem conditions_are_decided:
  assumes "predicate_of c = Some p" "boolean_form p" "needs_reevaluation p" "all_values sound s p"
  shows "\<exists>c'. Condition_call s t c = Some (Inr (holds s p, t, c'))"
  using assms by (rule condition_decided)

theorem conditions_are_decided_witness:
  "\<exists>c'. Condition_call (example_scope (Value_long 3)) new_tokeniser
     \<lparr>predicate_of = Some example_condition, last_result = Value_empty\<rparr> = Some (Inr (True, new_tokeniser, c'))"
  using conditions_are_decided [OF _ example_shaped(2,3) example_sound,
      of "\<lparr>predicate_of = Some example_condition, last_result = Value_empty\<rparr>" new_tokeniser] example_holds by simp

text \<open>
  The complement operator, which the parser builds without a left operand, is never
  applied: the value of the expression is the empty value, whatever the operand is.
\<close>

lemma complement_is_ignored:
  "\<exists>p'. Evaluator_evaluate s t (Predicate None opNegate (Some r) Value_empty None True) = Some (Inr (Value_empty, t, p'))"
  by (simp add: Evaluator_evaluate_def run_predicate_def resolved_leaf_eq Let_def deref_def resolve_def
    resolveCacheMiss_def node_value_def)



end
