(* ===== verification/Cw_Timers.thy ===== *)
theory Cw_Timers
  imports Cw_Expression
begin

text \<open>
  The timer clauses of a predicate in \<open>src/iod/src/Expression.cpp\<close>: which comparisons mention
  a timer, and when the machine has to look at them again. \<open>scheduleTimerEvents\<close> walks over a
  predicate and keeps the earliest event; it evaluates the bounds that timers are compared with,
  which resolves and remembers their names.
\<close>

section \<open>Timer clauses\<close>

definition stringEndsWith :: "string \<Rightarrow> string \<Rightarrow> bool" where
  "stringEndsWith str subs \<longleftrightarrow> length subs \<le> length str \<and> drop (length str - length subs) str = subs"

definition is_TIMER :: "cw_value \<Rightarrow> bool" where
  "is_TIMER v \<longleftrightarrow> kind v = t_symbol \<and> token_id v = Some (clockwork_token ''TIMER'')"

definition is_machine_TIMER :: "cw_value \<Rightarrow> bool" where
  "is_machine_TIMER v \<longleftrightarrow> kind v = t_symbol \<and> stringEndsWith (sValue v) ''.TIMER''"

definition is_timer :: "cw_value \<Rightarrow> bool" where
  "is_timer v \<longleftrightarrow> is_TIMER v \<or> is_machine_TIMER v"

text \<open>\<open>usesTimer\<close> also assigns the value that the timer is compared with.\<close>

fun usesTimer :: "predicate \<Rightarrow> cw_value \<Rightarrow> (bool \<times> cw_value) res" where
  "usesTimer (Predicate (Some l) opr r e c n) timer_val =
     (if left_p l = None
      then if is_timer (entry l)
           then (case r of None \<Rightarrow> Inl NullPointer | Some q \<Rightarrow> Inr (True, value_assign timer_val (entry q)))
           else Inr (False, timer_val)
      else (case usesTimer l timer_val of
              Inl err \<Rightarrow> Inl err
            | Inr (True, tv) \<Rightarrow> Inr (True, tv)
            | Inr (False, tv) \<Rightarrow> (case r of None \<Rightarrow> Inl NullPointer | Some q \<Rightarrow> usesTimer q tv)))"
| "usesTimer (Predicate None opr r e c n) timer_val = Inr (is_TIMER e, timer_val)"

fun findTimerClauses :: "predicate \<Rightarrow> predicate list" where
  "findTimerClauses (Predicate l opr r e c n) =
     (case l of None \<Rightarrow> []
      | Some p \<Rightarrow> if left_p p = None
                 then if is_timer (entry p) then [Predicate l opr r e c n] else []
                 else findTimerClauses p) @
     (case r of None \<Rightarrow> []
      | Some p \<Rightarrow> if left_p p = None
                 then if is_timer (entry p) then [Predicate l opr r e c n] else []
                 else findTimerClauses p)"

definition getTimerValue :: "predicate \<Rightarrow> cw_value res" where
  "getTimerValue p = (case left_p p of None \<Rightarrow> Inl NullPointer
     | Some l \<Rightarrow> (case right_p p of None \<Rightarrow> Inl NullPointer
       | Some r \<Rightarrow> Inr (if is_timer (entry l) then entry r else if is_timer (entry r) then entry l else Value_empty)))"

section \<open>Scheduling\<close>

type_synonym timer_details = "int \<times> string"

definition MIN_TIMER :: int where
  "MIN_TIMER = - 100000"

text \<open>
  The bound of a clause: the time to schedule and the timer's value now. The conversion to an
  integer writes the time also when it fails; then the timer's value stays 0.
\<close>

definition scheduled_for :: "pred_op \<Rightarrow> int \<Rightarrow> int res" where
  "scheduled_for opr bound = (if opr = opGT \<or> opr = opLE then chk_long (bound + 1) else Inr bound)"

definition read_bound ::
  "scope \<Rightarrow> tokeniser \<Rightarrow> pred_op \<Rightarrow> int \<Rightarrow> predicate option \<Rightarrow> (int \<times> int \<times> predicate option \<times> tokeniser) res option" where
  "read_bound s t opr timer q =
     bindo (case q of None \<Rightarrow> Some (Inr (Value_empty, t, None))
            | Some p \<Rightarrow> map_option (mapr (\<lambda>(v, t', p'). (v, t', Some p'))) (Evaluator_evaluate s t p)) (\<lambda>(v, t', q').
     bindo (Some (asInteger v MIN_TIMER)) (\<lambda>(ok, bound).
     if ok then Some (mapr (\<lambda>x. (x, timer, q', t')) (scheduled_for opr bound))
     else Some (Inr (bound, 0, q', t'))))"

text \<open>The name of a machine is what stands before the first dot.\<close>

definition timed_machine :: "scope \<Rightarrow> cw_value \<Rightarrow> nat option" where
  "timed_machine s v = machine_named s (takeWhile (\<lambda>ch. ch \<noteq> CHR ''.'') (sValue v))"

record timer_clause =
  tc_found :: bool
  tc_scheduled :: int
  tc_current :: int
  tc_machine :: "nat option"
  tc_left :: "predicate option"
  tc_right :: "predicate option"
  tc_tokens :: tokeniser

text \<open>The clause at the root of a predicate, if it has one of the four forms with a timer.\<close>

definition root_clause ::
  "scope \<Rightarrow> tokeniser \<Rightarrow> predicate option \<Rightarrow> pred_op \<Rightarrow> predicate option \<Rightarrow> timer_clause res option" where
  "root_clause s t l opr r =
     (let none = \<lparr>tc_found = True, tc_scheduled = MIN_TIMER, tc_current = 0, tc_machine = None,
                  tc_left = l, tc_right = r, tc_tokens = t\<rparr>;
          on_left = (\<lambda>m timer. map_option (mapr (\<lambda>(x, now, r', t'). none\<lparr>tc_scheduled := x, tc_current := now,
                       tc_machine := m, tc_right := r', tc_tokens := t'\<rparr>)) (read_bound s t opr timer r));
          on_right = (\<lambda>m timer. map_option (mapr (\<lambda>(x, now, l', t'). none\<lparr>tc_scheduled := x, tc_current := now,
                       tc_machine := m, tc_left := l', tc_tokens := t'\<rparr>)) (read_bound s t opr timer l));
          lv = (case l of None \<Rightarrow> Value_empty | Some p \<Rightarrow> entry p);
          rv = (case r of None \<Rightarrow> Value_empty | Some p \<Rightarrow> entry p)
      in if l \<noteq> None \<and> is_TIMER lv \<and> r \<noteq> None then on_left None (self_timer s)
         else if l \<noteq> None \<and> is_machine_TIMER lv
         then (case timed_machine s lv of None \<Rightarrow> Some (Inr none) | Some m \<Rightarrow> on_left (Some m) (machine_timer s m))
         else if r \<noteq> None \<and> is_TIMER rv \<and> l \<noteq> None then on_right None (self_timer s)
         else if r \<noteq> None \<and> l \<noteq> None \<and> is_machine_TIMER rv
         then (case timed_machine s rv of None \<Rightarrow> Some (Inr none) | Some m \<Rightarrow> on_right (Some m) (machine_timer s m))
         else Some (Inr (none\<lparr>tc_found := False\<rparr>)))"

definition trigger_name :: "scope \<Rightarrow> nat option \<Rightarrow> string" where
  "trigger_name s m = ''Timer '' @ self_name s @ (case m of None \<Rightarrow> [] | Some k \<Rightarrow> '' '' @ machine_name s k)"

text \<open>The event of a clause, and whether the machine is to be checked at once instead.\<close>

definition clause_delay :: "timer_clause \<Rightarrow> int res" where
  "clause_delay tc = bindr (chk_long (tc_scheduled tc - tc_current tc)) (\<lambda>d. chk_long (d * 1000))"

definition keep_earliest :: "timer_details option \<Rightarrow> timer_details \<Rightarrow> timer_details option" where
  "keep_earliest earliest ev = (case earliest of
     None \<Rightarrow> Some ev | Some (d, lbl) \<Rightarrow> if fst ev < d then Some ev else Some (d, lbl))"

definition finish_clause ::
  "scope \<Rightarrow> timer_clause \<Rightarrow> timer_details option \<Rightarrow> bool \<Rightarrow> (timer_details option \<times> bool) res" where
  "finish_clause s tc earliest check =
     (if tc_scheduled tc = MIN_TIMER then Inr (earliest, check)
      else mapr (\<lambda>d. if 0 < d then (keep_earliest earliest (d, trigger_name s (tc_machine tc)), check)
                     else (earliest, check \<or> - 2000 \<le> d)) (clause_delay tc))"

lemma bindo_cong [fundef_cong]:
  "r = r' \<Longrightarrow> (\<And>x. r' = Some (Inr x) \<Longrightarrow> f x = f' x) \<Longrightarrow> bindo r f = bindo r' f'"
  by (cases r') (auto simp: bindo_def split: sum.splits)

lemma size_prep: "prep s left reevaluate p = Inr (ns, p') \<Longrightarrow> size p' = size p"
proof (induction s left reevaluate p arbitrary: ns p' rule: prep.induct)
  case (1 s left reevaluate l opr r e c n)
  then show ?case by (auto split: sum.splits)
next
  case (3 s left reevaluate opr r e c n)
  then show ?case by (auto simp: mapr_Inr_iff split: sum.splits if_splits)
next
  case (4 s left reevaluate opr e c n)
  then show ?case by (auto simp: mapr_Inr_iff split: if_splits)
qed simp

lemma size_evaluate: "Evaluator_evaluate s t p = Some (Inr (v, t', p')) \<Longrightarrow> size p' = size p"
  by (auto simp: Evaluator_evaluate_def run_predicate_def mapr_Inr_iff split: sum.splits dest: size_prep)

lemma size_read_bound:
  "read_bound s t opr timer q = Some (Inr (x, now, q', t')) \<Longrightarrow> map_option size q' = map_option size q"
  by (auto simp: read_bound_def bindo_def mapr_Inr_iff split: option.splits sum.splits if_splits dest!: size_evaluate)

lemma size_root_clause:
  "root_clause s t l opr r = Some (Inr tc) \<Longrightarrow>
   map_option size (tc_left tc) = map_option size l \<and> map_option size (tc_right tc) = map_option size r"
  by (auto simp: root_clause_def Let_def mapr_Inr_iff split: option.splits if_splits dest!: size_read_bound)

lemma root_clause_smaller:
  assumes "root_clause s t l opr r = Some (Inr tc)"
  shows "tc_left tc = Some p \<Longrightarrow> size p < Suc (size_option size l + size_option size r)"
    and "tc_right tc = Some p \<Longrightarrow> size p < Suc (size_option size l + size_option size r)"
  using size_root_clause [OF assms] by (cases l; cases r; simp)+

text \<open>
  \<open>scheduleTimerEvents\<close>: the earliest event so far goes in and out, with the mark that
  \<open>setNeedsCheck\<close> leaves. The left operand is entered when the root is no timer clause, the
  right operand always.
\<close>

function scheduleTimerEvents ::
  "scope \<Rightarrow> tokeniser \<Rightarrow> predicate \<Rightarrow> timer_details option \<Rightarrow> bool \<Rightarrow>
   (timer_details option \<times> bool \<times> tokeniser \<times> predicate) res option" where
  "scheduleTimerEvents s t (Predicate l opr r e c n) earliest check =
     bindo (root_clause s t l opr r) (\<lambda>tc.
     bindo (case tc_left tc of
              None \<Rightarrow> Some (Inr (earliest, check, tc_tokens tc, None))
            | Some p \<Rightarrow> if tc_found tc then Some (Inr (earliest, check, tc_tokens tc, Some p))
                       else bindo (scheduleTimerEvents s (tc_tokens tc) p earliest check)
                              (\<lambda>(ear, chk, t', p'). Some (Inr (ear, chk, t', Some p')))) (\<lambda>(ear1, chk1, t1, l').
     bindo (case tc_right tc of
              None \<Rightarrow> Some (Inr (ear1, chk1, t1, None))
            | Some p \<Rightarrow> bindo (scheduleTimerEvents s t1 p ear1 chk1)
                         (\<lambda>(ear, chk, t', p'). Some (Inr (ear, chk, t', Some p')))) (\<lambda>(ear2, chk2, t2, r').
     Some (mapr (\<lambda>(ear3, chk3). (ear3, chk3, t2, Predicate l' opr r' e c n)) (finish_clause s tc ear2 chk2)))))"
  by pat_completeness auto
termination
  by (relation "measure (\<lambda>(s, t, p, earliest, check). size p)") (auto intro: root_clause_smaller)

text \<open>All events of a predicate that lie ahead, in the order in which they are met.\<close>

definition clause_events :: "scope \<Rightarrow> timer_clause \<Rightarrow> timer_details list res" where
  "clause_events s tc =
     (if tc_scheduled tc = MIN_TIMER then Inr []
      else mapr (\<lambda>d. if 0 < d then [(d, trigger_name s (tc_machine tc))] else []) (clause_delay tc))"

function timer_events :: "scope \<Rightarrow> tokeniser \<Rightarrow> predicate \<Rightarrow> (timer_details list \<times> tokeniser) res option" where
  "timer_events s t (Predicate l opr r e c n) =
     bindo (root_clause s t l opr r) (\<lambda>tc.
     bindo (case tc_left tc of
              None \<Rightarrow> Some (Inr ([], tc_tokens tc))
            | Some p \<Rightarrow> if tc_found tc then Some (Inr ([], tc_tokens tc)) else timer_events s (tc_tokens tc) p) (\<lambda>(es1, t1).
     bindo (case tc_right tc of
              None \<Rightarrow> Some (Inr ([], t1))
            | Some p \<Rightarrow> timer_events s t1 p) (\<lambda>(es2, t2).
     Some (mapr (\<lambda>es. (es1 @ es2 @ es, t2)) (clause_events s tc)))))"
  by pat_completeness auto
termination
  by (relation "measure (\<lambda>(s, t, p). size p)") (auto intro: root_clause_smaller)

text \<open>The truth of a comparison of a timer with a bound.\<close>

definition timer_test :: "pred_op \<Rightarrow> int \<Rightarrow> int \<Rightarrow> bool" where
  "timer_test opr x y = (case opr of opGE \<Rightarrow> y \<le> x | opGT \<Rightarrow> y < x | opLE \<Rightarrow> x \<le> y | opLT \<Rightarrow> x < y | _ \<Rightarrow> x = y)"

definition ordering_op :: "pred_op \<Rightarrow> bool" where
  "ordering_op opr \<longleftrightarrow> opr = opGE \<or> opr = opGT \<or> opr = opLE \<or> opr = opLT"

definition example_timer :: cw_value where
  "example_timer = Value t_symbol None None None ''TIMER'' (Some (clockwork_token ''TIMER'')) None"

definition example_timers :: predicate where
  "example_timers = op_predicate (op_predicate (leaf_predicate example_timer) opGE (leaf_predicate (Value_long 10))) opAND
     (op_predicate (leaf_predicate example_timer) opGT (leaf_predicate (Value_long 5)))"

section \<open>Lemmas\<close>

text \<open>The walk keeps the earliest of the events it meets.\<close>

lemma finish_clause_events:
  "clause_events s tc = Inr es \<Longrightarrow> \<exists>chk. finish_clause s tc earliest check = Inr (foldl keep_earliest earliest es, chk)"
  by (cases "tc_scheduled tc = MIN_TIMER"; cases "clause_delay tc"; cases "0 < projr (clause_delay tc)")
    (simp_all add: clause_events_def finish_clause_def, force+)

lemma bindo_Inr_iff: "bindo r f = Some (Inr y) \<longleftrightarrow> (\<exists>x. r = Some (Inr x) \<and> f x = Some (Inr y))"
  by (auto simp: bindo_def split: option.splits sum.splits)

lemma bindo_InrE:
  assumes "bindo r f = Some (Inr y)"
  obtains x where "r = Some (Inr x)" "f x = Some (Inr y)"
  using bindo_Inr_iff [THEN iffD1, OF assms] by blast

lemma bindo_pairE:
  assumes "bindo r (\<lambda>(a, b). f a b) = Some (Inr y)"
  obtains a b where "r = Some (Inr (a, b))" "f a b = Some (Inr y)"
  using assms by (rule bindo_InrE) (auto split: prod.splits)

lemma schedule_timer_events:
  "timer_events s t p = Some (Inr (es, t')) \<Longrightarrow>
   \<exists>chk p'. scheduleTimerEvents s t p earliest check = Some (Inr (foldl keep_earliest earliest es, chk, t', p'))"
proof (induction s t p earliest check arbitrary: es t' rule: scheduleTimerEvents.induct)
  case (1 s t l opr r e c n earliest check)
  let ?left = "\<lambda>tc. case tc_left tc of None \<Rightarrow> Some (Inr (earliest, check, tc_tokens tc, None))
    | Some p \<Rightarrow> if tc_found tc then Some (Inr (earliest, check, tc_tokens tc, Some p))
       else bindo (scheduleTimerEvents s (tc_tokens tc) p earliest check)
              (\<lambda>(ear, chk, t', p'). Some (Inr (ear, chk, t', Some p')))"
  obtain tc es1 t1 es2 es3 where tc: "root_clause s t l opr r = Some (Inr tc)"
    and left: "(case tc_left tc of None \<Rightarrow> Some (Inr ([], tc_tokens tc))
            | Some p \<Rightarrow> if tc_found tc then Some (Inr ([], tc_tokens tc)) else timer_events s (tc_tokens tc) p) = Some (Inr (es1, t1))"
    and right: "(case tc_right tc of None \<Rightarrow> Some (Inr ([], t1)) | Some p \<Rightarrow> timer_events s t1 p) = Some (Inr (es2, t'))"
    and last: "clause_events s tc = Inr es3" "es = es1 @ es2 @ es3"
    using 1(3) unfolding timer_events.simps
    by (elim bindo_InrE bindo_pairE) (simp only: option.inject mapr_Inr_iff prod.inject, blast)
  obtain chk1 l' where l: "?left tc = Some (Inr (foldl keep_earliest earliest es1, chk1, t1, l'))"
  proof (cases "tc_left tc = None \<or> tc_found tc")
    case False
    then obtain q where q: "tc_left tc = Some q" "\<not> tc_found tc" "timer_events s (tc_tokens tc) q = Some (Inr (es1, t1))"
      using left by auto
    then obtain chk p' where "scheduleTimerEvents s (tc_tokens tc) q earliest check =
        Some (Inr (foldl keep_earliest earliest es1, chk, t1, p'))" using 1(1) [OF tc] by blast
    then show thesis using q by (intro that) simp
  qed (use left that in \<open>auto split: option.splits\<close>)
  obtain chk2 r' where r: "(case tc_right tc of None \<Rightarrow> Some (Inr (foldl keep_earliest earliest es1, chk1, t1, None))
      | Some p \<Rightarrow> bindo (scheduleTimerEvents s t1 p (foldl keep_earliest earliest es1) chk1)
           (\<lambda>(ear, chk, t', p'). Some (Inr (ear, chk, t', Some p')))) =
      Some (Inr (foldl keep_earliest earliest (es1 @ es2), chk2, t', r'))"
  proof (cases "tc_right tc")
    case (Some q)
    then have q: "timer_events s t1 q = Some (Inr (es2, t'))" using right by simp
    then obtain chk p' where "scheduleTimerEvents s t1 q (foldl keep_earliest earliest es1) chk1 =
        Some (Inr (foldl keep_earliest (foldl keep_earliest earliest es1) es2, chk, t', p'))"
      using 1(2) [OF tc l refl refl refl Some] by blast
    then show thesis using Some by (intro that) simp
  qed (use right that in auto)
  obtain chk3 where "finish_clause s tc (foldl keep_earliest earliest (es1 @ es2)) chk2 = Inr (foldl keep_earliest earliest es, chk3)"
    using finish_clause_events [OF last(1)] last(2) by (metis append_assoc foldl_append)
  then show ?case by (simp only: scheduleTimerEvents.simps tc l r bindo_simps prod.case mapr.simps) blast
qed

lemma is_TIMER_example [simp]: "is_TIMER example_timer" "\<not> is_TIMER (Value_long n)" "\<not> is_machine_TIMER (Value_long n)"
    "\<not> is_TIMER Value_empty" "\<not> is_machine_TIMER Value_empty"
  by (simp_all add: is_TIMER_def is_machine_TIMER_def example_timer_def)

lemma evaluate_constant:
  "\<exists>p'. Evaluator_evaluate s t (leaf_predicate (Value_long n)) = Some (Inr (Value_long n, t, p')) \<and> left_p p' = None \<and> right_p p' = None \<and> entry p' = Value_long n \<and> pop p' = opNone"
  by (simp add: Evaluator_evaluate_def run_predicate_def leaf_predicate_def resolved_leaf_eq resolve_def Let_def
    resolveCacheMiss_def deref_def node_value_def)

lemmas timer_example_simps = op_predicate_def leaf_predicate_def root_clause_def Let_def read_bound_def clause_events_def
  clause_delay_def trigger_name_def example_scope_def Evaluator_evaluate_def run_predicate_def resolved_leaf_eq resolve_def
  resolveCacheMiss_def deref_def node_value_def scheduled_for_def chk_long_def in_long_def long_bounds MIN_TIMER_def Value_long_def

lemma keep_earliest_least:
  "foldl keep_earliest (Some ev) es = Some (d, lbl) \<Longrightarrow>
   (d, lbl) \<in> set (ev # es) \<and> (\<forall>x \<in> set (ev # es). d \<le> fst x)"
proof (induction es arbitrary: ev)
  case (Cons x xs)
  define y where "y = (if fst x < fst ev then x else ev)"
  have "keep_earliest (Some ev) x = Some y" "y = ev \<or> y = x" "fst y \<le> fst ev" "fst y \<le> fst x"
    by (auto simp: keep_earliest_def y_def split: prod.splits)
  then show ?case using Cons.IH [of y] Cons.prems by fastforce
qed auto

lemma keep_earliest_None: "foldl keep_earliest (Some ev) es \<noteq> None"
  by (induction es arbitrary: ev) (auto simp: keep_earliest_def split: prod.splits)

text \<open>The bound of a clause evaluates to an integer.\<close>

lemma read_bound_integer:
  assumes "Evaluator_evaluate s t b = Some (Inr (v, t', b'))" "asInteger v MIN_TIMER = Inr (True, n)"
  shows "read_bound s t opr timer (Some b) = Some (mapr (\<lambda>x. (x, timer, Some b', t')) (scheduled_for opr n))"
  using assms by (simp add: read_bound_def)

lemma scheduled_for_change:
  assumes "ordering_op opr" "in_long n" "n < LONG_MAX"
  shows "\<exists>x. scheduled_for opr n = Inr x \<and> timer_test opr (x - 1) n \<noteq> timer_test opr x n \<and>
    timer_test opr n (x - 1) = timer_test opr n x"
  using assms by (auto simp: ordering_op_def scheduled_for_def timer_test_def chk_long_def in_long_def)

lemma usesTimer_right_operand:
  assumes "left_p l = None" "\<not> is_timer (entry l)" "left_p r = None" "is_timer (entry r)"
  shows "usesTimer (op_predicate l opr r) tv = Inr (False, tv)"
    and "findTimerClauses (op_predicate l opr r) = [op_predicate l opr r]"
  using assms by (simp_all add: op_predicate_def)

section \<open>Properties\<close>

text \<open>
  Claim C5. Scheduling the timers of a predicate returns the earliest of the events that lie
  ahead of its clauses, and none exactly when there is no such event.
\<close>

theorem earliest_timer_event:
  assumes "timer_events s t p = Some (Inr (es, t'))"
  shows "\<exists>e chk p'. scheduleTimerEvents s t p None check = Some (Inr (e, chk, t', p')) \<and>
    (e = None \<longleftrightarrow> es = []) \<and>
    (\<forall>d lbl. e = Some (d, lbl) \<longrightarrow> (d, lbl) \<in> set es \<and> (\<forall>ev \<in> set es. d \<le> fst ev))"
proof -
  obtain chk p' where run: "scheduleTimerEvents s t p None check = Some (Inr (foldl keep_earliest None es, chk, t', p'))"
    using schedule_timer_events [OF assms] by blast
  show ?thesis
  proof (cases es)
    case (Cons ev evs)
    then have "foldl keep_earliest None es = foldl keep_earliest (Some ev) evs" by (simp add: keep_earliest_def)
    then show ?thesis
      using run keep_earliest_least [of ev evs] keep_earliest_None [of ev evs] Cons by auto
  qed (use run in auto)
qed

theorem earliest_timer_event_witness:
  "timer_events (example_scope Value_empty) new_tokeniser example_timers =
     Some (Inr ([(10000, ''Timer M''), (6000, ''Timer M'')], new_tokeniser)) \<and>
   (\<exists>chk p'. scheduleTimerEvents (example_scope Value_empty) new_tokeniser example_timers None False =
     Some (Inr (Some (6000, ''Timer M''), chk, new_tokeniser, p')))"
proof -
  have *: "timer_events (example_scope Value_empty) new_tokeniser example_timers =
     Some (Inr ([(10000, ''Timer M''), (6000, ''Timer M'')], new_tokeniser))"
    by (simp add: example_timers_def timer_example_simps)
  then show ?thesis
    using earliest_timer_event [OF *, of False] by fastforce
qed

text \<open>
  Claim C6. The time an event is scheduled for is right when the timer is the left operand: the
  comparison changes its truth value exactly there. With the timer on the right, the same
  adjustment is made without mirroring the operator, and the truth value does not change at the
  scheduled time, for any of the four orderings.
\<close>

theorem timer_event_times:
  assumes "ordering_op opr" "in_long n" "n < LONG_MAX" "is_TIMER (entry tm)" "\<not> is_timer (entry b)"
    and "Evaluator_evaluate s t b = Some (Inr (v, t', b'))" "asInteger v MIN_TIMER = Inr (True, n)"
  shows "\<exists>x tc tc'.
    root_clause s t (Some tm) opr (Some b) = Some (Inr tc) \<and> tc_scheduled tc = x \<and>
    timer_test opr (x - 1) n \<noteq> timer_test opr x n \<and>
    root_clause s t (Some b) opr (Some tm) = Some (Inr tc') \<and> tc_scheduled tc' = x \<and>
    timer_test opr n (x - 1) = timer_test opr n x"
  using scheduled_for_change [OF assms(1-3)] read_bound_integer [OF assms(6,7)] assms(4,5)
  by (auto simp: root_clause_def Let_def is_timer_def)

theorem timer_event_times_witness:
  "\<exists>tc tc'. root_clause (example_scope Value_empty) new_tokeniser (Some (leaf_predicate example_timer)) opGE
      (Some (leaf_predicate (Value_long 10))) = Some (Inr tc) \<and> tc_scheduled tc = 10 \<and>
    root_clause (example_scope Value_empty) new_tokeniser (Some (leaf_predicate (Value_long 10))) opGE
      (Some (leaf_predicate example_timer)) = Some (Inr tc') \<and> tc_scheduled tc' = 10 \<and>
    timer_test opGE 10 9 = timer_test opGE 10 10"
proof -
  obtain p' where ev: "Evaluator_evaluate (example_scope Value_empty) new_tokeniser (leaf_predicate (Value_long 10)) =
      Some (Inr (Value_long 10, new_tokeniser, p'))"
    using evaluate_constant by blast
  have bound: "asInteger (Value_long 10) MIN_TIMER = Inr (True, 10)" by (simp add: Value_long_def)
  have "ordering_op opGE" "in_long 10" "10 < LONG_MAX" "is_TIMER (entry (leaf_predicate example_timer))"
    "\<not> is_timer (entry (leaf_predicate (Value_long 10)))"
    by (simp_all add: ordering_op_def in_long_def long_bounds leaf_predicate_def is_timer_def)
  from timer_event_times [OF this ev bound] obtain x tc tc' where
    *: "root_clause (example_scope Value_empty) new_tokeniser (Some (leaf_predicate example_timer)) opGE
      (Some (leaf_predicate (Value_long 10))) = Some (Inr tc)" "tc_scheduled tc = x"
    "root_clause (example_scope Value_empty) new_tokeniser (Some (leaf_predicate (Value_long 10))) opGE
      (Some (leaf_predicate example_timer)) = Some (Inr tc')" "tc_scheduled tc' = x"
    and change: "timer_test opGE (x - 1) 10 \<noteq> timer_test opGE x 10" by blast
  from change have "x = 10" by (auto simp: timer_test_def)
  then show ?thesis using * by (simp add: timer_test_def)
qed

end
