(* ===== verification/Cw_Checks.thy ===== *)
theory Cw_Checks
  imports Cw_Prelude
begin

text \<open>
  Which machines are to be processed next (\<open>src/iod/src/MachineInstance.cpp\<close>,
  \<open>SharedWorkSet.cpp\<close>, \<open>ProcessingThread.cpp\<close>): a request for a check marks a machine, queues
  it, and passes the request on to the machines that depend on a list or a reference. The
  dependencies may form cycles. Machines are numbered; a set of machines is a list in the order
  of the iteration or a set; counters are unbounded.
\<close>

section \<open>Machines and work sets\<close>

datatype class_kind = List_Class | Reference_Class | Other_Class

record package =
  sender :: nat
  message :: string
  needs_receipt :: bool

record mach =
  has_class :: bool          \<comment> \<open>\<open>state_machine\<close> is set\<close>
  class_kind :: class_kind
  allow_auto_states :: bool
  is_enabled :: bool
  needs_check :: nat
  next_poll :: int
  active_actions :: "nat list"
  mail_queue :: "package list"
  has_work :: bool

record net =
  all_machines :: "nat list"
  machines :: "nat \<Rightarrow> mach"
  depends :: "nat \<Rightarrow> nat list"
  busy_machines :: "nat set"
  pending_state_change :: "nat set"
  runnable :: "nat set"
  num_machines_with_work :: nat
  total_machines_needing_check :: nat
  pending_events :: "package list"

definition work_add :: "nat \<Rightarrow> net \<Rightarrow> net" where
  "work_add i s = s\<lparr>busy_machines := insert i (busy_machines s)\<rparr>"

definition work_remove :: "nat \<Rightarrow> net \<Rightarrow> net" where
  "work_remove i s = s\<lparr>busy_machines := busy_machines s - {i}\<rparr>"

definition activate :: "nat \<Rightarrow> net \<Rightarrow> net" where
  "activate i s = s\<lparr>runnable := insert i (runnable s)\<rparr>"

definition deactivate :: "nat \<Rightarrow> net \<Rightarrow> net" where
  "deactivate i s = s\<lparr>runnable := runnable s - {i}\<rparr>"

definition is_pending :: "nat \<Rightarrow> net \<Rightarrow> bool" where
  "is_pending i s \<longleftrightarrow> i \<in> runnable s"

definition queuedForStableStateTest :: "nat \<Rightarrow> net \<Rightarrow> bool" where
  "queuedForStableStateTest i s \<longleftrightarrow> i \<in> pending_state_change s"

definition needsCheck :: "nat \<Rightarrow> net \<Rightarrow> bool" where
  "needsCheck i s \<longleftrightarrow> needs_check (machines s i) \<noteq> 0"

definition resetNeedsCheck :: "nat \<Rightarrow> net \<Rightarrow> net" where
  "resetNeedsCheck i s = s\<lparr>machines := (machines s)(i := (machines s i)\<lparr>needs_check := 0\<rparr>)\<rparr>"

definition workToDo :: "net \<Rightarrow> bool" where
  "workToDo s \<longleftrightarrow> pending_events s \<noteq> [] \<or> busy_machines s \<noteq> {} \<or> pending_state_change s \<noteq> {} \<or>
     0 < num_machines_with_work s + total_machines_needing_check s"

definition forceIdleCheck :: "net \<Rightarrow> net" where
  "forceIdleCheck s = s\<lparr>num_machines_with_work := num_machines_with_work s + 1\<rparr>"

definition checkActions :: "nat \<Rightarrow> net \<Rightarrow> net" where
  "checkActions i s = activate i (work_add i
     (s\<lparr>num_machines_with_work := num_machines_with_work s + 1,
       machines := (machines s)(i := (machines s i)\<lparr>has_work := True\<rparr>)\<rparr>))"

definition addDependancy :: "nat \<Rightarrow> nat option \<Rightarrow> net \<Rightarrow> net" where
  "addDependancy i m s = (case m of None \<Rightarrow> s | Some j \<Rightarrow>
     if j \<noteq> i \<and> j \<notin> set (depends s i) then s\<lparr>depends := (depends s)(i := insort j (depends s i))\<rparr> else s)"

definition removeDependancy :: "nat \<Rightarrow> nat option \<Rightarrow> net \<Rightarrow> net" where
  "removeDependancy i m s = (case m of None \<Rightarrow> s | Some j \<Rightarrow>
     if j \<noteq> i \<and> j \<in> set (depends s i) then s\<lparr>depends := (depends s)(i := remove1 j (depends s i))\<rparr> else s)"

section \<open>Requesting a check\<close>

datatype work_queue = Action_Processing | State_Checks

definition queue_for :: "('a) mach_scheme \<Rightarrow> work_queue" where
  "queue_for m = (if active_actions m \<noteq> [] \<or> mail_queue m \<noteq> [] then Action_Processing
     else if allow_auto_states m then State_Checks else Action_Processing)"

definition passes_on :: "('a) mach_scheme \<Rightarrow> bool" where
  "passes_on m \<longleftrightarrow> class_kind m = List_Class \<or> class_kind m = Reference_Class"

definition mark_mach :: "('a) mach_scheme \<Rightarrow> ('a) mach_scheme" where
  "mark_mach m = m\<lparr>needs_check := needs_check m + 1, next_poll := 0\<rparr>"

definition mark_check :: "nat \<Rightarrow> net \<Rightarrow> net" where
  "mark_check i s =
     (let m = machines s i;
          s1 = (if needs_check m = 0 then s\<lparr>total_machines_needing_check := total_machines_needing_check s + 1\<rparr> else s);
          s2 = s1\<lparr>machines := (machines s1)(i := mark_mach m)\<rparr>
      in activate i (case queue_for m of
           Action_Processing \<Rightarrow> work_add i s2
         | State_Checks \<Rightarrow> s2\<lparr>pending_state_change := insert i (pending_state_change s2)\<rparr>))"

text \<open>The recursion over the dependent machines, with the depth it may reach.\<close>

fun setNeedsCheck :: "nat \<Rightarrow> nat \<Rightarrow> net \<Rightarrow> net option"
and check_dependants :: "nat \<Rightarrow> nat list \<Rightarrow> net \<Rightarrow> net option" where
  "setNeedsCheck 0 i s = None"
| "setNeedsCheck (Suc n) i s =
     (let m = machines s i in
      if \<not> has_class m \<or> \<not> is_enabled m then Some s
      else if passes_on m then check_dependants n (depends s i) (mark_check i s)
      else Some (mark_check i s))"
| "check_dependants n [] s = Some s"
| "check_dependants n (d # ds) s =
     (if is_enabled (machines s d) \<and> needs_check (machines s d) < 2
      then Option.bind (setNeedsCheck n d s) (check_dependants n ds)
      else check_dependants n ds s)"

text \<open>A depth of twice the number of machines is enough for every network, see below.\<close>

definition request_check :: "nat \<Rightarrow> net \<Rightarrow> net res" where
  "request_check i s = (case setNeedsCheck (Suc (2 * length (all_machines s))) i s of None \<Rightarrow> Inl Aborted | Some t \<Rightarrow> Inr t)"

definition Receiver_enqueue :: "package \<Rightarrow> ('a) mach_scheme \<Rightarrow> ('a) mach_scheme" where
  "Receiver_enqueue p m = m\<lparr>mail_queue := mail_queue m @ [p], has_work := True\<rparr>"

definition hasPending :: "string \<Rightarrow> ('a) mach_scheme \<Rightarrow> bool" where
  "hasPending msg m \<longleftrightarrow> list_ex (\<lambda>p. message p = msg) (mail_queue m)"

definition enqueue :: "nat \<Rightarrow> package \<Rightarrow> net \<Rightarrow> net res" where
  "enqueue i p s = request_check i (s\<lparr>machines := (machines s)(i := Receiver_enqueue p (machines s i))\<rparr>)"

section \<open>Reference notions\<close>

definition marked :: "net \<Rightarrow> nat \<Rightarrow> bool" where
  "marked s i \<longleftrightarrow> 0 < needs_check (machines s i)"

text \<open>A machine that takes requests, and one that also passes them on.\<close>

definition takes :: "net \<Rightarrow> nat \<Rightarrow> bool" where
  "takes s i \<longleftrightarrow> has_class (machines s i) \<and> is_enabled (machines s i)"

definition passes :: "net \<Rightarrow> nat \<Rightarrow> bool" where
  "passes s i \<longleftrightarrow> takes s i \<and> passes_on (machines s i)"

inductive requests :: "net \<Rightarrow> nat \<Rightarrow> nat \<Rightarrow> bool" for s i where
  self: "requests s i i"
| step: "requests s i j \<Longrightarrow> passes s j \<Longrightarrow> k \<in> set (depends s j) \<Longrightarrow> requests s i k"

text \<open>Every marked machine outside \<open>X\<close> that passes requests on has done so.\<close>

definition passed_on :: "nat set \<Rightarrow> net \<Rightarrow> bool" where
  "passed_on X s \<longleftrightarrow> (\<forall>j. j \<notin> X \<longrightarrow> passes s j \<longrightarrow> marked s j \<longrightarrow> (\<forall>k\<in>set (depends s j). takes s k \<longrightarrow> marked s k))"

text \<open>How often the machines of \<open>A\<close> can still be visited through a dependency.\<close>

definition visits_left :: "nat set \<Rightarrow> net \<Rightarrow> nat" where
  "visits_left A s = (\<Sum>j\<in>A. 2 - needs_check (machines s j))"

text \<open>The machines only depend on machines of the program.\<close>

definition linked :: "net \<Rightarrow> bool" where
  "linked s \<longleftrightarrow> (\<forall>i\<in>set (all_machines s). set (depends s i) \<subseteq> set (all_machines s))"

text \<open>What no request changes, and that marks stay.\<close>

definition same_net :: "net \<Rightarrow> net \<Rightarrow> bool" where
  "same_net s t \<longleftrightarrow> depends t = depends s \<and> all_machines t = all_machines s \<and>
     num_machines_with_work t = num_machines_with_work s \<and> pending_events t = pending_events s \<and>
     (\<forall>j. takes t j = takes s j \<and> passes t j = passes s j \<and> needs_check (machines s j) \<le> needs_check (machines t j) \<and>
        active_actions (machines t j) = active_actions (machines s j) \<and>
        mail_queue (machines t j) = mail_queue (machines s j) \<and> has_work (machines t j) = has_work (machines s j))"

text \<open>Two lists that depend on each other, and a machine that depends on the second.\<close>

definition example_mach :: "class_kind \<Rightarrow> mach" where
  "example_mach k = \<lparr>has_class = True, class_kind = k, allow_auto_states = True, is_enabled = True, needs_check = 0,
     next_poll = 100, active_actions = [], mail_queue = [], has_work = False\<rparr>"

definition example_net :: net where
  "example_net = \<lparr>all_machines = [0, 1, 2], machines = (\<lambda>i. example_mach (if i < 2 then List_Class else Other_Class)),
     depends = (\<lambda>i. if i = 0 then [1] else if i = 1 then [0, 2] else []), busy_machines = {},
     pending_state_change = {}, runnable = {}, num_machines_with_work = 0, total_machines_needing_check = 0,
     pending_events = []\<rparr>"

section \<open>Lemmas\<close>

lemma depends_mark_check [simp]: "depends (mark_check i s) = depends s"
  by (simp add: mark_check_def Let_def activate_def work_add_def split: work_queue.split)

lemma mark_check_frame [simp]:
  "all_machines (mark_check i s) = all_machines s"
  "num_machines_with_work (mark_check i s) = num_machines_with_work s"
  "pending_events (mark_check i s) = pending_events s"
  by (simp_all add: mark_check_def Let_def activate_def work_add_def split: work_queue.split)

lemma machines_mark_check [simp]: "machines (mark_check i s) = (machines s)(i := mark_mach (machines s i))"
  by (simp add: mark_check_def Let_def activate_def work_add_def split: work_queue.split)

lemma same_net_refl [simp]: "same_net s s"
  by (simp add: same_net_def)

lemma same_net_trans: "same_net s t \<Longrightarrow> same_net t u \<Longrightarrow> same_net s u"
  by (auto simp: same_net_def intro: order_trans)

lemma same_net_mark [simp]: "same_net s (mark_check i s)"
  by (simp add: same_net_def takes_def passes_def passes_on_def mark_mach_def)

lemma same_net_marked: "same_net s t \<Longrightarrow> marked s j \<Longrightarrow> marked t j"
  unfolding same_net_def marked_def by (meson less_le_trans)

lemma same_net_check:
  "setNeedsCheck n i s = Some t \<Longrightarrow> same_net s t"
  "check_dependants n ds s = Some t \<Longrightarrow> same_net s t"
proof (induction n i s and n ds s arbitrary: t and t rule: setNeedsCheck_check_dependants.induct)
  case (2 n i s)
  then show ?case
    by (auto simp: Let_def split: if_splits intro: same_net_trans [OF same_net_mark])
next
  case (4 n d ds s)
  then show ?case
    by (auto split: if_splits bind_splits intro: same_net_trans)
qed simp_all

lemma visits_left_mono: "same_net s t \<Longrightarrow> visits_left A t \<le> visits_left A s"
  unfolding visits_left_def same_net_def by (intro sum_mono) (simp add: diff_le_mono2)

lemma visits_left_mark:
  assumes "finite A" "i \<in> A" "needs_check (machines s i) < 2"
  shows "visits_left A (mark_check i s) < visits_left A s"
  unfolding visits_left_def
  by (rule sum_strict_mono_ex1) (use assms in \<open>auto simp: mark_mach_def\<close>)

lemma visits_left_bound: "visits_left A s \<le> 2 * card A"
  unfolding visits_left_def using sum_bounded_above [of A "\<lambda>j. 2 - needs_check (machines s j)" 2] by simp

lemma visits_left_pos: "finite A \<Longrightarrow> i \<in> A \<Longrightarrow> needs_check (machines s i) < 2 \<Longrightarrow> 0 < visits_left A s"
  unfolding visits_left_def by (rule sum_pos2) auto

text \<open>The recursion ends once every machine has been marked twice.\<close>

lemma enough_depth:
  assumes "finite A"
  shows "\<lbrakk>\<And>j. j \<in> A \<Longrightarrow> set (depends s j) \<subseteq> A; i \<in> A; needs_check (machines s i) < 2; visits_left A s \<le> n\<rbrakk>
      \<Longrightarrow> setNeedsCheck n i s \<noteq> None"
    and "\<lbrakk>\<And>j. j \<in> A \<Longrightarrow> set (depends s j) \<subseteq> A; set ds \<subseteq> A; visits_left A s \<le> n\<rbrakk>
      \<Longrightarrow> check_dependants n ds s \<noteq> None"
proof (induction n i s and n ds s rule: setNeedsCheck_check_dependants.induct)
  case (1 i s)
  then show ?case
    using visits_left_pos [OF assms, of i s] by simp
next
  case (2 n i s)
  have "visits_left A (mark_check i s) \<le> n"
    using visits_left_mark [OF assms 2(3,4)] 2(5) by simp
  then show ?case
    using 2(1) [OF refl] 2(2,3) by (simp add: Let_def)
next
  case (3 n s)
  then show ?case by simp
next
  case (4 n d ds s)
  show ?case
  proof (cases "is_enabled (machines s d) \<and> needs_check (machines s d) < 2")
    case True
    then obtain t where t: "setNeedsCheck n d s = Some t"
      using 4(1) [OF True] 4(4-6) by auto
    note same = same_net_check(1) [OF t]
    have "check_dependants n ds t \<noteq> None"
      using 4(2) [OF True t] 4(4-6) visits_left_mono [OF same, of A] same by (simp add: same_net_def)
    then show ?thesis
      using True t by simp
  next
    case False
    then show ?thesis
      using 4(3) [OF False] 4(4-6) by auto
  qed
qed

lemma passed_on_mark: "passed_on X s \<Longrightarrow> passed_on (insert i X) (mark_check i s)"
  by (auto simp: passed_on_def marked_def takes_def passes_def passes_on_def mark_mach_def)

lemma marked_mark [simp]: "marked (mark_check i s) i"
  by (simp add: marked_def mark_mach_def)

lemma passed_on_mark_only: "\<not> passes_on (machines s i) \<Longrightarrow> passed_on X s \<Longrightarrow> passed_on X (mark_check i s)"
  by (auto simp: passed_on_def marked_def takes_def passes_def passes_on_def mark_mach_def)

lemma passed_on_close:
  assumes "passed_on (insert i X) s" "\<And>k. k \<in> set (depends s i) \<Longrightarrow> takes s k \<Longrightarrow> marked s k"
  shows "passed_on X s"
  unfolding passed_on_def
proof (intro allI impI ballI)
  fix j k
  assume "j \<notin> X" "passes s j" "marked s j" "k \<in> set (depends s j)" "takes s k"
  then show "marked s k"
    using assms by (cases "j = i") (auto simp: passed_on_def)
qed

lemma passed_on_check:
  "\<lbrakk>setNeedsCheck n i s = Some t; passed_on X s\<rbrakk> \<Longrightarrow> passed_on X t \<and> (takes s i \<longrightarrow> marked t i)"
  "\<lbrakk>check_dependants n ds s = Some t; passed_on X s\<rbrakk> \<Longrightarrow>
     passed_on X t \<and> (\<forall>k\<in>set ds. takes s k \<longrightarrow> marked t k)"
proof (induction n i s and n ds s arbitrary: t X and t X rule: setNeedsCheck_check_dependants.induct)
  case (2 n i s)
  show ?case
  proof (cases "passes s i")
    case True
    then have "check_dependants n (depends s i) (mark_check i s) = Some t"
      using 2(2) by (simp add: passes_def takes_def Let_def)
    note sub = this 2(1) [OF refl, of t "insert i X"] same_net_check(2) [OF this]
    have all: "passed_on (insert i X) t" "\<forall>k\<in>set (depends s i). takes s k \<longrightarrow> marked t k"
      using sub True passed_on_mark [OF 2(3)] same_net_mark [of s i]
      by (auto simp: passes_def takes_def same_net_def)
    have "marked t i"
      using same_net_marked [OF sub(3)] by (simp add: marked_def mark_mach_def)
    moreover have "passed_on X t"
      using passed_on_close [OF all(1)] all(2) sub(3) same_net_mark [of s i] by (simp add: same_net_def)
    ultimately show ?thesis by simp
  next
    case False
    then show ?thesis
      using 2(2,3) passed_on_mark_only [of s i X] same_net_mark [of s i]
      by (auto simp: passes_def takes_def Let_def marked_mark split: if_splits)
  qed
next
  case (4 n d ds s)
  show ?case
  proof (cases "is_enabled (machines s d) \<and> needs_check (machines s d) < 2")
    case True
    then obtain u where u: "setNeedsCheck n d s = Some u" "check_dependants n ds u = Some t"
      using 4(4) by (auto split: bind_splits)
    note one = 4(1) [OF True u(1) 4(5)]
    have "passed_on X t \<and> (\<forall>k\<in>set ds. takes u k \<longrightarrow> marked t k)"
      using 4(2) [OF True u(1) u(2), of X] one by blast
    then show ?thesis
      using one same_net_check(1) [OF u(1)] same_net_marked [OF same_net_check(2) [OF u(2)]]
      by (auto simp: same_net_def)
  next
    case False
    then have "marked t d" if "takes s d"
      using 4(4) that same_net_marked [OF same_net_check(2), of n ds s t d] by (auto simp: takes_def marked_def)
    then show ?thesis
      using 4(3) [OF False] 4(4,5) False by auto
  qed
qed simp_all

lemma marked_requests:
  assumes "passed_on {} t" "same_net s t" "takes s i \<longrightarrow> marked t i" "requests s i j" "takes s j"
  shows "marked t j"
  using assms(4,5)
proof (induction rule: requests.induct)
  case (step j k)
  have "takes s j" using step.hyps(2) by (simp add: passes_def)
  then show ?case
    using step assms(1,2) by (auto simp: passed_on_def same_net_def)
qed (use assms(3) in simp)

lemma request_check_returns:
  assumes "linked s" "i \<in> set (all_machines s)"
  shows "\<exists>t. request_check i s = Inr t \<and> same_net s t"
proof -
  let ?A = "set (all_machines s)" and ?n = "2 * length (all_machines s)"
  have "visits_left ?A (mark_check i s) \<le> ?n"
    using visits_left_bound [of ?A "mark_check i s"] card_length [of "all_machines s"] by linarith
  then have "check_dependants ?n (depends s i) (mark_check i s) \<noteq> None"
    using enough_depth(2) [of ?A "mark_check i s" "depends s i" ?n] assms by (simp add: linked_def)
  then have "setNeedsCheck (Suc ?n) i s \<noteq> None"
    by (auto simp: Let_def)
  then show ?thesis
    using same_net_check(1) [of "Suc ?n" i s] by (auto simp: request_check_def split: option.split)
qed

section \<open>Properties\<close>

text \<open>
  Claim C11. A request for a check returns even when the dependencies form cycles: the recursion
  of \<open>setNeedsCheck\<close> is never deeper than one more than twice the number of machines, since a
  dependant is visited only while its counter is below two. It changes no message, no action
  and no dependency, and no counter goes down.
\<close>

theorem check_request_returns:
  assumes "linked s" "i \<in> set (all_machines s)"
  shows "\<exists>t. request_check i s = Inr t \<and> same_net s t"
  using assms by (rule request_check_returns)

theorem check_request_returns_witness:
  "\<exists>t. request_check 0 example_net = Inr t \<and> same_net example_net t"
  by (rule check_request_returns) (auto simp: example_net_def linked_def)



text \<open>
  The guard against recursion can lose a request. Of two lists that depend on each
  other, the second keeps the counter two after a first request; when the machine that depends
  on the second list has been checked and reset in the meantime, a second request for the first
  list no longer reaches that machine, although it depends on both lists.
\<close>

lemma check_request_is_lost:
  "let s = resetNeedsCheck 2 (the (setNeedsCheck 7 0 example_net)) in
     requests s 0 2 \<and> takes s 2 \<and> (\<exists>t. setNeedsCheck 7 0 s = Some t \<and> \<not> marked t 2)"
proof -
  define s where "s = resetNeedsCheck 2 (the (setNeedsCheck 7 0 example_net))"
  have dep: "depends s = depends example_net"
    by (simp add: s_def resetNeedsCheck_def eval_nat_numeral Let_def example_net_def example_mach_def passes_on_def mark_mach_def)
  have m: "machines s 0 = (example_mach List_Class)\<lparr>needs_check := 2, next_poll := 0\<rparr>"
    "machines s 1 = (example_mach List_Class)\<lparr>needs_check := 2, next_poll := 0\<rparr>"
    "machines s 2 = (example_mach Other_Class)\<lparr>needs_check := 0, next_poll := 0\<rparr>"
    by (simp_all add: s_def resetNeedsCheck_def eval_nat_numeral Let_def example_net_def example_mach_def passes_on_def mark_mach_def)
  have passes: "passes s 0" "passes s 1"
    by (simp_all add: passes_def takes_def passes_on_def m m(2) [unfolded One_nat_def] example_mach_def)
  have "requests s 0 1"
    by (rule requests.step [OF requests.self passes(1)]) (simp add: dep example_net_def)
  then have "requests s 0 2"
    by (rule requests.step [OF _ passes(2)]) (simp add: dep example_net_def)
  moreover have "takes s 2"
    by (simp add: takes_def m example_mach_def)
  moreover have "\<exists>t. setNeedsCheck 7 0 s = Some t \<and> \<not> marked t 2"
    by (simp add: eval_nat_numeral Let_def dep m m(2) [unfolded One_nat_def] m(3) [unfolded numeral_2_eq_2] example_net_def example_mach_def passes_on_def marked_def)
  ultimately show ?thesis
    by (simp add: s_def [symmetric] Let_def)
qed

end
