(* ===== verification/Cw_Actions.thy ===== *)
theory Cw_Actions
  imports Cw_Value Cw_Checks
begin

text \<open>
  Triggers and actions (\<open>src/iod/src/Action.h\<close>, \<open>Action.cpp\<close>, \<open>FireTriggerAction.cpp\<close>,
  \<open>WaitAction.cpp\<close>) and the stack of actions that a machine executes
  (\<open>src/iod/src/MachineInstance.cpp\<close>). Both kinds of objects count their references and delete
  themselves. They live in a store; a deleted object is gone from it, so that a use after the
  deletion is an error. Waiting and firing a trigger are modelled; the virtual methods of the
  other actions and the handling of a message are parameters. Reference counts are unbounded,
  the texts of errors and results are left out, and tracing is off.
\<close>

section \<open>Objects\<close>

datatype status = New | Running | Complete | Failed | Suspended | NeedsRetry

datatype trigger_owner = No_Owner | Machine_Owner | Action_Owner nat

record trigger =
  tname :: string
  seen :: bool
  towner :: trigger_owner
  trefs :: int
  is_active :: bool
  holders :: "nat list"

text \<open>
  \<open>Wait_Action wait_time property_name use_property\<close> and \<open>Fire_Trigger pending_trigger\<close> carry
  the fields of their classes.
\<close>

datatype action_kind =
    Wait_Action int string bool
  | Fire_Trigger "nat option"
  | Other_Action

record action =
  akind :: action_kind
  arefs :: int
  astatus :: status
  saved_status :: status
  blocked :: "nat option"
  atrigger :: "nat option"
  started :: bool
  aborted :: bool
  abort_message :: bool    \<comment> \<open>there is an \<open>error_msg\<close> or a \<open>timeout_msg\<close>\<close>

text \<open>
  The store, the machine \<open>self\<close> whose actions are executed, the network it belongs to, and the
  items given to the scheduler: a delay in microseconds and an action.
\<close>

record exec =
  net :: net
  self :: nat
  machine_name :: string
  error_state :: bool
  machine_active :: bool
  trig :: "nat \<Rightarrow> trigger option"
  act :: "nat \<Rightarrow> action option"
  next_trigger :: nat
  next_action :: nat
  scheduled :: "(int \<times> nat) list"
  action_errors :: nat
  publications :: nat      \<comment> \<open>calls of \<open>Channel::sendPropertyChanges\<close>\<close>

definition get_trigger :: "exec \<Rightarrow> nat \<Rightarrow> trigger res" where
  "get_trigger e t = (case trig e t of None \<Rightarrow> Inl UseAfterFree | Some y \<Rightarrow> Inr y)"

definition get_action :: "exec \<Rightarrow> nat \<Rightarrow> action res" where
  "get_action e a = (case act e a of None \<Rightarrow> Inl UseAfterFree | Some x \<Rightarrow> Inr x)"

definition put_trigger :: "nat \<Rightarrow> trigger option \<Rightarrow> exec \<Rightarrow> exec" where
  "put_trigger t y e = e\<lparr>trig := (trig e)(t := y)\<rparr>"

definition put_action :: "nat \<Rightarrow> action option \<Rightarrow> exec \<Rightarrow> exec" where
  "put_action a x e = e\<lparr>act := (act e)(a := x)\<rparr>"

definition change_trigger :: "(trigger \<Rightarrow> trigger) \<Rightarrow> nat \<Rightarrow> exec \<Rightarrow> exec res" where
  "change_trigger f t e = mapr (\<lambda>y. put_trigger t (Some (f y)) e) (get_trigger e t)"

definition change_action :: "(action \<Rightarrow> action) \<Rightarrow> nat \<Rightarrow> exec \<Rightarrow> exec res" where
  "change_action f a e = mapr (\<lambda>x. put_action a (Some (f x)) e) (get_action e a)"

text \<open>The machine itself, its stack of actions, and a request for a check of it.\<close>

definition machine :: "exec \<Rightarrow> mach" where
  "machine e = machines (net e) (self e)"

definition change_machine :: "(mach \<Rightarrow> mach) \<Rightarrow> exec \<Rightarrow> exec" where
  "change_machine f e = e\<lparr>net := (net e)\<lparr>machines := (machines (net e))(self e := f (machine e))\<rparr>\<rparr>"

definition stack :: "exec \<Rightarrow> nat list" where
  "stack e = active_actions (machine e)"

definition set_stack :: "nat list \<Rightarrow> exec \<Rightarrow> exec" where
  "set_stack as = change_machine (\<lambda>m. m\<lparr>active_actions := as\<rparr>)"

definition request_self :: "exec \<Rightarrow> exec res" where
  "request_self e = mapr (\<lambda>n. e\<lparr>net := n\<rparr>) (request_check (self e) (net e))"

definition activate_self :: "exec \<Rightarrow> exec" where
  "activate_self e = e\<lparr>net := activate (self e) (net e)\<rparr>"

section \<open>Triggers\<close>

definition new_trigger :: "string \<Rightarrow> exec \<Rightarrow> nat \<times> exec" where
  "new_trigger n e = (next_trigger e,
     put_trigger (next_trigger e) (Some \<lparr>tname = n, seen = False, towner = No_Owner, trefs = 1, is_active = True, holders = []\<rparr>)
       (e\<lparr>next_trigger := next_trigger e + 1\<rparr>))"

definition addHolder :: "nat \<Rightarrow> nat \<Rightarrow> exec \<Rightarrow> exec res" where
  "addHolder h = change_trigger (\<lambda>y. y\<lparr>holders := holders y @ [h]\<rparr>)"

definition removeHolder :: "nat \<Rightarrow> nat \<Rightarrow> exec \<Rightarrow> exec res" where
  "removeHolder h = change_trigger (\<lambda>y. y\<lparr>holders := removeAll h (holders y)\<rparr>)"

definition setOwner :: "trigger_owner \<Rightarrow> nat \<Rightarrow> exec \<Rightarrow> exec res" where
  "setOwner w = change_trigger (\<lambda>y. y\<lparr>towner := w\<rparr>)"

definition trigger_retain :: "nat \<Rightarrow> exec \<Rightarrow> exec res" where
  "trigger_retain = change_trigger (\<lambda>y. y\<lparr>trefs := trefs y + 1\<rparr>)"

definition trigger_release :: "nat \<Rightarrow> exec \<Rightarrow> exec res" where
  "trigger_release t e =
     bindr (get_trigger e t) (\<lambda>y.
     bindr (guardr AssertFailed (0 < trefs y)) (\<lambda>_.
     Inr (put_trigger t (if trefs y - 1 = 0 then None else Some (y\<lparr>trefs := trefs y - 1\<rparr>)) e)))"

definition trigger_disable :: "nat \<Rightarrow> exec \<Rightarrow> exec res" where
  "trigger_disable = change_trigger (\<lambda>y. y\<lparr>is_active := False\<rparr>)"

definition trigger_matches :: "string \<Rightarrow> trigger \<Rightarrow> bool" where
  "trigger_matches event y \<longleftrightarrow> is_active y \<and> event = tname y"

definition machine_triggerFired :: "nat \<Rightarrow> exec \<Rightarrow> exec res" where
  "machine_triggerFired t e = bindr (get_trigger e t) (\<lambda>y.
     request_self (if trigger_matches ''publish'' y then e\<lparr>publications := publications e + 1\<rparr> else e))"

text \<open>The owner is told once; an action does nothing then, but has to be alive.\<close>

definition trigger_fire :: "nat \<Rightarrow> exec \<Rightarrow> exec res" where
  "trigger_fire t e = bindr (get_trigger e t) (\<lambda>y.
     if seen y then Inr e
     else let e1 = put_trigger t (Some (y\<lparr>seen := True\<rparr>)) e in
       case towner y of
         No_Owner \<Rightarrow> Inr e1
       | Machine_Owner \<Rightarrow> machine_triggerFired t e1
       | Action_Owner a \<Rightarrow> mapr (\<lambda>_. e1) (get_action e1 a))"

section \<open>Actions\<close>

definition new_action :: "action_kind \<Rightarrow> bool \<Rightarrow> exec \<Rightarrow> nat \<times> exec" where
  "new_action k msg e = (next_action e,
     put_action (next_action e) (Some \<lparr>akind = k, arefs = 1, astatus = New, saved_status = Running, blocked = None,
         atrigger = None, started = False, aborted = False, abort_message = msg\<rparr>)
       (e\<lparr>next_action := next_action e + 1\<rparr>))"

definition set_status :: "status \<Rightarrow> nat \<Rightarrow> exec \<Rightarrow> exec res" where
  "set_status st = change_action (\<lambda>x. x\<lparr>astatus := st\<rparr>)"

definition getStatus :: "nat \<Rightarrow> exec \<Rightarrow> (status \<times> exec) res" where
  "getStatus a e = mapr (\<lambda>x. (astatus x, e)) (get_action e a)"

definition action_retain :: "nat \<Rightarrow> exec \<Rightarrow> exec res" where
  "action_retain = change_action (\<lambda>x. x\<lparr>arefs := arefs x + 1\<rparr>)"

definition cleanupTrigger :: "nat \<Rightarrow> exec \<Rightarrow> exec res" where
  "cleanupTrigger a e = bindr (get_action e a) (\<lambda>x. case atrigger x of
     None \<Rightarrow> Inr e
   | Some t \<Rightarrow> bindr (removeHolder a t e) (\<lambda>e1.
       bindr (trigger_release t e1) (change_action (\<lambda>x. x\<lparr>atrigger := None\<rparr>) a)))"

text \<open>\<open>setTrigger\<close> takes over the reference of its caller.\<close>

definition setTrigger :: "nat \<Rightarrow> nat option \<Rightarrow> exec \<Rightarrow> exec res" where
  "setTrigger a t e = bindr (get_action e a) (\<lambda>x.
     if atrigger x = None \<and> t = None then Inr e
     else if atrigger x \<noteq> None \<and> atrigger x = t then Inr e
     else bindr (cleanupTrigger a e) (\<lambda>e1. case t of
            None \<Rightarrow> Inr e1
          | Some t' \<Rightarrow> bindr (addHolder a t' e1) (\<lambda>e2. bindr (setOwner (Action_Owner a) t' e2)
              (change_action (\<lambda>x. x\<lparr>atrigger := Some t'\<rparr>) a))))"

definition disableTrigger :: "nat \<Rightarrow> exec \<Rightarrow> exec res" where
  "disableTrigger a e = bindr (get_action e a) (\<lambda>x. case atrigger x of None \<Rightarrow> Inr e | Some t \<Rightarrow> trigger_disable t e)"

definition setBlocker :: "nat option \<Rightarrow> nat \<Rightarrow> exec \<Rightarrow> exec res" where
  "setBlocker b = change_action (\<lambda>x. x\<lparr>blocked := b\<rparr>)"

definition action_start :: "nat \<Rightarrow> exec \<Rightarrow> exec res" where
  "action_start a e = bindr (get_action e a) (\<lambda>x. bindr (guardr AssertFailed (\<not> started x)) (\<lambda>_.
     change_action (\<lambda>x. x\<lparr>started := True\<rparr>) a e))"

definition action_stop :: "nat \<Rightarrow> exec \<Rightarrow> exec res" where
  "action_stop = change_action (\<lambda>x. x\<lparr>started := False\<rparr>)"

definition action_abort :: "nat \<Rightarrow> exec \<Rightarrow> exec res" where
  "action_abort = change_action (\<lambda>x. x\<lparr>aborted := True\<rparr>)"

definition action_reset :: "nat \<Rightarrow> exec \<Rightarrow> exec res" where
  "action_reset a e =
     bindr (change_action (\<lambda>x. x\<lparr>astatus := New, saved_status := Running, blocked := None, started := False\<rparr>) a e)
       (cleanupTrigger a)"

text \<open>
  Releasing the last reference gives up the trigger and deletes the action. The trigger that a
  \<open>FireTriggerAction\<close> keeps for its \<open>run\<close> is not released by its destructor.
\<close>

definition action_release :: "nat \<Rightarrow> exec \<Rightarrow> exec res" where
  "action_release a e = bindr (get_action e a) (\<lambda>x.
     if arefs x - 1 = 0
     then mapr (put_action a None) (cleanupTrigger a (put_action a (Some (x\<lparr>arefs := 0\<rparr>)) e))
     else Inr (put_action a (Some (x\<lparr>arefs := arefs x - 1\<rparr>)) e))"

definition suspend :: "nat \<Rightarrow> exec \<Rightarrow> exec res" where
  "suspend = change_action (\<lambda>x. if astatus x = Suspended then x
     else x\<lparr>saved_status := astatus x, astatus := Suspended\<rparr>)"

definition resume :: "nat \<Rightarrow> exec \<Rightarrow> exec res" where
  "resume a e = bindr (change_action (\<lambda>x. x\<lparr>astatus := (if saved_status x = Suspended then Running
     else saved_status x)\<rparr>) a e) request_self"

section \<open>The action stack of a machine\<close>

text \<open>Actions execute from the end of the list.\<close>

definition executingCommand :: "exec \<Rightarrow> nat option" where
  "executingCommand e = (if stack e = [] then None else Some (last (stack e)))"

definition add_work :: "exec \<Rightarrow> exec" where
  "add_work e = e\<lparr>net := checkActions (self e) (net e)\<rparr>"

definition enqueueAction :: "nat \<Rightarrow> exec \<Rightarrow> exec" where
  "enqueueAction a e = add_work (set_stack (a # stack e) e)"

definition machine_push :: "nat \<Rightarrow> exec \<Rightarrow> exec res" where
  "machine_push a e =
     bindr (case executingCommand e of
              None \<Rightarrow> Inr e
            | Some b \<Rightarrow> bindr (suspend b e) (setBlocker (Some a) b)) (\<lambda>e1.
     mapr add_work (action_start a (set_stack (stack e1 @ [a]) e1)))"

definition machine_start :: "nat \<Rightarrow> exec \<Rightarrow> exec res" where
  "machine_start a e = bindr (get_action e a) (\<lambda>x.
     if started x then Inr e
     else bindr (action_start a e) (\<lambda>e1.
          if executingCommand e1 \<noteq> Some a
          then mapr (\<lambda>e2. activate_self (set_stack (stack e2 @ [a]) e2)) (action_retain a e1)
          else request_self e1))"

text \<open>\<open>stop\<close> removes and releases every occurrence of the action.\<close>

primrec remove_action :: "nat \<Rightarrow> nat list \<Rightarrow> exec \<Rightarrow> (nat list \<times> exec) res" where
  "remove_action a [] e = Inr ([], e)"
| "remove_action a (q # qs) e =
     (if q = a then bindr (action_release a e) (remove_action a qs)
      else mapr (\<lambda>(rest, e'). (q # rest, e')) (remove_action a qs e))"

definition wake_next :: "exec \<Rightarrow> exec res" where
  "wake_next e = (case executingCommand e of
     None \<Rightarrow> Inr e
   | Some b \<Rightarrow> bindr (setBlocker None b e) (\<lambda>e1. bindr (get_action e1 b) (\<lambda>x.
       if astatus x = Suspended then resume b e1 else Inr e1)))"

definition machine_stop :: "nat \<Rightarrow> exec \<Rightarrow> exec res" where
  "machine_stop a e =
     bindr (setTrigger a None e) (\<lambda>e1.
     bindr (action_stop a e1) (\<lambda>e2.
     bindr (remove_action a (stack e2) e2) (\<lambda>(rest, e3).
     bindr (wake_next (set_stack rest e3)) request_self)))"

primrec release_all :: "nat list \<Rightarrow> exec \<Rightarrow> exec res" where
  "release_all [] e = Inr e"
| "release_all (a # as) e =
     bindr (get_action (set_stack as e) a) (\<lambda>x.
     bindr (case atrigger x of
              None \<Rightarrow> Inr (set_stack as e)
            | Some t \<Rightarrow> bindr (get_trigger e t) (\<lambda>y.
                if is_active y \<and> \<not> seen y then disableTrigger a (set_stack as e) else Inr (set_stack as e))) (\<lambda>e1.
     bindr (action_release a e1) (release_all as)))"

definition clearAllActions :: "exec \<Rightarrow> exec res" where
  "clearAllActions e = mapr (change_machine (\<lambda>m. m\<lparr>mail_queue := [], has_work := False\<rparr>)) (release_all (stack e) e)"

section \<open>Waiting and firing triggers\<close>

definition new_FireTriggerAction :: "nat \<Rightarrow> exec \<Rightarrow> (nat \<times> exec) res" where
  "new_FireTriggerAction t e =
     bindr (trigger_retain t e) (\<lambda>e1. let (f, e2) = new_action (Fire_Trigger (Some t)) False e1 in
     bindr (setOwner Machine_Owner t e2) (\<lambda>e3. mapr (\<lambda>e4. (f, e4)) (addHolder f t e3)))"

definition FireTriggerAction_run :: "nat \<Rightarrow> nat option \<Rightarrow> exec \<Rightarrow> (status \<times> exec) res" where
  "FireTriggerAction_run a pending e =
     bindr (machine_start a e) (\<lambda>e1. case pending of
       None \<Rightarrow> Inl NullPointer
     | Some p \<Rightarrow>
         bindr (trigger_retain p e1) (\<lambda>e2.
         bindr (setTrigger a (Some p) e2) (\<lambda>e3.
         bindr (trigger_release p e3) (\<lambda>e4.
         bindr (change_action (\<lambda>x. x\<lparr>akind := Fire_Trigger None\<rparr>) a e4) (\<lambda>e5.
         bindr (get_action e5 a) (\<lambda>x. case atrigger x of
           None \<Rightarrow> Inl NullPointer
         | Some t \<Rightarrow>
             bindr (get_trigger e5 t) (\<lambda>y.
             bindr (if is_active y then trigger_fire t e5 else Inr e5) (\<lambda>e6.
             bindr (set_status Complete a e6) (\<lambda>e7.
             bindr (machine_stop a e7) (getStatus a))))))))))"

text \<open>The time to wait: a number of milliseconds, or the value of a property, looked up at each run.\<close>

definition read_wait_time :: "(string \<Rightarrow> cw_value) \<Rightarrow> int \<Rightarrow> string \<Rightarrow> int res" where
  "read_wait_time getValue w prop_name =
     (if w = -1
      then let v = getValue prop_name in
           if kind v = t_float then value_trunc v
           else if kind v \<noteq> t_integer then Inr 0
           else read_field (iValue v)
      else Inr w)"

definition complete_action :: "nat \<Rightarrow> exec \<Rightarrow> (status \<times> exec) res" where
  "complete_action a e = bindr (set_status Complete a e) (\<lambda>e1. bindr (machine_stop a e1) (getStatus a))"

definition fire_own_trigger :: "nat \<Rightarrow> exec \<Rightarrow> exec res" where
  "fire_own_trigger a e = bindr (get_action e a) (\<lambda>x. case atrigger x of
     None \<Rightarrow> Inr e
   | Some t \<Rightarrow> bindr (get_trigger e t) (\<lambda>y. if \<not> seen y \<and> is_active y then trigger_fire t e else Inr e))"

definition schedule_wait :: "nat \<Rightarrow> int \<Rightarrow> string \<Rightarrow> bool \<Rightarrow> exec \<Rightarrow> exec res" where
  "schedule_wait a w prop_name use_property e =
     bindr (set_status Running a e) (\<lambda>e1.
     bindr (cleanupTrigger a e1) (\<lambda>e2.
     let (t, e3) = new_trigger (take 99 (machine_name e @ '' WaitTimer'')) e2 in
     bindr (change_action (\<lambda>x. x\<lparr>atrigger := Some t\<rparr>) a e3) (\<lambda>e4.
     bindr (addHolder a t e4) (\<lambda>e5.
     bindr (new_FireTriggerAction t e5) (\<lambda>(f, e6).
     bindr (chk_long (w * 1000)) (\<lambda>delay.
     let e7 = e6\<lparr>scheduled := scheduled e6 @ [(delay, f)]\<rparr> in
     bindr (get_trigger e7 t) (\<lambda>y.
     bindr (guardr AssertFailed (\<not> seen y)) (\<lambda>_.
     change_action (\<lambda>x. x\<lparr>akind := Wait_Action (if use_property then -1 else w) prop_name use_property\<rparr>) a e7))))))))"

definition WaitAction_run :: "(string \<Rightarrow> cw_value) \<Rightarrow> nat \<Rightarrow> int \<Rightarrow> string \<Rightarrow> bool \<Rightarrow> exec \<Rightarrow> (status \<times> exec) res" where
  "WaitAction_run getValue a wait_time prop_name use_property e =
     bindr (machine_start a e) (\<lambda>e1.
     bindr (read_wait_time getValue wait_time prop_name) (\<lambda>w.
     bindr (change_action (\<lambda>x. x\<lparr>akind := Wait_Action w prop_name use_property\<rparr>) a e1) (\<lambda>e2.
     if w = 0 then bindr (fire_own_trigger a e2) (complete_action a)
     else bindr (schedule_wait a w prop_name use_property e2) (getStatus a))))"

definition WaitAction_checkComplete :: "nat \<Rightarrow> exec \<Rightarrow> (status \<times> exec) res" where
  "WaitAction_checkComplete a e = bindr (get_action e a) (\<lambda>x. case atrigger x of
     None \<Rightarrow> complete_action a e
   | Some t \<Rightarrow> bindr (get_trigger e t) (\<lambda>y. if seen y then complete_action a e else getStatus a e))"

section \<open>Running actions\<close>

text \<open>What the rest of the program provides: values, other actions, and the handler of messages.\<close>

record behaviour =
  wait_value :: "string \<Rightarrow> cw_value"
  other_run :: "nat \<Rightarrow> exec \<Rightarrow> (status \<times> exec) res"
  other_check :: "nat \<Rightarrow> exec \<Rightarrow> (status \<times> exec) res"
  handle :: "package \<Rightarrow> exec \<Rightarrow> exec res"

definition run_action :: "behaviour \<Rightarrow> nat \<Rightarrow> exec \<Rightarrow> (status \<times> exec) res" where
  "run_action b a e = bindr (get_action e a) (\<lambda>x. case akind x of
     Wait_Action w p u \<Rightarrow> WaitAction_run (wait_value b) a w p u e
   | Fire_Trigger p \<Rightarrow> FireTriggerAction_run a p e
   | Other_Action \<Rightarrow> other_run b a e)"

definition check_action :: "behaviour \<Rightarrow> nat \<Rightarrow> exec \<Rightarrow> (status \<times> exec) res" where
  "check_action b a e = bindr (get_action e a) (\<lambda>x. case akind x of
     Wait_Action _ _ _ \<Rightarrow> WaitAction_checkComplete a e
   | Fire_Trigger _ \<Rightarrow> bindr (guardr AssertFailed (astatus x = Complete)) (\<lambda>_. Inr (astatus x, e))
   | Other_Action \<Rightarrow> other_check b a e)"

text \<open>\<open>operator()\<close>, with the \<open>AbortAction\<close> that a failure with a message queues.\<close>

definition action_call :: "behaviour \<Rightarrow> nat \<Rightarrow> exec \<Rightarrow> (status \<times> exec) res" where
  "action_call b a e =
     bindr (action_reset a e) (\<lambda>e1.
     bindr (set_status Running a e1) (\<lambda>e2.
     bindr (run_action b a e2) (\<lambda>(st, e3).
     bindr (set_status st a e3) (\<lambda>e4.
     bindr (get_action e4 a) (\<lambda>x.
     getStatus a (if st = Failed \<and> abort_message x
                  then let (aa, e5) = new_action Other_Action False e4 in enqueueAction aa e5
                  else e4))))))"

definition finished :: "status \<Rightarrow> bool" where
  "finished st \<longleftrightarrow> st = Complete \<or> st = Failed"

definition action_complete :: "behaviour \<Rightarrow> nat \<Rightarrow> exec \<Rightarrow> (bool \<times> exec) res" where
  "action_complete b a e = bindr (get_action e a) (\<lambda>x.
     if astatus x = Running \<or> astatus x = Suspended
     then bindr (check_action b a e) (\<lambda>(st, e1). mapr (\<lambda>e2. (finished st, e2)) (set_status st a e1))
     else Inr (finished (astatus x), e))"

definition set_work :: "bool \<Rightarrow> exec \<Rightarrow> exec" where
  "set_work w = change_machine (\<lambda>m. m\<lparr>has_work := w\<rparr>)"

text \<open>An action that is not finished: whether there is more work depends on its trigger.\<close>

definition note_waiting :: "nat \<Rightarrow> exec \<Rightarrow> exec res" where
  "note_waiting a e = bindr (get_action e a) (\<lambda>x. case akind x of
     Wait_Action _ _ _ \<Rightarrow> (case executingCommand e of
         None \<Rightarrow> Inl NullPointer
       | Some c \<Rightarrow> bindr (get_action e c) (\<lambda>z. case atrigger z of
           None \<Rightarrow> Inl NullPointer
         | Some t \<Rightarrow> mapr (\<lambda>y. set_work (seen y) e) (get_trigger e t)))
   | _ \<Rightarrow> Inr (set_work True e))"

text \<open>One turn of the loop on the executing action: whether the loop goes on.\<close>

definition perform :: "behaviour \<Rightarrow> nat \<Rightarrow> exec \<Rightarrow> (bool \<times> exec) res" where
  "perform b a e = bindr (get_action e a) (\<lambda>x.
     if astatus x = New \<or> astatus x = NeedsRetry
     then bindr (action_call b a e) (\<lambda>(st, e1).
            if st = Failed then Inr (True, set_work True e1)
            else if st \<noteq> Complete then mapr (\<lambda>e2. (False, e2)) (action_release a e1)
            else Inr (True, e1))
     else bindr (action_complete b a e) (\<lambda>(fin, e1).
            if fin then Inr (True, e1)
            else bindr (note_waiting a e1) (\<lambda>e2. mapr (\<lambda>e3. (False, e3)) (action_release a e2))))"

definition retire :: "nat \<Rightarrow> exec \<Rightarrow> exec res" where
  "retire a e = bindr (get_action e a) (\<lambda>x.
     let e1 = (if astatus x = Failed then e\<lparr>action_errors := action_errors e + 1\<rparr> else e) in
     if executingCommand e1 = Some a
     then bindr (machine_stop a e1) (\<lambda>e2. bindr (action_release a e2) (\<lambda>e3.
          mapr (\<lambda>_. e3) (guardr AssertFailed (executingCommand e3 \<noteq> Some a))))
     else action_release a e1)"

fun idle_actions :: "behaviour \<Rightarrow> nat \<Rightarrow> exec \<Rightarrow> (bool \<times> exec) res option" where
  "idle_actions b 0 e = None"
| "idle_actions b (Suc n) e = (case executingCommand e of
     None \<Rightarrow> Some (Inr (True, e))
   | Some a \<Rightarrow> (case bindr (action_retain a e) (\<lambda>e1. bindr (perform b a e1) (\<lambda>(goes_on, e2).
         if goes_on then mapr (\<lambda>e3. (True, e3)) (retire a e2) else Inr (False, e2))) of
       Inl u \<Rightarrow> Some (Inl u)
     | Inr (goes_on, e3) \<Rightarrow> if goes_on then idle_actions b n e3 else Some (Inr (False, e3))))"

fun idle_mail :: "behaviour \<Rightarrow> nat \<Rightarrow> exec \<Rightarrow> exec res option" where
  "idle_mail b 0 e = None"
| "idle_mail b (Suc n) e = (case mail_queue (machine e) of
     [] \<Rightarrow> Some (Inr e)
   | p # ps \<Rightarrow> (case handle b p (change_machine (\<lambda>m. m\<lparr>mail_queue := ps\<rparr>) e) of
       Inl u \<Rightarrow> Some (Inl u)
     | Inr e1 \<Rightarrow> idle_mail b n e1))"

definition idle_end :: "exec \<Rightarrow> exec" where
  "idle_end e = (let e1 = (if mail_queue (machine e) = [] \<and> stack e = [] then set_work False e else e) in
     if has_work (machine e1) then activate_self e1 else e1)"

definition idle :: "behaviour \<Rightarrow> nat \<Rightarrow> exec \<Rightarrow> exec res option" where
  "idle b n e0 = (let e = e0\<lparr>net := deactivate (self e0) (net e0)\<rparr> in
     if error_state e \<or> \<not> is_enabled (machine e) \<or> (\<not> machine_active e \<and> executingCommand e = None) \<or> \<not> has_class (machine e)
     then Some (Inr e)
     else case idle_actions b n e of
       None \<Rightarrow> None
     | Some (Inl u) \<Rightarrow> Some (Inl u)
     | Some (Inr (False, e1)) \<Rightarrow> Some (Inr e1)
     | Some (Inr (True, e1)) \<Rightarrow> map_option (mapr idle_end) (idle_mail b n e1))"

section \<open>Who owns which reference\<close>

text \<open>
  The references to a trigger that the actions of the store hold, and whether a count covers the
  references that are needed: a deleted object must not be needed.
\<close>

definition held :: "nat \<Rightarrow> action option \<Rightarrow> nat" where
  "held t x = (case x of None \<Rightarrow> 0 | Some x \<Rightarrow>
     of_bool (atrigger x = Some t) + of_bool (akind x = Fire_Trigger (Some t)))"

definition uses :: "exec \<Rightarrow> nat \<Rightarrow> nat" where
  "uses e t = (\<Sum>a<next_action e. held t (act e a))"

fun covers :: "int option \<Rightarrow> nat \<Rightarrow> bool" where
  "covers None n \<longleftrightarrow> n = 0"
| "covers (Some r) n \<longleftrightarrow> int n \<le> r"

text \<open>
  A store in which \<open>R\<close> references to actions and \<open>T\<close> further references to triggers are in use.
\<close>

definition store_ok :: "(nat \<Rightarrow> nat) \<Rightarrow> (nat \<Rightarrow> nat) \<Rightarrow> exec \<Rightarrow> bool" where
  "store_ok R T e \<longleftrightarrow> linked (net e) \<and> self e \<in> set (all_machines (net e)) \<and>
     (\<forall>a. act e a \<noteq> None \<longrightarrow> a < next_action e) \<and> (\<forall>t. trig e t \<noteq> None \<longrightarrow> t < next_trigger e) \<and>
     (\<forall>t. covers (map_option trefs (trig e t)) (uses e t + T t)) \<and>
     (\<forall>a. covers (map_option arefs (act e a)) (R a))"

text \<open>The stack holds one reference for each of its entries; \<open>A\<close> are the others.\<close>

definition safe :: "(nat \<Rightarrow> nat) \<Rightarrow> (nat \<Rightarrow> nat) \<Rightarrow> exec \<Rightarrow> bool" where
  "safe A T e \<longleftrightarrow> store_ok (\<lambda>a. count_list (stack e) a + A a) T e"

definition ok :: "('a \<Rightarrow> bool) \<Rightarrow> 'a res \<Rightarrow> bool" where
  "ok P r \<longleftrightarrow> (\<exists>x. r = Inr x \<and> P x)"

definition incr :: "nat \<Rightarrow> (nat \<Rightarrow> nat) \<Rightarrow> nat \<Rightarrow> nat" where
  "incr a A = A(a := A a + 1)"

text \<open>What an operation keeps: the store is well-formed, the stack is the same.\<close>

abbreviation keeps :: "(nat \<Rightarrow> nat) \<Rightarrow> (nat \<Rightarrow> nat) \<Rightarrow> exec \<Rightarrow> exec res \<Rightarrow> bool" where
  "keeps R T e \<equiv> ok (\<lambda>e'. store_ok R T e' \<and> stack e' = stack e)"

text \<open>The actions that survive keep their kind and status, those of \<open>B\<close> excepted.\<close>

definition core :: "nat set \<Rightarrow> exec \<Rightarrow> exec \<Rightarrow> bool" where
  "core B e e' \<longleftrightarrow> (\<forall>a x'. a \<notin> B \<longrightarrow> act e' a = Some x' \<longrightarrow> (\<exists>x. act e a = Some x \<and> astatus x' = astatus x \<and> akind x' = akind x))"

section \<open>Lemmas\<close>

lemma ok_Inr [simp]: "ok P (Inr x) \<longleftrightarrow> P x"
  by (simp add: ok_def)

lemma ok_Inl [simp]: "\<not> ok P (Inl u)"
  by (simp add: ok_def)

lemma ok_bindr [simp]: "ok P (bindr r f) \<longleftrightarrow> ok (\<lambda>x. ok P (f x)) r"
  by (cases r) (simp_all add: ok_def)

lemma ok_mapr [simp]: "ok P (mapr f r) \<longleftrightarrow> ok (\<lambda>x. P (f x)) r"
  by (cases r) (simp_all add: ok_def)

lemma ok_guardr [simp]: "ok P (guardr u c) \<longleftrightarrow> c \<and> P ()"
  by (cases c) simp_all

lemma ok_mono: "ok P r \<Longrightarrow> (\<And>x. P x \<Longrightarrow> Q x) \<Longrightarrow> ok Q r"
  by (auto simp: ok_def)

lemma get_action_Some [simp]: "act e a = Some x \<Longrightarrow> get_action e a = Inr x"
  by (simp add: get_action_def)

lemma get_trigger_Some [simp]: "trig e t = Some y \<Longrightarrow> get_trigger e t = Inr y"
  by (simp add: get_trigger_def)

lemma put_simps [simp]:
  "act (put_action a x e) = (act e)(a := x)" "trig (put_action a x e) = trig e"
  "act (put_trigger t y e) = act e" "trig (put_trigger t y e) = (trig e)(t := y)"
  "net (put_action a x e) = net e" "net (put_trigger t y e) = net e"
  "self (put_action a x e) = self e" "self (put_trigger t y e) = self e"
  "next_action (put_action a x e) = next_action e" "next_action (put_trigger t y e) = next_action e"
  "next_trigger (put_action a x e) = next_trigger e" "next_trigger (put_trigger t y e) = next_trigger e"
  by (simp_all add: put_action_def put_trigger_def)

lemma stack_put [simp]: "stack (put_action a x e) = stack e" "stack (put_trigger t y e) = stack e"
  by (simp_all add: stack_def machine_def)

lemma uses_put_trigger [simp]: "uses (put_trigger t y e) = uses e"
  by (simp add: uses_def fun_eq_iff)

lemma uses_put_action:
  assumes "a < next_action e"
  shows "uses (put_action a x e) t + held t (act e a) = uses e t + held t x"
proof -
  have "uses e t = held t (act e a) + (\<Sum>b\<in>{..<next_action e} - {a}. held t (act e b))"
    unfolding uses_def by (rule sum.remove) (use assms in auto)
  moreover have "uses (put_action a x e) t = held t x + (\<Sum>b\<in>{..<next_action e} - {a}. held t (act e b))"
    unfolding uses_def using assms by (subst sum.remove [of _ a]) (auto intro: sum.cong)
  ultimately show ?thesis by simp
qed

lemma uses_pos:
  assumes "act e a = Some x" "a < next_action e" "0 < held t (Some x)"
  shows "held t (Some x) \<le> uses e t"
  unfolding uses_def using assms member_le_sum [of a "{..<next_action e}" "\<lambda>b. held t (act e b)"] by simp

lemma covers_le: "covers r m \<Longrightarrow> n \<le> m \<Longrightarrow> covers r n"
  by (cases r) auto

lemma covers_Some: "covers r n \<Longrightarrow> 0 < n \<Longrightarrow> \<exists>k. r = Some k \<and> int n \<le> k"
  by (cases r) auto

lemma store_mono: "store_ok R T e \<Longrightarrow> (\<And>a. R' a \<le> R a) \<Longrightarrow> (\<And>t. T' t \<le> T t) \<Longrightarrow> store_ok R' T' e"
  unfolding store_ok_def by (meson covers_le add_le_mono order_refl)

lemma store_action: "store_ok R T e \<Longrightarrow> 0 < R a \<Longrightarrow> \<exists>x. act e a = Some x \<and> int (R a) \<le> arefs x \<and> a < next_action e"
  unfolding store_ok_def using covers_Some [of "map_option arefs (act e a)" "R a"] by auto

lemma store_trigger: "store_ok R T e \<Longrightarrow> 0 < uses e t + T t \<Longrightarrow> \<exists>y. trig e t = Some y \<and> int (uses e t + T t) \<le> trefs y"
  unfolding store_ok_def using covers_Some [of "map_option trefs (trig e t)" "uses e t + T t"] by auto

lemma store_held:
  assumes "store_ok R T e" "act e a = Some x" "0 < held t (Some x)"
  shows "\<exists>y. trig e t = Some y \<and> int (uses e t + T t) \<le> trefs y \<and> held t (Some x) \<le> uses e t"
proof -
  have "held t (Some x) \<le> uses e t"
    using assms uses_pos [of e a x t] by (auto simp: store_ok_def)
  then show ?thesis
    using store_trigger [OF assms(1), of t] assms(3) by auto
qed

lemma store_put_action:
  assumes "store_ok R T e" "act e a = Some x" "\<And>t. held t x' + T' t \<le> held t (Some x) + T t"
    and "covers (map_option arefs x') (R' a)" "\<And>b. b \<noteq> a \<Longrightarrow> R' b \<le> R b"
  shows "store_ok R' T' (put_action a x' e)"
proof -
  have "a < next_action e" using assms(1,2) by (auto simp: store_ok_def)
  then have "uses (put_action a x' e) t + T' t \<le> uses e t + T t" for t
    using uses_put_action [of a e x' t] assms(2) assms(3) [of t] by simp
  then show ?thesis
    using assms(1,2,4,5) \<open>a < next_action e\<close> unfolding store_ok_def
    by (auto intro: covers_le)
qed

lemma store_put_trigger:
  assumes "store_ok R T e" "trig e t = Some y" "covers (map_option trefs y') (uses e t + T' t)" "\<And>s. s \<noteq> t \<Longrightarrow> T' s \<le> T s"
  shows "store_ok R T' (put_trigger t y' e)"
  using assms unfolding store_ok_def by (auto intro: covers_le)

lemma store_net: "store_ok R T e \<Longrightarrow> linked n \<Longrightarrow> all_machines n = all_machines (net e) \<Longrightarrow> store_ok R T (e\<lparr>net := n\<rparr>)"
  by (simp add: store_ok_def uses_def)

lemma machine_net [simp]: "machine (e\<lparr>net := n\<rparr>) = machines n (self e)"
  by (simp add: machine_def)

lemma change_machine_frame [simp]:
  "act (change_machine f e) = act e" "trig (change_machine f e) = trig e" "self (change_machine f e) = self e"
  "next_action (change_machine f e) = next_action e" "next_trigger (change_machine f e) = next_trigger e"
  "all_machines (net (change_machine f e)) = all_machines (net e)"
  "depends (net (change_machine f e)) = depends (net e)"
  "machine (change_machine f e) = f (machine e)"
  by (simp_all add: change_machine_def machine_def)

lemma store_change_machine [simp]: "store_ok R T (change_machine f e) = store_ok R T e"
  by (simp add: store_ok_def uses_def linked_def)

lemma stack_set_stack [simp]: "stack (set_stack as e) = as"
  by (simp add: stack_def set_stack_def)

lemma set_stack_frame [simp]:
  "act (set_stack as e) = act e" "trig (set_stack as e) = trig e" "self (set_stack as e) = self e"
  "store_ok R T (set_stack as e) = store_ok R T e"
  by (simp_all add: set_stack_def)

lemma add_work_frame [simp]:
  "act (add_work e) = act e" "trig (add_work e) = trig e" "self (add_work e) = self e" "stack (add_work e) = stack e"
  "store_ok R T (add_work e) = store_ok R T e"
  by (simp_all add: add_work_def checkActions_def activate_def work_add_def stack_def machine_def store_ok_def uses_def linked_def)

lemma activate_self_frame [simp]:
  "act (activate_self e) = act e" "trig (activate_self e) = trig e" "self (activate_self e) = self e"
  "stack (activate_self e) = stack e" "store_ok R T (activate_self e) = store_ok R T e"
  by (simp_all add: activate_self_def activate_def stack_def machine_def store_ok_def uses_def linked_def)

text \<open>A request for a check changes only the network, and never the stack.\<close>

lemma request_self_ok:
  assumes "store_ok R T e"
  shows "ok (\<lambda>e'. store_ok R T e' \<and> stack e' = stack e \<and> act e' = act e \<and> trig e' = trig e \<and> self e' = self e) (request_self e)"
proof -
  obtain n where "request_check (self e) (net e) = Inr n" "same_net (net e) n"
    using request_check_returns [of "net e" "self e"] assms by (auto simp: store_ok_def)
  moreover from this have "store_ok R T (e\<lparr>net := n\<rparr>)"
    using assms by (intro store_net) (auto simp: same_net_def linked_def store_ok_def)
  ultimately show ?thesis
    by (simp add: request_self_def stack_def same_net_def machine_def)
qed

lemma change_action_keeps:
  assumes "store_ok R T e" "0 < R a" "\<And>x. arefs (f x) = arefs x" "\<And>x t. held t (Some (f x)) \<le> held t (Some x)"
  shows "keeps R T e (change_action f a e)"
proof -
  obtain x where x: "act e a = Some x" "int (R a) \<le> arefs x"
    using store_action [OF assms(1,2)] by auto
  then show ?thesis
    using store_put_action [OF assms(1) x(1), of "Some (f x)" T R] assms(3,4) by (simp add: change_action_def)
qed

lemma change_trigger_keeps:
  assumes "store_ok R T e" "0 < uses e t + T t" "\<And>y. trefs (f y) = trefs y"
  shows "ok (\<lambda>e'. store_ok R T e' \<and> stack e' = stack e \<and> act e' = act e \<and> uses e' = uses e) (change_trigger f t e)"
proof -
  obtain y where y: "trig e t = Some y" "int (uses e t + T t) \<le> trefs y"
    using store_trigger [OF assms(1,2)] by auto
  then show ?thesis
    using store_put_trigger [OF assms(1) y(1), of "Some (f y)" T] assms(3) by (simp add: change_trigger_def)
qed

lemma action_retain_ok: "store_ok R T e \<Longrightarrow> 0 < R a \<Longrightarrow> keeps (incr a R) T e (action_retain a e)"
  using store_action [of R T e a] store_put_action [of R T e a]
  by (fastforce simp: action_retain_def change_action_def held_def incr_def)

lemma trigger_retain_ok:
  "store_ok R T e \<Longrightarrow> 0 < uses e t + T t \<Longrightarrow>
   ok (\<lambda>e'. store_ok R (incr t T) e' \<and> stack e' = stack e \<and> act e' = act e \<and> uses e' = uses e) (trigger_retain t e)"
  using store_trigger [of R T e t] store_put_trigger [of R T e t]
  by (fastforce simp: trigger_retain_def change_trigger_def incr_def)

lemma trigger_release_ok:
  assumes "store_ok R (incr t T) e"
  shows "ok (\<lambda>e'. store_ok R T e' \<and> stack e' = stack e \<and> act e' = act e \<and> uses e' = uses e) (trigger_release t e)"
proof -
  obtain y where y: "trig e t = Some y" "int (uses e t + T t + 1) \<le> trefs y"
    using store_trigger [OF assms, of t] by (auto simp: incr_def)
  then show ?thesis
    using store_put_trigger [OF assms y(1), of _ T] by (auto simp: trigger_release_def incr_def)
qed


lemma core_refl [simp]: "act e' = act e \<Longrightarrow> core B e e'"
  by (simp add: core_def)

lemma core_trans:
  assumes "core B e e1" "core C e1 e2" "B \<subseteq> D" "C \<subseteq> D"
  shows "core D e e2"
  unfolding core_def
proof (intro allI impI)
  fix a z assume "a \<notin> D" "act e2 a = Some z"
  moreover from this obtain y where "act e1 a = Some y" "astatus z = astatus y" "akind z = akind y"
    using assms(2,4) unfolding core_def by (meson subsetD)
  moreover from calculation obtain x where "act e a = Some x" "astatus y = astatus x" "akind y = akind x"
    using assms(1,3) unfolding core_def by (meson subsetD)
  ultimately show "\<exists>x. act e a = Some x \<and> astatus z = astatus x \<and> akind z = akind x"
    by simp
qed

lemma put_commute: "put_action a x (put_trigger t y e) = put_trigger t y (put_action a x e)"
  by (simp add: put_action_def put_trigger_def)

lemma put_trigger_twice [simp]: "put_trigger t y (put_trigger t z e) = put_trigger t y e"
  by (simp add: put_trigger_def)

lemma cleanupTrigger_ok:
  assumes "store_ok R T e" "act e a = Some x"
  shows "ok (\<lambda>e'. store_ok R T e' \<and> stack e' = stack e \<and> act e' = (act e)(a \<mapsto> x\<lparr>atrigger := None\<rparr>)) (cleanupTrigger a e)"
proof (cases "atrigger x")
  case None
  then have "x\<lparr>atrigger := None\<rparr> = x" by simp
  then show ?thesis
    using assms None by (simp add: cleanupTrigger_def fun_upd_idem)
next
  case (Some t)
  let ?x = "x\<lparr>atrigger := None\<rparr>"
  have "covers (Some (arefs x)) (R a)"
    using assms by (metis option.map(2) store_ok_def)
  then have store1: "store_ok R (incr t T) (put_action a (Some ?x) e)"
    by (intro store_put_action [OF assms]) (auto simp: held_def incr_def Some)
  obtain y where y: "trig e t = Some y" "0 < trefs y"
    using store_held [OF assms, of t] Some by (force simp: held_def)
  have "store_ok R T (put_trigger t (if trefs y - 1 = 0 then None else Some (y\<lparr>holders := h, trefs := trefs y - 1\<rparr>))
      (put_action a (Some ?x) e))" for h
    using store_trigger [OF store1, of t] y by (intro store_put_trigger [OF store1]) (auto simp: incr_def)
  then show ?thesis
    using y assms(2) Some
    by (auto simp: cleanupTrigger_def removeHolder_def change_trigger_def trigger_release_def change_action_def put_commute
        split: if_splits)
qed

lemma action_release_ok:
  assumes "store_ok (incr a R) T e"
  shows "ok (\<lambda>e'. store_ok R T e' \<and> stack e' = stack e \<and> core {} e e') (action_release a e)"
proof -
  obtain x where x: "act e a = Some x" "int (R a) + 1 \<le> arefs x"
    using store_action [OF assms, of a] by (auto simp: incr_def)
  show ?thesis
  proof (cases "arefs x - 1 = 0")
    case True
    let ?e = "put_action a (Some (x\<lparr>arefs := 0\<rparr>)) e"
    have "store_ok R T ?e"
      using x True by (intro store_put_action [OF assms x(1)]) (auto simp: held_def incr_def)
    note ok = cleanupTrigger_ok [OF this, of a]
    have "store_ok R T (put_action a None e')" if "store_ok R T e'" "act e' = (act ?e)(a \<mapsto> x\<lparr>arefs := 0, atrigger := None\<rparr>)" for e'
      using that x True by (intro store_put_action [OF that(1)]) (auto simp: held_def)
    moreover have "core {} e (put_action a None e')" if "act e' = (act ?e)(a \<mapsto> x\<lparr>arefs := 0, atrigger := None\<rparr>)" for e'
      using that by (simp add: core_def)
    ultimately show ?thesis
      using True x ok by (auto simp: action_release_def elim!: ok_mono)
  next
    case False
    have "store_ok R T (put_action a (Some (x\<lparr>arefs := arefs x - 1\<rparr>)) e)"
      using x by (intro store_put_action [OF assms x(1)]) (auto simp: held_def incr_def)
    then show ?thesis
      using False x by (simp add: action_release_def core_def)
  qed
qed

lemma setTrigger_None_ok:
  assumes "store_ok R T e" "act e a = Some x"
  shows "ok (\<lambda>e'. store_ok R T e' \<and> stack e' = stack e \<and> act e' = (act e)(a \<mapsto> x\<lparr>atrigger := None\<rparr>)) (setTrigger a None e)"
proof (cases "atrigger x = None")
  case True
  then have "x\<lparr>atrigger := None\<rparr> = x" by simp
  then show ?thesis
    using assms True by (simp add: setTrigger_def fun_upd_idem)
next
  case False
  then show ?thesis
    using assms cleanupTrigger_ok [OF assms] by (auto simp: setTrigger_def elim: ok_mono)
qed

lemma setTrigger_Some_ok:
  assumes "store_ok R (incr t T) e" "act e a = Some x"
  shows "ok (\<lambda>e'. store_ok R T e' \<and> stack e' = stack e \<and> act e' = (act e)(a \<mapsto> x\<lparr>atrigger := Some t\<rparr>)) (setTrigger a (Some t) e)"
proof (cases "atrigger x = Some t")
  case True
  moreover from this have "x\<lparr>atrigger := Some t\<rparr> = x" by simp
  moreover have "store_ok R T e" using assms(1) by (rule store_mono) (auto simp: incr_def)
  ultimately show ?thesis
    using assms(2) by (simp add: setTrigger_def fun_upd_idem)
next
  case False
  have rest: "ok (\<lambda>e'. store_ok R T e' \<and> stack e' = stack e \<and> act e' = (act e)(a \<mapsto> x\<lparr>atrigger := Some t\<rparr>))
      (bindr (addHolder a t e1) (\<lambda>e2. bindr (setOwner (Action_Owner a) t e2) (change_action (\<lambda>x. x\<lparr>atrigger := Some t\<rparr>) a)))"
    if e1: "store_ok R (incr t T) e1" "stack e1 = stack e" "act e1 = (act e)(a \<mapsto> x\<lparr>atrigger := None\<rparr>)" for e1
  proof -
    obtain e2 where e2: "addHolder a t e1 = Inr e2" "store_ok R (incr t T) e2" "stack e2 = stack e" "act e2 = act e1"
      using change_trigger_keeps [OF e1(1), of t "\<lambda>y. y\<lparr>holders := holders y @ [a]\<rparr>"] e1(2)
      by (auto simp: addHolder_def ok_def incr_def)
    obtain e3 where e3: "setOwner (Action_Owner a) t e2 = Inr e3" "store_ok R (incr t T) e3" "stack e3 = stack e" "act e3 = act e1"
      using change_trigger_keeps [OF e2(2), of t "\<lambda>y. y\<lparr>towner := Action_Owner a\<rparr>"] e2(3,4)
      by (auto simp: setOwner_def ok_def incr_def)
    have "covers (Some (arefs x)) (R a)"
      using assms by (metis option.map(2) store_ok_def)
    then have "store_ok R T (put_action a (Some (x\<lparr>atrigger := Some t\<rparr>)) e3)"
      using e3(4) e1(3) by (intro store_put_action [OF e3(2)]) (auto simp: held_def incr_def)
    then show ?thesis
      using e2(1) e3 e1(3) by (simp add: change_action_def)
  qed
  show ?thesis
    using False assms(2) cleanupTrigger_ok [OF assms] rest by (auto simp: setTrigger_def elim!: ok_mono)
qed

lemma status_keeps:
  assumes "store_ok R T e" "0 < R a"
  shows "keeps R T e (set_status st a e)" "keeps R T e (setBlocker b a e)" "keeps R T e (action_stop a e)"
    "keeps R T e (action_abort a e)" "keeps R T e (suspend a e)"
    "keeps R T e (change_action (\<lambda>x. x\<lparr>started := True\<rparr>) a e)"
  unfolding set_status_def setBlocker_def action_stop_def action_abort_def suspend_def
  by (rule change_action_keeps [OF assms]; simp add: held_def)+

lemma disableTrigger_keeps:
  assumes "store_ok R T e" "act e a = Some x"
  shows "ok (\<lambda>e'. store_ok R T e' \<and> stack e' = stack e \<and> act e' = act e) (disableTrigger a e)"
proof (cases "atrigger x")
  case (Some t)
  then have "0 < uses e t + T t"
    using store_held [OF assms, of t] by (auto simp: held_def)
  then show ?thesis
    using change_trigger_keeps [OF assms(1), of t "\<lambda>y. y\<lparr>is_active := False\<rparr>"] assms(2) Some
    by (auto simp: disableTrigger_def trigger_disable_def elim!: ok_mono)
qed (use assms in \<open>simp add: disableTrigger_def\<close>)

lemma remove_action_ok:
  "store_ok (\<lambda>b. count_list qs b + R b) T e \<Longrightarrow>
   ok (\<lambda>(rest, e'). rest = removeAll a qs \<and> store_ok (\<lambda>b. count_list rest b + R b) T e' \<and> stack e' = stack e \<and> core {} e e')
     (remove_action a qs e)"
proof (induction qs arbitrary: R e)
  case (Cons q qs)
  have eq: "(\<lambda>b. count_list (q # qs) b + R b) = (\<lambda>b. count_list qs b + incr q R b)"
    by (auto simp: incr_def)
  show ?case
  proof (cases "q = a")
    case True
    have "incr a (\<lambda>b. count_list qs b + R b) = (\<lambda>b. count_list qs b + incr a R b)"
      by (auto simp: incr_def)
    then obtain e1 where e1: "action_release a e = Inr e1" "store_ok (\<lambda>b. count_list qs b + R b) T e1" "stack e1 = stack e" "core {} e e1"
      using action_release_ok [of a "\<lambda>b. count_list qs b + R b" T e] Cons.prems eq True by (auto simp: ok_def)
    then show ?thesis
      using Cons.IH [OF e1(2)] True core_trans [OF e1(4), of "{}" _ "{}"] by (auto elim!: ok_mono)
  next
    case False
    have "(\<lambda>b. count_list (q # rs) b + R b) = (\<lambda>b. count_list rs b + incr q R b)" for rs
      by (auto simp: incr_def)
    then show ?thesis
      using Cons.IH [of "incr q R" e] Cons.prems False unfolding eq by (auto simp: case_prod_unfold elim!: ok_mono)
  qed
qed simp

lemma safe_stack_member: "b \<in> set (stack e) \<Longrightarrow> 0 < count_list (stack e) b + A b"
  by (metis add_gr_0 count_list_0_iff gr0I)

lemma executingCommand_SomeD: "executingCommand e = Some b \<Longrightarrow> b \<in> set (stack e)"
  by (auto simp: executingCommand_def split: if_splits)

lemma core_act: "act e1 = act e \<Longrightarrow> core B e1 e' = core B e e'" "act e1 = act e \<Longrightarrow> core B e' e1 = core B e' e"
  by (simp_all add: core_def)

lemma resume_ok:
  assumes "store_ok R T e" "0 < R a"
  shows "ok (\<lambda>e'. store_ok R T e' \<and> stack e' = stack e \<and> core {a} e e') (resume a e)"
proof -
  let ?f = "\<lambda>x. x\<lparr>astatus := if saved_status x = Suspended then Running else saved_status x\<rparr>"
  obtain e1 where e1: "change_action ?f a e = Inr e1" "store_ok R T e1" "stack e1 = stack e"
    using change_action_keeps [OF assms, of ?f] by (auto simp: ok_def held_def)
  moreover have "core {a} e e1"
    using e1(1) by (auto simp: change_action_def core_def get_action_def split: option.splits)
  moreover obtain e2 where "request_self e1 = Inr e2" "store_ok R T e2" "stack e2 = stack e1" "act e2 = act e1"
    using request_self_ok [OF e1(2)] by (auto simp: ok_def)
  ultimately show ?thesis
    by (simp add: resume_def core_def)
qed

lemma wake_next_ok:
  assumes "store_ok R T e" "\<And>b. b \<in> set (stack e) \<Longrightarrow> 0 < R b"
  shows "ok (\<lambda>e'. store_ok R T e' \<and> stack e' = stack e \<and> core (set (stack e)) e e') (wake_next e)"
proof (cases "executingCommand e")
  case (Some b)
  note b = executingCommand_SomeD [OF Some]
  note pos = assms(2) [OF b]
  obtain e1 where e1: "setBlocker None b e = Inr e1" "store_ok R T e1" "stack e1 = stack e"
    using status_keeps(2) [OF assms(1) pos, of None] by (auto simp: ok_def)
  have core: "core {b} e e1"
    using e1(1) by (auto simp: setBlocker_def change_action_def core_def get_action_def split: option.splits)
  obtain x where x: "act e1 b = Some x"
    using store_action [OF e1(2) pos] by auto
  obtain e2 where e2: "resume b e1 = Inr e2" "store_ok R T e2" "stack e2 = stack e" "core {b} e1 e2"
    using resume_ok [OF e1(2) pos] e1(3) by (auto simp: ok_def)
  then show ?thesis
    using Some e1 x core_trans [OF core, of "{b}" e2 "set (stack e)"] core_trans [OF core, of "{b}" e1 "set (stack e)"] b
    by (auto simp: wake_next_def)
qed (use assms in \<open>simp add: wake_next_def\<close>)

lemma machine_stop_ok:
  assumes "safe A T e" "0 < A a \<or> a \<in> set (stack e)"
  shows "ok (\<lambda>e'. safe A T e' \<and> stack e' = removeAll a (stack e) \<and> core (set (stack e) - {a}) e e') (machine_stop a e)"
proof -
  let ?R = "\<lambda>b. count_list (stack e) b + A b"
  have store_ok: "store_ok ?R T e" and pos: "0 < ?R a"
    using assms safe_stack_member [of a e A] by (auto simp: safe_def)
  obtain x where x: "act e a = Some x"
    using store_action [OF store_ok pos] by auto
  obtain e1 where e1: "setTrigger a None e = Inr e1" "store_ok ?R T e1" "stack e1 = stack e" "act e1 = (act e)(a \<mapsto> x\<lparr>atrigger := None\<rparr>)"
    using setTrigger_None_ok [OF store_ok x] by (auto simp: ok_def)
  obtain e2 where e2: "action_stop a e1 = Inr e2" "store_ok ?R T e2" "stack e2 = stack e"
    using status_keeps(3) [OF e1(2) pos] e1(3) by (auto simp: ok_def)
  have core2: "core {} e e2"
    using e2(1) e1(4) x by (auto simp: action_stop_def change_action_def core_def split: if_splits)
  let ?S = "removeAll a (stack e)"
  obtain e3 where e3: "remove_action a (stack e) e2 = Inr (?S, e3)" "store_ok (\<lambda>b. count_list ?S b + A b) T e3" "core {} e2 e3"
    using remove_action_ok [OF e2(2), of a] by (auto simp: ok_def)
  obtain e4 where e4: "wake_next (set_stack ?S e3) = Inr e4" "store_ok (\<lambda>b. count_list ?S b + A b) T e4" "stack e4 = ?S"
      "core (set ?S) (set_stack ?S e3) e4"
    using wake_next_ok [of "\<lambda>b. count_list ?S b + A b" T "set_stack ?S e3"] e3(2) safe_stack_member [of _ "set_stack ?S e3" A]
    by (auto simp: ok_def)
  obtain e5 where e5: "request_self e4 = Inr e5" "store_ok (\<lambda>b. count_list ?S b + A b) T e5" "stack e5 = ?S" "act e5 = act e4"
    using request_self_ok [OF e4(2)] e4(3) by (auto simp: ok_def)
  have "core (set ?S) e e3"
    by (rule core_trans [OF core2 e3(3)]) auto
  then have "core (set ?S) e e4"
    using core_trans [OF _ e4(4) [unfolded core_act [OF set_stack_frame(1)]]] by blast
  then have "core (set (stack e) - {a}) e e5"
    using core_act(2) [OF e5(4)] by simp
  then show ?thesis
    using e1(1) e2(1,3) e3(1) e4(1) e5(1-3) by (simp add: machine_stop_def safe_def)
qed

lemma change_action_act: "change_action f a e = Inr e' \<Longrightarrow> act e a = Some x \<Longrightarrow> act e' = (act e)(a \<mapsto> f x)"
  by (auto simp: change_action_def)

lemma action_start_ok:
  assumes "store_ok R T e" "0 < R a" "act e a = Some x" "\<not> started x"
  shows "ok (\<lambda>e'. store_ok R T e' \<and> stack e' = stack e \<and> act e' = (act e)(a \<mapsto> x\<lparr>started := True\<rparr>)) (action_start a e)"
  using assms status_keeps(6) [OF assms(1,2)] change_action_act [OF _ assms(3)]
  by (auto simp: action_start_def ok_def)

lemma suspend_top_ok:
  assumes "store_ok R T e" "0 < R b" "act e a = Some x"
  shows "ok (\<lambda>e'. store_ok R T e' \<and> stack e' = stack e \<and> (\<exists>x'. act e' a = Some x' \<and> started x' = started x))
      (bindr (suspend b e) (setBlocker (Some c) b))"
proof -
  obtain z where z: "act e b = Some z"
    using store_action [OF assms(1,2)] by auto
  obtain e1 where e1: "suspend b e = Inr e1" "store_ok R T e1" "stack e1 = stack e"
    using status_keeps(5) [OF assms(1,2)] by (auto simp: ok_def)
  obtain e2 where e2: "setBlocker (Some c) b e1 = Inr e2" "store_ok R T e2" "stack e2 = stack e"
    using status_keeps(2) [OF e1(2) assms(2)] e1(3) by (auto simp: ok_def)
  have "act e1 = (act e)(b \<mapsto> (if astatus z = Suspended then z else z\<lparr>saved_status := astatus z, astatus := Suspended\<rparr>))"
    using change_action_act [OF e1(1) [unfolded suspend_def] z] .
  moreover from this have "act e2 = (act e1)(b \<mapsto> (the (act e1 b))\<lparr>blocked := Some c\<rparr>)"
    using change_action_act [OF e2(1) [unfolded setBlocker_def]] by simp
  ultimately show ?thesis
    using e1 e2 assms(3) z by (auto)
qed

lemma machine_push_ok:
  assumes "safe (incr a A) T e" "act e a = Some x" "\<not> started x"
  shows "ok (\<lambda>e'. safe A T e' \<and> stack e' = stack e @ [a]) (machine_push a e)"
proof -
  let ?R = "\<lambda>b. count_list (stack e) b + incr a A b"
  have R: "?R = (\<lambda>b. count_list (stack e @ [a]) b + A b)"
    by (auto simp: incr_def)
  have store_ok: "store_ok ?R T e" using assms(1) by (simp add: safe_def)
  obtain e1 x1 where e1: "(case executingCommand e of None \<Rightarrow> Inr e
      | Some b \<Rightarrow> bindr (suspend b e) (setBlocker (Some a) b)) = Inr e1"
    "store_ok ?R T e1" "stack e1 = stack e" "act e1 a = Some x1" "\<not> started x1"
  proof (cases "executingCommand e")
    case None
    then show ?thesis
      using that [of e x] store_ok assms(2,3) by simp
  next
    case (Some b)
    then have "0 < ?R b" using safe_stack_member executingCommand_SomeD by blast
    then show ?thesis
      using suspend_top_ok [OF store_ok, of b a x a] assms(2,3) Some that by (auto simp: ok_def)
  qed
  obtain e2 where e2: "action_start a (set_stack (stack e @ [a]) e1) = Inr e2" "store_ok ?R T e2" "stack e2 = stack e @ [a]"
    using action_start_ok [of ?R T "set_stack (stack e @ [a]) e1" a x1] e1(2,4,5) by (auto simp: ok_def incr_def)
  then show ?thesis
    using e1(1,3) e2(2) [unfolded R] by (simp add: machine_push_def safe_def)
qed

lemma enqueueAction_safe: "safe (incr a A) T e \<Longrightarrow> safe A T (enqueueAction a e)"
proof -
  have "(\<lambda>b. count_list (a # stack e) b + A b) = (\<lambda>b. count_list (stack e) b + incr a A b)"
    by (auto simp: incr_def)
  then show "safe (incr a A) T e \<Longrightarrow> safe A T (enqueueAction a e)"
    by (simp add: safe_def enqueueAction_def)
qed

lemma machine_start_ok:
  assumes "safe A T e" "0 < A a" "act e a = Some x"
  shows "ok (\<lambda>e'. safe A T e' \<and> (\<exists>x'. act e' a = Some x' \<and> akind x' = akind x \<and> atrigger x' = atrigger x)) (machine_start a e)"
proof (cases "started x")
  case False
  let ?R = "\<lambda>b. count_list (stack e) b + A b"
  have store_ok: "store_ok ?R T e" and pos: "0 < ?R a" using assms by (auto simp: safe_def)
  obtain e1 where e1: "action_start a e = Inr e1" "store_ok ?R T e1" "stack e1 = stack e" "act e1 = (act e)(a \<mapsto> x\<lparr>started := True\<rparr>)"
    using action_start_ok [OF store_ok pos assms(3) False] by (auto simp: ok_def)
  have R: "incr a ?R = (\<lambda>b. count_list (stack e @ [a]) b + A b)"
    by (auto simp: incr_def)
  obtain e2 where e2: "action_retain a e1 = Inr e2" "store_ok (incr a ?R) T e2" "stack e2 = stack e"
    using action_retain_ok [OF e1(2) pos] e1(3) by (auto simp: ok_def)
  have act2: "act e2 = (act e1)(a \<mapsto> x\<lparr>started := True, arefs := arefs x + 1\<rparr>)"
    using change_action_act [OF e2(1) [unfolded action_retain_def]] e1(4) by simp
  show ?thesis
  proof (cases "executingCommand e1 = Some a")
    case True
    obtain e3 where "request_self e1 = Inr e3" "store_ok ?R T e3" "stack e3 = stack e" "act e3 = act e1"
      using request_self_ok [OF e1(2)] e1(3) by (auto simp: ok_def)
    then show ?thesis
      using False True assms(3) e1(1,4) by (simp add: machine_start_def safe_def)
  next
    case other: False
    then show ?thesis
      using False assms(3) e1(1,4) e2(1,3) act2 e2(2) [unfolded R] by (simp add: machine_start_def safe_def)
  qed
qed (use assms in \<open>auto simp: machine_start_def\<close>)

lemma release_all_ok:
  "store_ok (\<lambda>b. count_list qs b + A b) T e \<Longrightarrow> stack e = qs \<Longrightarrow> ok (\<lambda>e'. store_ok A T e' \<and> stack e' = []) (release_all qs e)"
proof (induction qs arbitrary: e)
  case (Cons q qs)
  let ?e = "set_stack qs e" and ?R = "\<lambda>b. count_list qs b + A b"
  have "(\<lambda>b. count_list (q # qs) b + A b) = incr q ?R"
    by (auto simp: incr_def)
  then have store_ok: "store_ok (incr q ?R) T ?e"
    using Cons.prems(1) by simp
  obtain x where x: "act ?e q = Some x"
    using store_action [OF store_ok, of q] by (auto simp: incr_def)
  obtain e0 where e0: "disableTrigger q ?e = Inr e0" "store_ok (incr q ?R) T e0" "stack e0 = qs"
    using disableTrigger_keeps [OF store_ok x] by (auto simp: ok_def)
  obtain e1 where e1: "(case atrigger x of None \<Rightarrow> Inr ?e
      | Some t \<Rightarrow> bindr (get_trigger e t) (\<lambda>y. if is_active y \<and> \<not> seen y then disableTrigger q ?e else Inr ?e)) = Inr e1"
    "store_ok (incr q ?R) T e1" "stack e1 = qs"
  proof (cases "atrigger x")
    case (Some t)
    then obtain y where "trig e t = Some y"
      using store_held [OF store_ok x, of t] by (auto simp: held_def)
    then show ?thesis
      using that e0 store_ok Some by (cases "is_active y \<and> \<not> seen y") simp_all
  qed (use store_ok that in simp)
  obtain e2 where e2: "action_release q e1 = Inr e2" "store_ok ?R T e2" "stack e2 = qs"
    using action_release_ok [OF e1(2)] e1(3) by (auto simp: ok_def)
  then show ?case
    using x e1(1) Cons.IH [OF e2(2,3)] by simp
qed simp

lemma setTrigger_owner:
  assumes "setTrigger a (Some t) e = Inr e'" "act e a = Some x" "atrigger x \<noteq> Some t"
  shows "\<exists>y. trig e' t = Some y \<and> towner y = Action_Owner a"
proof -
  obtain e1 e2 e3 where "setOwner (Action_Owner a) t e2 = Inr e3" "change_action (\<lambda>x. x\<lparr>atrigger := Some t\<rparr>) a e3 = Inr e'"
    using assms by (auto simp: setTrigger_def ub_simps)
  then show ?thesis
    by (auto simp: setOwner_def change_trigger_def change_action_def ub_simps)
qed

lemma uses_new:
  "next_action e' = next_action e + 1 \<Longrightarrow> act e' = (act e)(next_action e := x) \<Longrightarrow> uses e' t = uses e t + held t x"
  by (simp add: uses_def)

lemma new_action_ok:
  assumes "store_ok R T e" "\<And>t. T' t + of_bool (k = Fire_Trigger (Some t)) \<le> T t"
  shows "store_ok (incr (next_action e) R) T' (snd (new_action k msg e))"
proof -
  let ?a = "next_action e" and ?e = "snd (new_action k msg e)"
  have "act e ?a = None"
    using assms(1) by (force simp: store_ok_def)
  then have "R ?a = 0"
    using assms(1) unfolding store_ok_def by (metis covers.simps(1) option.map(1))
  obtain x where x: "act ?e = (act e)(?a \<mapsto> x)" "arefs x = 1" "akind x = k" "atrigger x = None"
    by (simp add: new_action_def)
  have "uses ?e t + T' t \<le> uses e t + T t" for t
    using uses_new [of ?e e "Some x" t] x assms(2) [of t] by (simp add: new_action_def held_def)
  then show ?thesis
    using assms(1) x \<open>R ?a = 0\<close> unfolding store_ok_def
    by (auto simp: new_action_def incr_def less_Suc_eq intro: covers_le)
qed

lemma new_trigger_ok:
  assumes "store_ok R T e"
  shows "store_ok R (incr (next_trigger e) T) (snd (new_trigger n e))"
proof -
  let ?t = "next_trigger e"
  have "trig e ?t = None"
    using assms by (force simp: store_ok_def)
  then have "uses e ?t + T ?t = 0"
    using assms unfolding store_ok_def by (metis covers.simps(1) option.map(1))
  moreover have "uses (snd (new_trigger n e)) = uses e"
    by (simp add: uses_def new_trigger_def fun_eq_iff put_trigger_def)
  ultimately show ?thesis
    using assms unfolding store_ok_def
    by (auto simp: new_trigger_def incr_def less_Suc_eq intro: covers_le)
qed

lemma new_stack [simp]: "stack (snd (new_action k msg e)) = stack e" "stack (snd (new_trigger n e)) = stack e"
  by (simp_all add: new_action_def new_trigger_def stack_def machine_def)

lemma new_FireTriggerAction_ok:
  assumes "store_ok R T e" "0 < uses e t + T t"
  shows "ok (\<lambda>(f, e'). f = next_action e \<and> store_ok (incr f R) T e' \<and> stack e' = stack e \<and> act e' = (act e)(f := act e' f))
    (new_FireTriggerAction t e)"
proof -
  obtain e1 where e1: "trigger_retain t e = Inr e1" "store_ok R (incr t T) e1" "stack e1 = stack e" "act e1 = act e"
      "next_action e1 = next_action e"
    using trigger_retain_ok [OF assms] by (auto simp: ok_def trigger_retain_def change_trigger_def get_trigger_def split: option.splits)
  let ?f = "next_action e"
  define e2 where "e2 = snd (new_action (Fire_Trigger (Some t)) False e1)"
  have e2: "new_action (Fire_Trigger (Some t)) False e1 = (?f, e2)" "store_ok (incr ?f R) T e2" "stack e2 = stack e"
    "act e2 = (act e)(?f := act e2 ?f)" "0 < held t (act e2 ?f)" "next_action e2 = ?f + 1"
    using new_action_ok [OF e1(2), of T "Fire_Trigger (Some t)" False] e1
    by (simp_all add: e2_def incr_def, simp_all add: new_action_def held_def)
  have "0 < uses e2 t + T t"
    using e2(5,6) member_le_sum [of ?f "{..<next_action e2}" "\<lambda>b. held t (act e2 b)"] by (simp add: uses_def)
  then obtain e3 where e3: "setOwner Machine_Owner t e2 = Inr e3" "store_ok (incr ?f R) T e3" "stack e3 = stack e" "act e3 = act e2"
      "0 < uses e3 t + T t"
    using change_trigger_keeps [OF e2(2), of t "\<lambda>y. y\<lparr>towner := Machine_Owner\<rparr>"] e2(3) by (auto simp: ok_def setOwner_def)
  show ?thesis
    using e1(1) e2(1,4) e3 change_trigger_keeps [OF e3(2,5), of "\<lambda>y. y\<lparr>holders := holders y @ [?f]\<rparr>"]
    by (auto simp: new_FireTriggerAction_def addHolder_def elim!: ok_mono)
qed

lemma trigger_fire_own:
  assumes "store_ok R T e" "trig e t = Some y" "towner y = Action_Owner a" "act e a = Some x"
  shows "ok (\<lambda>e'. store_ok R T e' \<and> stack e' = stack e \<and> act e' = act e) (trigger_fire t e)"
proof (cases "seen y")
  case False
  have "covers (Some (trefs y)) (uses e t + T t)"
    using assms by (metis option.map(2) store_ok_def)
  then have "store_ok R T (put_trigger t (Some (y\<lparr>seen := True\<rparr>)) e)"
    by (intro store_put_trigger [OF assms(1,2)]) simp_all
  then show ?thesis
    using False assms by (simp add: trigger_fire_def Let_def)
qed (use assms in \<open>simp add: trigger_fire_def\<close>)

lemma pending_held: "akind x = Fire_Trigger (Some t) \<Longrightarrow> 0 < held t (Some x)"
  by (simp add: held_def)

lemma clear_pending_ok:
  assumes "store_ok R T e" "act e a = Some x" "akind x = Fire_Trigger (Some p)" "atrigger x = Some p" "trig e p = Some y"
  shows "ok (\<lambda>e'. store_ok R T e' \<and> stack e' = stack e \<and> act e' = (act e)(a \<mapsto> x\<lparr>akind := Fire_Trigger None\<rparr>) \<and>
      trig e' p = Some (y\<lparr>trefs := trefs y - 1\<rparr>))
    (bindr (trigger_release p e) (change_action (\<lambda>x. x\<lparr>akind := Fire_Trigger None\<rparr>) a))"
proof -
  let ?x = "x\<lparr>akind := Fire_Trigger None\<rparr>"
  have refs: "2 \<le> trefs y" "int (uses e p + T p) \<le> trefs y"
    using store_held [OF assms(1,2), of p] assms(3-5) by (auto simp: held_def)
  have "covers (Some (arefs x)) (R a)"
    using assms(1,2) by (metis option.map(2) store_ok_def)
  then have store1: "store_ok R (incr p T) (put_action a (Some ?x) e)"
    by (intro store_put_action [OF assms(1,2)]) (auto simp: held_def incr_def assms(3,4))
  have "store_ok R T (put_trigger p (Some (y\<lparr>trefs := trefs y - 1\<rparr>)) (put_action a (Some ?x) e))"
    using store_trigger [OF store1, of p] assms(5) by (intro store_put_trigger [OF store1]) (auto simp: incr_def)
  then show ?thesis
    using refs assms(2,5) by (simp add: trigger_release_def change_action_def put_commute)
qed

lemma complete_action_ok:
  assumes "safe A T e" "0 < A a"
  shows "ok (\<lambda>(st, e'). st = Complete \<and> safe A T e') (complete_action a e)"
proof -
  let ?R = "\<lambda>b. count_list (stack e) b + A b"
  have store_ok: "store_ok ?R T e" and pos: "0 < ?R a" using assms by (auto simp: safe_def)
  obtain x where x: "act e a = Some x"
    using store_action [OF store_ok pos] by auto
  obtain e1 where e1: "set_status Complete a e = Inr e1" "store_ok ?R T e1" "stack e1 = stack e"
    using status_keeps(1) [OF store_ok pos, of Complete] by (auto simp: ok_def)
  have act1: "act e1 a = Some (x\<lparr>astatus := Complete\<rparr>)"
    using change_action_act [OF e1(1) [unfolded set_status_def] x] by simp
  have "safe A T e1" using e1 by (simp add: safe_def)
  then obtain e2 where e2: "machine_stop a e1 = Inr e2" "safe A T e2" "core (set (stack e1) - {a}) e1 e2"
    using machine_stop_ok [of A T e1 a] assms(2) by (auto simp: ok_def)
  obtain x2 where x2: "act e2 a = Some x2"
    using store_action [of _ T e2 a] e2(2) assms(2) unfolding safe_def by force
  then have "astatus x2 = Complete"
    using e2(3) act1 unfolding core_def by fastforce
  then show ?thesis
    using e1(1) e2(1,2) x2 by (simp add: complete_action_def getStatus_def)
qed

lemma FireTriggerAction_run_ok:
  assumes "safe A T e" "0 < A a" "act e a = Some x" "akind x = Fire_Trigger (Some p)" "atrigger x = None"
  shows "ok (\<lambda>(st, e'). st = Complete \<and> safe A T e') (FireTriggerAction_run a (Some p) e)"
proof -
  obtain e1 x1 where e1: "machine_start a e = Inr e1" "safe A T e1" "act e1 a = Some x1" "akind x1 = Fire_Trigger (Some p)"
      "atrigger x1 = None"
    using machine_start_ok [OF assms(1-3)] assms(4,5) by (auto simp: ok_def)
  let ?R = "\<lambda>b. count_list (stack e1) b + A b"
  have store1: "store_ok ?R T e1" using e1(2) by (simp add: safe_def)
  have "0 < uses e1 p + T p"
    using store_held [OF store1 e1(3) pending_held [OF e1(4)]] pending_held [OF e1(4)] by auto
  then obtain e2 where e2: "trigger_retain p e1 = Inr e2" "store_ok ?R (incr p T) e2" "stack e2 = stack e1" "act e2 = act e1"
    using trigger_retain_ok [OF store1] by (auto simp: ok_def)
  have x2: "act e2 a = Some x1" using e2(4) e1(3) by simp
  obtain e3 where e3: "setTrigger a (Some p) e2 = Inr e3" "store_ok ?R T e3" "stack e3 = stack e1"
      "act e3 a = Some (x1\<lparr>atrigger := Some p\<rparr>)"
    using setTrigger_Some_ok [OF e2(2) x2] e2(3) by (auto simp: ok_def)
  obtain y where y: "trig e3 p = Some y" "towner y = Action_Owner a"
    using setTrigger_owner [OF e3(1) x2] e1(5) by auto
  obtain e4 e5 where e5: "trigger_release p e3 = Inr e4" "change_action (\<lambda>x. x\<lparr>akind := Fire_Trigger None\<rparr>) a e4 = Inr e5"
      "store_ok ?R T e5" "stack e5 = stack e1" "act e5 a = Some (x1\<lparr>atrigger := Some p, akind := Fire_Trigger None\<rparr>)"
      "trig e5 p = Some (y\<lparr>trefs := trefs y - 1\<rparr>)"
    using clear_pending_ok [OF e3(2,4) _ _ y(1)] e1(4) e3(3) by (auto simp: ok_def ub_simps)
  obtain e6 where e6: "(if is_active y then trigger_fire p e5 else Inr e5) = Inr e6" "store_ok ?R T e6" "stack e6 = stack e1"
    using trigger_fire_own [OF e5(3,6) _ e5(5)] y(2) e5(3,4) by (cases "is_active y") (auto simp: ok_def)
  have "ok (\<lambda>(st, e'). st = Complete \<and> safe A T e') (complete_action a e6)"
    using complete_action_ok [of A T e6 a] e6 assms(2) by (simp add: safe_def)
  then show ?thesis
    using e1(1) e2(1) e3(1) e5(1,2,5,6) e6(1) by (simp add: FireTriggerAction_run_def complete_action_def)
qed

lemma scheduled_frame [simp]:
  "store_ok R T (e\<lparr>scheduled := q\<rparr>) = store_ok R T e" "stack (e\<lparr>scheduled := q\<rparr>) = stack e"
  by (simp_all add: store_ok_def uses_def stack_def machine_def)

lemma new_FireTriggerAction_trigger:
  "new_FireTriggerAction t e = Inr (f, e') \<Longrightarrow> trig e t = Some y \<Longrightarrow>
   trig e' t = Some (y\<lparr>trefs := trefs y + 1, towner := Machine_Owner, holders := holders y @ [f]\<rparr>)"
  by (auto simp: new_FireTriggerAction_def new_action_def trigger_retain_def setOwner_def addHolder_def change_trigger_def ub_simps)

lemma change_action_frame:
  "change_action f a e = Inr e' \<Longrightarrow> next_action e' = next_action e \<and> trig e' = trig e \<and> next_trigger e' = next_trigger e"
  by (auto simp: change_action_def ub_simps)

lemma cleanupTrigger_next: "cleanupTrigger a e = Inr e' \<Longrightarrow> next_action e' = next_action e"
  by (auto simp: cleanupTrigger_def change_action_def removeHolder_def change_trigger_def trigger_release_def ub_simps
      split: option.splits)

lemma incr_eq: "incr f A = (\<lambda>b. count_list [f] b + A b)"
  by (auto simp: incr_def)

lemma put_scheduled [simp]: "scheduled (put_action a x e) = scheduled e" "scheduled (put_trigger t y e) = scheduled e"
  "scheduled (set_stack as e) = scheduled e" "scheduled (add_work e) = scheduled e" "scheduled (activate_self e) = scheduled e"
  "scheduled (change_machine f e) = scheduled e"
  "scheduled (snd (new_action k msg e)) = scheduled e" "scheduled (snd (new_trigger n e)) = scheduled e"
  by (simp_all add: put_action_def put_trigger_def set_stack_def change_machine_def add_work_def activate_self_def
      new_action_def new_trigger_def)

lemma change_action_scheduled: "change_action f a e = Inr e' \<Longrightarrow> scheduled e' = scheduled e"
  by (auto simp: change_action_def ub_simps)

lemma change_trigger_scheduled: "change_trigger f a e = Inr e' \<Longrightarrow> scheduled e' = scheduled e"
  by (auto simp: change_trigger_def ub_simps)

lemma request_self_scheduled: "request_self e = Inr e' \<Longrightarrow> scheduled e' = scheduled e"
  by (auto simp: request_self_def ub_simps)

lemma trigger_release_scheduled: "trigger_release t e = Inr e' \<Longrightarrow> scheduled e' = scheduled e"
  by (auto simp: trigger_release_def ub_simps)

lemmas keep_scheduled = change_action_scheduled change_trigger_scheduled request_self_scheduled trigger_release_scheduled

lemma cleanupTrigger_scheduled: "cleanupTrigger a e = Inr e' \<Longrightarrow> scheduled e' = scheduled e"
  by (auto simp: cleanupTrigger_def removeHolder_def ub_simps split: option.splits dest!: keep_scheduled)

lemma setTrigger_scheduled: "setTrigger a t e = Inr e' \<Longrightarrow> scheduled e' = scheduled e"
  by (auto simp: setTrigger_def addHolder_def setOwner_def ub_simps split: option.splits if_splits
      dest!: keep_scheduled cleanupTrigger_scheduled)

lemma action_release_scheduled: "action_release a e = Inr e' \<Longrightarrow> scheduled e' = scheduled e"
  by (auto simp: action_release_def ub_simps split: if_splits dest!: cleanupTrigger_scheduled)

lemma action_start_scheduled: "action_start a e = Inr e' \<Longrightarrow> scheduled e' = scheduled e"
  by (auto simp: action_start_def ub_simps dest!: keep_scheduled)

lemma machine_start_scheduled: "machine_start a e = Inr e' \<Longrightarrow> scheduled e' = scheduled e"
  by (auto simp: machine_start_def action_retain_def ub_simps split: if_splits dest!: keep_scheduled action_start_scheduled)

lemma remove_action_scheduled: "remove_action a qs e = Inr (rest, e') \<Longrightarrow> scheduled e' = scheduled e"
  by (induction qs arbitrary: e rest) (auto simp: ub_simps split: if_splits dest!: action_release_scheduled)

lemma wake_next_scheduled: "wake_next e = Inr e' \<Longrightarrow> scheduled e' = scheduled e"
  by (auto simp: wake_next_def setBlocker_def resume_def ub_simps split: option.splits if_splits dest!: keep_scheduled)

lemma machine_stop_scheduled: "machine_stop a e = Inr e' \<Longrightarrow> scheduled e' = scheduled e"
  by (auto simp: machine_stop_def action_stop_def ub_simps
      dest!: keep_scheduled setTrigger_scheduled remove_action_scheduled wake_next_scheduled)

lemma complete_action_scheduled: "complete_action a e = Inr (st, e') \<Longrightarrow> scheduled e' = scheduled e"
  by (auto simp: complete_action_def set_status_def getStatus_def ub_simps dest!: keep_scheduled machine_stop_scheduled)

lemma new_FireTriggerAction_scheduled: "new_FireTriggerAction t e = Inr (f, e') \<Longrightarrow> scheduled e' = scheduled e"
  by (auto simp: new_FireTriggerAction_def new_action_def trigger_retain_def setOwner_def addHolder_def ub_simps
      dest!: keep_scheduled)

text \<open>The new trigger of a waiting action and the action that will fire it.\<close>

lemma own_trigger_ok:
  assumes "store_ok R T e" "act e a = Some x" "atrigger x = None" "new_trigger n e = (t, e1)"
  shows "ok (\<lambda>(f, e'). f = next_action e \<and> store_ok (incr f R) T e' \<and> stack e' = stack e \<and> (\<exists>y. trig e' t = Some y \<and> \<not> seen y))
    (bindr (change_action (\<lambda>x. x\<lparr>atrigger := Some t\<rparr>) a e1) (\<lambda>e2. bindr (addHolder a t e2) (new_FireTriggerAction t)))"
proof -
  have e1: "store_ok R (incr t T) e1" "stack e1 = stack e" "act e1 = act e" "next_action e1 = next_action e"
    and t: "trig e1 t = Some \<lparr>tname = n, seen = False, towner = No_Owner, trefs = 1, is_active = True, holders = []\<rparr>"
    using new_trigger_ok [OF assms(1), of n] new_stack(2) [of n e] assms(4) by (auto simp: new_trigger_def)
  let ?x = "x\<lparr>atrigger := Some t\<rparr>" and ?e = "put_action a (Some (x\<lparr>atrigger := Some t\<rparr>)) e1"
  have "covers (Some (arefs x)) (R a)"
    using assms(1,2) by (metis option.map(2) store_ok_def)
  then have e2: "store_ok R T ?e"
    using e1(1,3) assms(2) by (intro store_put_action [OF e1(1)]) (auto simp: held_def incr_def assms(3))
  have pos: "0 < uses ?e t + T t"
    using store_held [OF e2, of a ?x t] by (auto simp: held_def)
  obtain e3 where e3: "addHolder a t ?e = Inr e3" "store_ok R T e3" "stack e3 = stack e" "0 < uses e3 t + T t"
      "trig e3 t = Some \<lparr>tname = n, seen = False, towner = No_Owner, trefs = 1, is_active = True, holders = [a]\<rparr>"
      "next_action e3 = next_action e"
    using change_trigger_keeps [OF e2 pos, of "\<lambda>y. y\<lparr>holders := holders y @ [a]\<rparr>"] t e1(2,4) pos
    by (auto simp: ok_def addHolder_def change_trigger_def)
  obtain f e4 where e4: "new_FireTriggerAction t e3 = Inr (f, e4)" "f = next_action e" "store_ok (incr f R) T e4" "stack e4 = stack e"
    using new_FireTriggerAction_ok [OF e3(2,4)] e3(3,6) by (auto simp: ok_def)
  then show ?thesis
    using e1(3) assms(2) e3(1) new_FireTriggerAction_trigger [OF e4(1) e3(5)] by (simp add: change_action_def)
qed

lemma schedule_wait_ok:
  assumes "store_ok R T e" "0 < R a" "in_long (w * 1000)"
  shows "ok (\<lambda>e'. store_ok (incr (next_action e) R) T e' \<and> stack e' = stack e \<and> scheduled e' = scheduled e @ [(w * 1000, next_action e)])
    (schedule_wait a w prop_name u e)"
proof -
  obtain x where x: "act e a = Some x"
    using store_action [OF assms(1,2)] by auto
  obtain e1 where e1: "set_status Running a e = Inr e1" "store_ok R T e1" "stack e1 = stack e" "next_action e1 = next_action e"
    using status_keeps(1) [OF assms(1,2), of Running] change_action_frame by (auto simp: ok_def set_status_def)
  have x1: "act e1 a = Some (x\<lparr>astatus := Running\<rparr>)"
    using change_action_act [OF e1(1) [unfolded set_status_def] x] by simp
  obtain e2 where e2: "cleanupTrigger a e1 = Inr e2" "store_ok R T e2" "stack e2 = stack e" "next_action e2 = next_action e"
      "act e2 a = Some (x\<lparr>astatus := Running, atrigger := None\<rparr>)"
    using cleanupTrigger_ok [OF e1(2) x1] cleanupTrigger_next [of a e1] e1(3,4) by (auto simp: ok_def)
  obtain t e3 where t: "new_trigger (take 99 (machine_name e @ '' WaitTimer'')) e2 = (t, e3)"
    by (cases "new_trigger (take 99 (machine_name e @ '' WaitTimer'')) e2")
  obtain e4 e5 e6 y where e6: "change_action (\<lambda>x. x\<lparr>atrigger := Some t\<rparr>) a e3 = Inr e4" "addHolder a t e4 = Inr e5"
      "new_FireTriggerAction t e5 = Inr (next_action e, e6)" "store_ok (incr (next_action e) R) T e6" "stack e6 = stack e"
      "trig e6 t = Some y" "\<not> seen y"
    using own_trigger_ok [OF e2(2,5) _ t] e2(3,4) by (auto simp: ok_def ub_simps)
  let ?e = "e6\<lparr>scheduled := scheduled e6 @ [(w * 1000, next_action e)]\<rparr>"
  have "store_ok (incr (next_action e) R) T ?e" "0 < incr (next_action e) R a"
    using e6(4) assms(2) by (auto simp: incr_def)
  then obtain e7 where e7: "change_action (\<lambda>x. x\<lparr>akind := Wait_Action (if u then -1 else w) prop_name u\<rparr>) a ?e = Inr e7"
      "store_ok (incr (next_action e) R) T e7" "stack e7 = stack e"
    using change_action_keeps [of _ T ?e a "\<lambda>x. x\<lparr>akind := Wait_Action (if u then -1 else w) prop_name u\<rparr>"] e6(5)
    by (auto simp: ok_def held_def)
  have "scheduled e3 = scheduled e2"
    using t put_scheduled(8) [of "take 99 (machine_name e @ '' WaitTimer'')" e2] by simp
  then have "scheduled e6 = scheduled e"
    using keep_scheduled(1) [OF e1(1) [unfolded set_status_def]] cleanupTrigger_scheduled [OF e2(1)]
      keep_scheduled(1) [OF e6(1)] keep_scheduled(2) [OF e6(2) [unfolded addHolder_def]]
      new_FireTriggerAction_scheduled [OF e6(3)]
    by simp
  then have "scheduled e7 = scheduled e @ [(w * 1000, next_action e)]"
    using keep_scheduled(1) [OF e7(1)] by simp
  moreover have "trig ?e t = Some y" using e6(6) by simp
  ultimately show ?thesis
    using e1(1) e2(1) t e6(1-3,7) e7 assms(3) by (simp add: schedule_wait_def Let_def chk_long_def)
qed

lemma WaitAction_run_ok:
  assumes "safe A T e" "0 < A a" "act e a = Some x" "atrigger x = None"
    and "read_wait_time g w prop_name = Inr v" "in_long (v * 1000)"
  shows "ok (\<lambda>(st, e'). \<exists>new. scheduled e' = scheduled e @ new \<and> safe (\<lambda>b. count_list (map snd new) b + A b) T e')
    (WaitAction_run g a w prop_name u e)"
proof -
  obtain e1 x1 where e1: "machine_start a e = Inr e1" "safe A T e1" "act e1 a = Some x1" "atrigger x1 = None"
    using machine_start_ok [OF assms(1-3)] assms(4) by (auto simp: ok_def)
  let ?R = "\<lambda>b. count_list (stack e1) b + A b" and ?f = "\<lambda>x. x\<lparr>akind := Wait_Action v prop_name u\<rparr>"
  have store1: "store_ok ?R T e1" and pos: "0 < ?R a" using e1(2) assms(2) by (auto simp: safe_def)
  obtain e2 where e2: "change_action ?f a e1 = Inr e2" "store_ok ?R T e2" "stack e2 = stack e1" "act e2 a = Some (?f x1)"
    using change_action_keeps [OF store1 pos, of ?f] change_action_act [OF _ e1(3), of ?f] by (auto simp: ok_def held_def)
  have sched: "scheduled e2 = scheduled e"
    using machine_start_scheduled [OF e1(1)] change_action_scheduled [OF e2(1)] by simp
  have A: "incr b ?R = (\<lambda>c. count_list (stack e1) c + incr b A c)" for b
    by (auto simp: incr_def)
  show ?thesis
  proof (cases "v = 0")
    case True
    have "fire_own_trigger a e2 = Inr e2"
      using e2(4) e1(4) by (simp add: fire_own_trigger_def)
    moreover have "safe A T e2" using e2(2,3) by (simp add: safe_def)
    ultimately show ?thesis
      using True e1(1) e2(1) assms(5) complete_action_ok [of A T e2 a] assms(2) sched
        complete_action_scheduled [of a e2]
      by (auto simp: WaitAction_run_def ok_def)
  next
    case False
    obtain e3 where e3: "schedule_wait a v prop_name u e2 = Inr e3" "store_ok (incr (next_action e2) ?R) T e3" "stack e3 = stack e1"
        "scheduled e3 = scheduled e @ [(v * 1000, next_action e2)]"
      using schedule_wait_ok [OF e2(2) pos assms(6)] e2(3) sched by (auto simp: ok_def)
    have safe3: "safe (incr (next_action e2) A) T e3"
      using e3(2) [unfolded A] e3(3) by (simp add: safe_def)
    have "0 < incr (next_action e2) ?R a" using pos by (simp add: incr_def)
    then obtain x3 where "act e3 a = Some x3"
      using store_action [OF e3(2)] by blast
    then show ?thesis
      using False e1(1) e2(1) e3(1,4) safe3 assms(5)
      by (auto simp: WaitAction_run_def getStatus_def incr_eq intro!: exI [of _ "[(v * 1000, next_action e2)]"])
  qed
qed

end
