(* ===== verification/Cw_Ownership.thy ===== *)
theory Cw_Ownership
  imports Cw_Actions
begin

text \<open>
  What the callers of triggers, actions and the action stack may rely on: as long as a caller only
  uses references it holds, no object is used after its deletion; a pushed action suspends the one
  below it until it is stopped; the loop of \<open>MachineInstance::idle\<close> works off the stack.
\<close>

section \<open>Callers\<close>

text \<open>
  What the rest of the program does with actions and triggers. A ledger counts the references
  that the callers hold; an operation is permitted when its caller holds the references it uses.
\<close>

datatype client_op =
    New_Wait int string bool | New_Other bool | New_Fire nat | New_Trigger string
  | Retain nat | Release nat | Retain_Trigger nat | Release_Trigger nat
  | Set_Trigger nat nat | Drop_Trigger nat | Disable_Trigger nat
  | Push nat | Enqueue nat | Start nat | Stop nat | Clear_All | Reset nat | Run nat | Dispatch

type_synonym ledger = "(nat \<Rightarrow> nat) \<times> (nat \<Rightarrow> nat) \<times> exec"

definition decr :: "nat \<Rightarrow> (nat \<Rightarrow> nat) \<Rightarrow> nat \<Rightarrow> nat" where
  "decr a A = A(a := A a - 1)"

definition idle_action :: "exec \<Rightarrow> nat \<Rightarrow> bool" where
  "idle_action e a \<longleftrightarrow> (case act e a of None \<Rightarrow> False | Some x \<Rightarrow> \<not> started x)"

text \<open>An action that can be run: it was reset, and its time fits into the scheduler's.\<close>

definition runnable_action :: "(string \<Rightarrow> cw_value) \<Rightarrow> exec \<Rightarrow> nat \<Rightarrow> bool" where
  "runnable_action g e a \<longleftrightarrow> (case act e a of None \<Rightarrow> False | Some x \<Rightarrow> atrigger x = None \<and> (case akind x of
     Wait_Action w p _ \<Rightarrow> (case read_wait_time g w p of Inl _ \<Rightarrow> False | Inr v \<Rightarrow> in_long (v * 1000))
   | Fire_Trigger p \<Rightarrow> p \<noteq> None
   | Other_Action \<Rightarrow> False))"

fun permitted :: "(string \<Rightarrow> cw_value) \<Rightarrow> client_op \<Rightarrow> ledger \<Rightarrow> bool" where
  "permitted g (New_Fire t) (A, T, e) \<longleftrightarrow> 0 < T t"
| "permitted g (Retain_Trigger t) (A, T, e) \<longleftrightarrow> 0 < T t"
| "permitted g (Release_Trigger t) (A, T, e) \<longleftrightarrow> 0 < T t"
| "permitted g (Set_Trigger a t) (A, T, e) \<longleftrightarrow> 0 < A a \<and> 0 < T t"
| "permitted g (Retain a) (A, T, e) \<longleftrightarrow> 0 < A a"
| "permitted g (Release a) (A, T, e) \<longleftrightarrow> 0 < A a"
| "permitted g (Drop_Trigger a) (A, T, e) \<longleftrightarrow> 0 < A a"
| "permitted g (Disable_Trigger a) (A, T, e) \<longleftrightarrow> 0 < A a"
| "permitted g (Push a) (A, T, e) \<longleftrightarrow> 0 < A a \<and> idle_action e a"
| "permitted g (Enqueue a) (A, T, e) \<longleftrightarrow> 0 < A a"
| "permitted g (Start a) (A, T, e) \<longleftrightarrow> 0 < A a"
| "permitted g (Stop a) (A, T, e) \<longleftrightarrow> 0 < A a \<or> a \<in> set (stack e)"
| "permitted g (Reset a) (A, T, e) \<longleftrightarrow> 0 < A a"
| "permitted g (Run a) (A, T, e) \<longleftrightarrow> 0 < A a \<and> runnable_action g e a"
| "permitted g Dispatch (A, T, e) \<longleftrightarrow> scheduled e \<noteq> [] \<and> idle_action e (snd (hd (scheduled e)))"
| "permitted g _ _ \<longleftrightarrow> True"

definition run_known :: "(string \<Rightarrow> cw_value) \<Rightarrow> nat \<Rightarrow> exec \<Rightarrow> (status \<times> exec) res" where
  "run_known g a e = bindr (get_action e a) (\<lambda>x. case akind x of
     Wait_Action w p u \<Rightarrow> WaitAction_run g a w p u e
   | Fire_Trigger p \<Rightarrow> FireTriggerAction_run a p e
   | Other_Action \<Rightarrow> getStatus a e)"

fun client_step :: "(string \<Rightarrow> cw_value) \<Rightarrow> client_op \<Rightarrow> ledger \<Rightarrow> ledger res" where
  "client_step g (New_Wait w p u) (A, T, e) = (let (a, e') = new_action (Wait_Action w p u) False e in Inr (incr a A, T, e'))"
| "client_step g (New_Other msg) (A, T, e) = (let (a, e') = new_action Other_Action msg e in Inr (incr a A, T, e'))"
| "client_step g (New_Fire t) (A, T, e) = mapr (\<lambda>(a, e'). (incr a A, T, e')) (new_FireTriggerAction t e)"
| "client_step g (New_Trigger n) (A, T, e) = (let (t, e') = new_trigger n e in Inr (A, incr t T, e'))"
| "client_step g (Retain a) (A, T, e) = mapr (\<lambda>e'. (incr a A, T, e')) (action_retain a e)"
| "client_step g (Release a) (A, T, e) = mapr (\<lambda>e'. (decr a A, T, e')) (action_release a e)"
| "client_step g (Retain_Trigger t) (A, T, e) = mapr (\<lambda>e'. (A, incr t T, e')) (trigger_retain t e)"
| "client_step g (Release_Trigger t) (A, T, e) = mapr (\<lambda>e'. (A, decr t T, e')) (trigger_release t e)"
| "client_step g (Set_Trigger a t) (A, T, e) = mapr (\<lambda>e'. (A, decr t T, e')) (setTrigger a (Some t) e)"
| "client_step g (Drop_Trigger a) (A, T, e) = mapr (\<lambda>e'. (A, T, e')) (setTrigger a None e)"
| "client_step g (Disable_Trigger a) (A, T, e) = mapr (\<lambda>e'. (A, T, e')) (disableTrigger a e)"
| "client_step g (Push a) (A, T, e) = mapr (\<lambda>e'. (decr a A, T, e')) (machine_push a e)"
| "client_step g (Enqueue a) (A, T, e) = Inr (decr a A, T, enqueueAction a e)"
| "client_step g (Start a) (A, T, e) = mapr (\<lambda>e'. (A, T, e')) (machine_start a e)"
| "client_step g (Stop a) (A, T, e) = mapr (\<lambda>e'. (A, T, e')) (machine_stop a e)"
| "client_step g Clear_All (A, T, e) = mapr (\<lambda>e'. (A, T, e')) (clearAllActions e)"
| "client_step g (Reset a) (A, T, e) = mapr (\<lambda>e'. (A, T, e')) (action_reset a e)"
| "client_step g (Run a) (A, T, e) = mapr (\<lambda>(_, e'). (A, T, e')) (run_known g a e)"
| "client_step g Dispatch (A, T, e) =
     mapr (\<lambda>e'. (A, T, e')) (machine_push (snd (hd (scheduled e))) (e\<lparr>scheduled := tl (scheduled e)\<rparr>))"

fun client_run :: "(string \<Rightarrow> cw_value) \<Rightarrow> client_op list \<Rightarrow> ledger \<Rightarrow> ledger res" where
  "client_run g [] s = Inr s"
| "client_run g (c # cs) s = (if permitted g c s then bindr (client_step g c s) (client_run g cs) else client_run g cs s)"

text \<open>Every reference that the stack, the scheduler and the callers hold is counted.\<close>

fun accounted :: "ledger \<Rightarrow> bool" where
  "accounted (A, T, e) \<longleftrightarrow> safe (\<lambda>a. count_list (map snd (scheduled e)) a + A a) T e"

abbreviation sched_refs :: "exec \<Rightarrow> (nat \<Rightarrow> nat) \<Rightarrow> nat \<Rightarrow> nat" where
  "sched_refs e A \<equiv> \<lambda>a. count_list (map snd (scheduled e)) a + A a"

text \<open>An action that is done at once: it starts, completes and stops, as most actions do.\<close>

definition instant :: "nat \<Rightarrow> exec \<Rightarrow> (status \<times> exec) res" where
  "instant a e = bindr (machine_start a e) (complete_action a)"

definition fresh_action :: "exec \<Rightarrow> nat \<Rightarrow> bool" where
  "fresh_action e b \<longleftrightarrow> (\<exists>x. act e b = Some x \<and> akind x = Other_Action \<and> astatus x = New)"

text \<open>Small stores for examples; the machine is the third of the network above.\<close>

definition example_exec :: "action list \<Rightarrow> trigger list \<Rightarrow> nat list \<Rightarrow> exec" where
  "example_exec xs ts q = \<lparr>net = example_net\<lparr>machines := (machines example_net)(2 := (example_mach Other_Class)\<lparr>active_actions := q\<rparr>)\<rparr>,
     self = 2, machine_name = ''m'', error_state = False, machine_active = True,
     trig = (\<lambda>t. if t < length ts then Some (ts ! t) else None), act = (\<lambda>a. if a < length xs then Some (xs ! a) else None),
     next_trigger = length ts, next_action = length xs, scheduled = [], action_errors = 0, publications = 0\<rparr>"

definition example_action :: "action_kind \<Rightarrow> status \<Rightarrow> action" where
  "example_action k st = \<lparr>akind = k, arefs = 1, astatus = st, saved_status = Running, blocked = None, atrigger = None,
     started = False, aborted = False, abort_message = False\<rparr>"

definition example_trigger :: trigger where
  "example_trigger = \<lparr>tname = ''t'', seen = False, towner = No_Owner, trefs = 1, is_active = True, holders = []\<rparr>"

definition example_behaviour :: behaviour where
  "example_behaviour = \<lparr>wait_value = (\<lambda>_. Value_long 0), other_run = instant, other_check = getStatus, handle = (\<lambda>_ e. Inr e)\<rparr>"

section \<open>Lemmas\<close>

lemma sched_refs_incr: "sched_refs e (incr a A) = incr a (sched_refs e A)"
  by (auto simp: incr_def)

lemma incr_decr [simp]: "0 < A a \<Longrightarrow> incr a (decr a A) = A"
  by (auto simp: incr_def decr_def)

lemma accounted_ok:
  assumes "ok (safe (sched_refs e A) T) r" "\<And>e'. r = Inr e' \<Longrightarrow> scheduled e' = scheduled e"
  shows "ok (\<lambda>e'. accounted (A, T, e')) r"
  using assms by (auto simp: ok_def)

lemma keeps_accounted:
  assumes "keeps (\<lambda>b. count_list (stack e) b + sched_refs e A b) T e r" "\<And>e'. r = Inr e' \<Longrightarrow> scheduled e' = scheduled e"
  shows "ok (\<lambda>e'. accounted (A, T, e')) r"
  using assms by (auto simp: ok_def safe_def)

lemma stack_refs_incr: "(\<lambda>b. count_list s b + incr a A b) = incr a (\<lambda>b. count_list s b + A b)"
  by (auto simp: incr_def)
lemma R_incr: "(\<lambda>b. count_list s b + (count_list q b + incr a A b)) = incr a (\<lambda>b. count_list s b + (count_list q b + A b))"
  by (auto simp: incr_def)

lemma accountedD: "accounted (A, T, e) \<Longrightarrow> store_ok (\<lambda>b. count_list (stack e) b + sched_refs e A b) T e"
  by (simp add: safe_def)

lemma disableTrigger_scheduled: "disableTrigger a e = Inr e' \<Longrightarrow> scheduled e' = scheduled e"
  by (auto simp: disableTrigger_def trigger_disable_def ub_simps split: option.splits dest!: keep_scheduled)

lemma step_new:
  assumes "accounted s"
  shows "permitted g c s \<Longrightarrow> c \<in> {New_Wait w p u, New_Other msg, New_Fire t, New_Trigger n} \<Longrightarrow> ok accounted (client_step g c s)"
proof -
  assume c: "permitted g c s" "c \<in> {New_Wait w p u, New_Other msg, New_Fire t, New_Trigger n}"
  obtain A T e where s: "s = (A, T, e)" by (cases s)
  note store_ok = accountedD [OF assms [unfolded s]]
  have new: "accounted (incr (fst (new_action k msg e)) A, T, snd (new_action k msg e))"
    if "\<nexists>t. k = Fire_Trigger (Some t)" for k msg
    using new_action_ok [OF store_ok, of T k msg] that by (simp add: safe_def R_incr) (simp add: new_action_def)
  have trig: "accounted (A, incr (fst (new_trigger n e)) T, snd (new_trigger n e))" for n
    using new_trigger_ok [OF store_ok, of n] by (simp add: safe_def) (simp add: new_trigger_def)
  have fire: "ok (\<lambda>(a, e'). accounted (incr a A, T, e')) (new_FireTriggerAction t e)" if "0 < T t" for t
    using new_FireTriggerAction_ok [OF store_ok, of t] new_FireTriggerAction_scheduled [of t e] that
    by (auto simp: ok_def safe_def R_incr)
  show ?thesis
    using c new [of "Wait_Action w p u" False] new [of Other_Action msg] trig [of n] fire [of t]
    by (auto simp: s case_prod_unfold Let_def simp del: accounted.simps)
qed

lemma step_refs:
  assumes "accounted s"
  shows "permitted g c s \<Longrightarrow> c \<in> {Retain a, Release a, Retain_Trigger t, Release_Trigger t} \<Longrightarrow> ok accounted (client_step g c s)"
proof -
  assume c: "permitted g c s" "c \<in> {Retain a, Release a, Retain_Trigger t, Release_Trigger t}"
  obtain A T e where s: "s = (A, T, e)" by (cases s)
  let ?R = "\<lambda>A b. count_list (stack e) b + sched_refs e A b"
  note store_ok = accountedD [OF assms [unfolded s]]
  have 1: "ok (\<lambda>e'. accounted (incr a A, T, e')) (action_retain a e)" if "0 < A a"
    using action_retain_ok [OF store_ok, of a] that change_action_scheduled [of _ a e]
    by (intro keeps_accounted) (auto simp: R_incr action_retain_def)
  have 2: "ok (\<lambda>e'. accounted (decr a A, T, e')) (action_release a e)" if "0 < A a"
    using action_release_ok [of a "?R (decr a A)" T e] store_ok that action_release_scheduled [of a e]
    by (intro keeps_accounted) (auto simp: R_incr [symmetric] elim: ok_mono)
  have 3: "ok (\<lambda>e'. accounted (A, incr t T, e')) (trigger_retain t e)" if "0 < T t"
    using trigger_retain_ok [OF store_ok, of t] that change_trigger_scheduled [of _ t e]
    by (intro keeps_accounted) (auto simp: trigger_retain_def elim: ok_mono)
  have 4: "ok (\<lambda>e'. accounted (A, decr t T, e')) (trigger_release t e)" if "0 < T t"
    using trigger_release_ok [of "?R A" t "decr t T" e] store_ok that trigger_release_scheduled [of t e]
    by (intro keeps_accounted) (auto elim: ok_mono)
  show ?thesis
    using c 1 2 3 4 by (auto simp: s simp del: accounted.simps)
qed

lemma step_trigger:
  assumes "accounted s"
  shows "permitted g c s \<Longrightarrow> c \<in> {Set_Trigger a t, Drop_Trigger a, Disable_Trigger a, Reset a} \<Longrightarrow> ok accounted (client_step g c s)"
proof -
  assume c: "permitted g c s" "c \<in> {Set_Trigger a t, Drop_Trigger a, Disable_Trigger a, Reset a}"
  obtain A T e where s: "s = (A, T, e)" by (cases s)
  let ?R = "\<lambda>b. count_list (stack e) b + sched_refs e A b"
  note store_ok = accountedD [OF assms [unfolded s]]
  have pos: "0 < ?R a" using c by (auto simp: s)
  obtain x where x: "act e a = Some x" using store_action [OF store_ok pos] by auto
  have 1: "ok (\<lambda>e'. accounted (A, decr t T, e')) (setTrigger a (Some t) e)" if "0 < T t"
    using setTrigger_Some_ok [of ?R t "decr t T" e a x] store_ok x that setTrigger_scheduled [of a _ e]
    by (intro keeps_accounted) (auto elim: ok_mono)
  have 2: "ok (\<lambda>e'. accounted (A, T, e')) (setTrigger a None e)"
    using setTrigger_None_ok [OF store_ok x] setTrigger_scheduled [of a _ e]
    by (intro keeps_accounted) (auto elim: ok_mono)
  have 3: "ok (\<lambda>e'. accounted (A, T, e')) (disableTrigger a e)"
    using disableTrigger_keeps [OF store_ok x] disableTrigger_scheduled [of a e]
    by (intro keeps_accounted) (auto elim: ok_mono)
  let ?f = "\<lambda>x. x\<lparr>astatus := New, saved_status := Running, blocked := None, started := False\<rparr>"
  obtain e1 where e1: "change_action ?f a e = Inr e1" "store_ok ?R T e1" "stack e1 = stack e" "act e1 a = Some (?f x)"
    using change_action_keeps [OF store_ok pos, of ?f] change_action_act [OF _ x, of ?f] by (auto simp: ok_def held_def)
  have 4: "ok (\<lambda>e'. accounted (A, T, e')) (action_reset a e)"
    using cleanupTrigger_ok [OF e1(2,4)] e1(1,3) cleanupTrigger_scheduled [of a e1] keep_scheduled(1) [OF e1(1)]
    by (intro keeps_accounted) (auto simp: action_reset_def elim!: ok_mono)
  show ?thesis
    using c 1 2 3 4 by (auto simp: s simp del: accounted.simps)
qed


lemma machine_push_scheduled: "machine_push a e = Inr e' \<Longrightarrow> scheduled e' = scheduled e"
  by (auto simp: machine_push_def suspend_def setBlocker_def ub_simps split: option.splits
      dest!: keep_scheduled action_start_scheduled)

lemma release_all_scheduled: "release_all qs e = Inr e' \<Longrightarrow> scheduled e' = scheduled e"
  by (induction qs arbitrary: e)
    (auto simp: ub_simps split: option.splits if_splits dest!: action_release_scheduled disableTrigger_scheduled)

lemma clearAllActions_ok:
  assumes "safe A T e"
  shows "ok (\<lambda>e'. safe A T e' \<and> stack e' = []) (clearAllActions e)"
  using release_all_ok [OF assms [unfolded safe_def] refl]
  by (auto simp: clearAllActions_def safe_def stack_def elim!: ok_mono)

lemma clearAllActions_scheduled: "clearAllActions e = Inr e' \<Longrightarrow> scheduled e' = scheduled e"
  by (auto simp: clearAllActions_def ub_simps dest!: release_all_scheduled)

lemma step_stack:
  assumes "accounted s"
  shows "permitted g c s \<Longrightarrow> c \<in> {Push a, Enqueue a, Start a, Stop a, Clear_All} \<Longrightarrow> ok accounted (client_step g c s)"
proof -
  assume c: "permitted g c s" "c \<in> {Push a, Enqueue a, Start a, Stop a, Clear_All}"
  obtain A T e where s: "s = (A, T, e)" by (cases s)
  note safe = assms [unfolded s accounted.simps]
  have 1: "ok (\<lambda>e'. accounted (decr a A, T, e')) (machine_push a e)" if "0 < A a" "idle_action e a"
    using machine_push_ok [of a "sched_refs e (decr a A)" T e] safe that machine_push_scheduled [of a e]
    by (intro accounted_ok) (auto simp: idle_action_def sched_refs_incr [symmetric] split: option.splits elim: ok_mono)
  have 2: "accounted (decr a A, T, enqueueAction a e)" if "0 < A a"
    using enqueueAction_safe [of a "sched_refs e (decr a A)" T e] safe that
    by (simp add: sched_refs_incr [symmetric]) (simp add: enqueueAction_def)
  have 3: "ok (\<lambda>e'. accounted (A, T, e')) (machine_start a e)" if "0 < A a"
  proof -
    have pos: "0 < count_list (stack e) a + sched_refs e A a" "0 < sched_refs e A a" using that by simp_all
    obtain x where x: "act e a = Some x"
      using store_action [OF accountedD [OF assms [unfolded s]] pos(1)] by auto
    show ?thesis
      by (intro accounted_ok ok_mono [OF machine_start_ok [OF safe pos(2) x]] machine_start_scheduled) simp_all
  qed
  have 4: "ok (\<lambda>e'. accounted (A, T, e')) (machine_stop a e)" if "0 < A a \<or> a \<in> set (stack e)"
    using that by (intro accounted_ok ok_mono [OF machine_stop_ok [OF safe]] machine_stop_scheduled) auto
  have 5: "ok (\<lambda>e'. accounted (A, T, e')) (clearAllActions e)"
    by (intro accounted_ok ok_mono [OF clearAllActions_ok [OF safe]] clearAllActions_scheduled) simp_all
  show ?thesis
    using c 1 2 3 4 5 by (auto simp: s simp del: accounted.simps)
qed

lemma trigger_fire_scheduled: "trigger_fire t e = Inr e' \<Longrightarrow> scheduled e' = scheduled e"
  by (auto simp: trigger_fire_def Let_def machine_triggerFired_def ub_simps split: trigger_owner.splits if_splits
      dest!: keep_scheduled)

lemma FireTriggerAction_run_scheduled:
  assumes "FireTriggerAction_run a p e = Inr (st, e')"
  shows "scheduled e' = scheduled e"
proof (cases p)
  case (Some q)
  obtain e1 e2 e3 e4 e5 x where e5: "machine_start a e = Inr e1" "trigger_retain q e1 = Inr e2" "setTrigger a (Some q) e2 = Inr e3"
      "trigger_release q e3 = Inr e4" "change_action (\<lambda>x. x\<lparr>akind := Fire_Trigger None\<rparr>) a e4 = Inr e5" "get_action e5 a = Inr x"
    and rest: "(case atrigger x of None \<Rightarrow> Inl NullPointer
        | Some t \<Rightarrow> bindr (get_trigger e5 t) (\<lambda>y. bindr (if is_active y then trigger_fire t e5 else Inr e5) (complete_action a))) = Inr (st, e')"
    using assms unfolding FireTriggerAction_run_def Some option.case complete_action_def [abs_def] bindr_Inr_iff
    by (elim exE conjE)
  obtain t where "atrigger x = Some t"
    using rest by (cases "atrigger x") auto
  note rest [unfolded this option.case bindr_Inr_iff]
  then obtain y e6 where "get_trigger e5 t = Inr y" "(if is_active y then trigger_fire t e5 else Inr e5) = Inr e6" "complete_action a e6 = Inr (st, e')"
    by (elim exE conjE)
  moreover from this have "scheduled e6 = scheduled e5"
    by (auto split: if_splits dest: trigger_fire_scheduled)
  moreover have "scheduled e5 = scheduled e"
    using machine_start_scheduled [OF e5(1)] keep_scheduled(2) [OF e5(2) [unfolded trigger_retain_def]]
      setTrigger_scheduled [OF e5(3)] keep_scheduled(4) [OF e5(4)] keep_scheduled(1) [OF e5(5)] by simp
  ultimately show ?thesis
    using complete_action_scheduled by simp
qed (use assms in \<open>simp add: FireTriggerAction_run_def ub_simps\<close>)

lemma step_run:
  assumes "accounted s"
  shows "permitted g c s \<Longrightarrow> c \<in> {Run a, Dispatch} \<Longrightarrow> ok accounted (client_step g c s)"
proof -
  assume c: "permitted g c s" "c \<in> {Run a, Dispatch}"
  obtain A T e where s: "s = (A, T, e)" by (cases s)
  note safe = assms [unfolded s accounted.simps]
  have 1: "ok (\<lambda>(_, e'). accounted (A, T, e')) (run_known g a e)" if a: "0 < A a" "runnable_action g e a"
  proof -
    have pos: "0 < sched_refs e A a" using a(1) by simp
    obtain x where x: "act e a = Some x" "atrigger x = None"
      using a(2) by (auto simp: runnable_action_def split: option.splits)
    show ?thesis
    proof (cases "akind x")
      case (Wait_Action w p u)
      then obtain v where "read_wait_time g w p = Inr v" "in_long (v * 1000)"
        using a(2) x by (auto simp: runnable_action_def split: sum.splits)
      then obtain st e' new where e': "WaitAction_run g a w p u e = Inr (st, e')" "scheduled e' = scheduled e @ new"
          "safe (\<lambda>b. count_list (map snd new) b + sched_refs e A b) T e'"
        using WaitAction_run_ok [OF safe pos x, of g w p v u] by (auto simp: ok_def)
      have "(\<lambda>b. count_list (map snd new) b + sched_refs e A b) = sched_refs e' A"
        using e'(2) by (simp add: fun_eq_iff)
      then show ?thesis
        using e'(1,3) x(1) Wait_Action by (simp add: run_known_def)
    next
      case (Fire_Trigger q)
      then obtain p where "akind x = Fire_Trigger (Some p)"
        using a(2) x by (auto simp: runnable_action_def)
      then show ?thesis
        using FireTriggerAction_run_ok [OF safe pos x(1) _ x(2)] x FireTriggerAction_run_scheduled [of a _ e]
        by (fastforce simp: run_known_def ok_def)
    qed (use a x in \<open>simp add: runnable_action_def\<close>)
  qed
  have 2: "ok (\<lambda>e'. accounted (A, T, e')) (machine_push f (e\<lparr>scheduled := q\<rparr>))"
    if q: "scheduled e = (d, f) # q" and f: "idle_action e f" for d f q
  proof -
    let ?e = "e\<lparr>scheduled := q\<rparr>"
    obtain x where x: "act ?e f = Some x" "\<not> started x"
      using f by (auto simp: idle_action_def split: option.splits)
    have "sched_refs e A = incr f (sched_refs ?e A)"
      using q by (auto simp: incr_def)
    then have "safe (incr f (sched_refs ?e A)) T ?e"
      using safe by (simp add: safe_def)
    from machine_push_ok [OF this x] show ?thesis
      by (intro accounted_ok [of ?e]) (auto elim: ok_mono dest: machine_push_scheduled)
  qed
  consider (run) "c = Run a" | (dispatch) d f q where "c = Dispatch" "scheduled e = (d, f) # q"
    using c by (cases "scheduled e") (auto simp: s)
  then show ?thesis
  proof cases
    case run
    then show ?thesis
      using c(1) 1 by (simp add: s case_prod_unfold del: accounted.simps)
  next
    case dispatch
    then show ?thesis
      using c(1) 2 [OF dispatch(2)] by (simp add: s del: accounted.simps)
  qed
qed

lemma client_step_ok: "accounted s \<Longrightarrow> permitted g c s \<Longrightarrow> ok accounted (client_step g c s)"
  by (cases c; hypsubst; (rule step_new, assumption, assumption, blast |
      rule step_refs, assumption, assumption, blast |
      rule step_trigger, assumption, assumption, blast |
      rule step_stack, assumption, assumption, blast |
      rule step_run, assumption, assumption, blast))

lemma client_run_ok: "accounted s \<Longrightarrow> ok accounted (client_run g cs s)"
proof (induction cs arbitrary: s)
  case (Cons c cs)
  then show ?case
    using client_step_ok [OF Cons.prems, of g c] by (auto simp: ok_def)
qed simp

lemma change_action_other: "change_action f a e = Inr e' \<Longrightarrow> b \<noteq> a \<Longrightarrow> act e' b = act e b"
  by (auto simp: change_action_def ub_simps)

lemma change_trigger_act: "change_trigger f t e = Inr e' \<Longrightarrow> act e' = act e"
  by (auto simp: change_trigger_def ub_simps)

lemma trigger_release_act: "trigger_release t e = Inr e' \<Longrightarrow> act e' = act e"
  by (auto simp: trigger_release_def ub_simps)

lemma request_self_act: "request_self e = Inr e' \<Longrightarrow> act e' = act e \<and> trig e' = trig e"
  by (auto simp: request_self_def ub_simps)

lemma cleanupTrigger_other: "cleanupTrigger a e = Inr e' \<Longrightarrow> b \<noteq> a \<Longrightarrow> act e' b = act e b"
  by (auto simp: cleanupTrigger_def removeHolder_def ub_simps split: option.splits
      dest!: change_trigger_act trigger_release_act change_action_other)

lemma action_release_other: "action_release a e = Inr e' \<Longrightarrow> b \<noteq> a \<Longrightarrow> act e' b = act e b"
  by (auto simp: action_release_def ub_simps split: if_splits dest!: cleanupTrigger_other)

lemma setTrigger_None_other: "setTrigger a None e = Inr e' \<Longrightarrow> b \<noteq> a \<Longrightarrow> act e' b = act e b"
  by (auto simp: setTrigger_def ub_simps split: if_splits dest!: cleanupTrigger_other)

lemma remove_action_other: "remove_action a qs e = Inr (rest, e') \<Longrightarrow> b \<noteq> a \<Longrightarrow> act e' b = act e b"
  by (induction qs arbitrary: e rest) (auto simp: ub_simps split: if_splits dest!: action_release_other)

text \<open>Stopping an action resumes the one below it.\<close>

lemma wake_next_resumes:
  assumes "wake_next e = Inr e'" "executingCommand e = Some b" "act e b = Some z" "astatus z = Suspended"
  shows "act e' b = Some (z\<lparr>blocked := None, astatus := if saved_status z = Suspended then Running else saved_status z\<rparr>)"
proof -
  let ?f = "\<lambda>x. x\<lparr>astatus := if saved_status x = Suspended then Running else saved_status x\<rparr>"
  obtain e1 x where e1: "setBlocker None b e = Inr e1" "get_action e1 b = Inr x"
      "(if astatus x = Suspended then resume b e1 else Inr e1) = Inr e'"
    using assms(1) unfolding wake_next_def assms(2) option.case bindr_Inr_iff by (elim exE conjE)
  have b1: "act e1 b = Some (z\<lparr>blocked := None\<rparr>)"
    using change_action_act [OF e1(1) [unfolded setBlocker_def] assms(3)] by simp
  then have "resume b e1 = Inr e'"
    using e1(2,3) assms(4) by auto
  then obtain e2 where "change_action ?f b e1 = Inr e2" "request_self e2 = Inr e'"
    unfolding resume_def bindr_Inr_iff by (elim exE conjE)
  then show ?thesis
    using change_action_act [OF _ b1] request_self_act by fastforce
qed

lemma machine_stop_resumes:
  assumes "safe A T e" "a \<in> set (stack e)" "removeAll a (stack e) = qs @ [b]" "act e b = Some z" "astatus z = Suspended"
    and "machine_stop a e = Inr e'"
  shows "act e' b = Some (z\<lparr>blocked := None, astatus := if saved_status z = Suspended then Running else saved_status z\<rparr>)"
proof -
  obtain e1 e2 r e4 where e: "setTrigger a None e = Inr e1" "action_stop a e1 = Inr e2" "remove_action a (stack e2) e2 = Inr r"
      "wake_next (set_stack (fst r) (snd r)) = Inr e4" "request_self e4 = Inr e'"
    using assms(6) unfolding machine_stop_def bindr_Inr_iff case_prod_unfold by (elim exE conjE)
  let ?R = "\<lambda>b. count_list (stack e) b + A b"
  have store_ok: "store_ok ?R T e" and pos: "0 < ?R a"
    using assms(1,2) safe_stack_member [of a e A] by (auto simp: safe_def)
  obtain x where x: "act e a = Some x" using store_action [OF store_ok pos] by auto
  have e1: "store_ok ?R T e1" "stack e1 = stack e"
    using setTrigger_None_ok [OF store_ok x] e(1) by (auto simp: ok_def)
  have e2: "store_ok ?R T e2" "stack e2 = stack e"
    using status_keeps(3) [OF e1(1) pos] e(2) e1(2) by (auto simp: ok_def)
  have r: "fst r = qs @ [b]"
    using remove_action_ok [OF e2(1), of a] e(3) e2(2) assms(3) by (auto simp: ok_def)
  have ne: "b \<noteq> a"
    using assms(3) by (metis in_set_conv_decomp removeAll_id set_removeAll Diff_iff singletonI)
  have "act (snd r) b = act e b"
    using setTrigger_None_other [OF e(1) ne] change_action_other [OF e(2) [unfolded action_stop_def] ne]
      remove_action_other [of a "stack e2" e2 "fst r" "snd r" b] e(3) ne by simp
  then show ?thesis
    using wake_next_resumes [OF e(4), of b z] request_self_act [OF e(5)] r assms(4,5) by (simp add: executingCommand_def)
qed

lemma action_start_other: "action_start a e = Inr e' \<Longrightarrow> b \<noteq> a \<Longrightarrow> act e' b = act e b"
  by (auto simp: action_start_def ub_simps dest!: change_action_other)

lemma machine_push_suspends:
  assumes "machine_push a e = Inr e'" "executingCommand e = Some b" "b \<noteq> a" "act e b = Some z" "astatus z \<noteq> Suspended"
  shows "act e' b = Some (z\<lparr>saved_status := astatus z, astatus := Suspended, blocked := Some a\<rparr>)"
proof -
  obtain e1 e2 e3 where e: "suspend b e = Inr e1" "setBlocker (Some a) b e1 = Inr e2"
      "action_start a (set_stack (stack e2 @ [a]) e2) = Inr e3" "e' = add_work e3"
    using assms(1) unfolding machine_push_def assms(2) option.case bindr_Inr_iff mapr_Inr_iff by (elim exE conjE)
  have "act e1 b = Some (z\<lparr>saved_status := astatus z, astatus := Suspended\<rparr>)"
    using change_action_act [OF e(1) [unfolded suspend_def] assms(4)] assms(5) by simp
  then have "act e2 b = Some (z\<lparr>saved_status := astatus z, astatus := Suspended, blocked := Some a\<rparr>)"
    using change_action_act [OF e(2) [unfolded setBlocker_def]] by simp
  then show ?thesis
    using action_start_other [OF e(3) assms(3)] e(4) by simp
qed

lemma push_stop:
  assumes "safe (incr a A) T e" "act e a = Some x" "\<not> started x" "a \<notin> set (stack e)" "stack e = qs @ [b]"
    "act e b = Some z" "astatus z \<noteq> Suspended"
  shows "\<exists>e1 e2. machine_push a e = Inr e1 \<and> executingCommand e1 = Some a \<and>
    act e1 b = Some (z\<lparr>saved_status := astatus z, astatus := Suspended, blocked := Some a\<rparr>) \<and>
    machine_stop a e1 = Inr e2 \<and> safe A T e2 \<and> stack e2 = stack e \<and>
    act e2 b = Some (z\<lparr>saved_status := astatus z, blocked := None\<rparr>)"
proof -
  have b: "executingCommand e = Some b" "b \<noteq> a"
    using assms(4,5) by (auto simp: executingCommand_def)
  obtain e1 where e1: "machine_push a e = Inr e1" "safe A T e1" "stack e1 = stack e @ [a]"
    using machine_push_ok [OF assms(1-3)] by (auto simp: ok_def)
  note b1 = machine_push_suspends [OF e1(1) b assms(6,7)]
  have a1: "a \<in> set (stack e1)" and r: "removeAll a (stack e1) = qs @ [b]"
    using e1(3) assms(4,5) by auto
  obtain e2 where e2: "machine_stop a e1 = Inr e2" "safe A T e2" "stack e2 = qs @ [b]"
    using machine_stop_ok [OF e1(2), of a] a1 r by (auto simp: ok_def)
  have "act e2 b = Some (z\<lparr>saved_status := astatus z, blocked := None\<rparr>)"
    using machine_stop_resumes [OF e1(2) a1 r b1 _ e2(1)] assms(7) by simp
  then show ?thesis
    using e1 b1 e2 assms(5) by (simp add: executingCommand_def)
qed

lemma unfired_action_leaks:
  assumes "trig e t = Some y" "act e (next_action e) = None"
  shows "\<exists>e1 e2. new_FireTriggerAction t e = Inr (next_action e, e1) \<and> action_release (next_action e) e1 = Inr e2 \<and>
    act e2 = act e \<and>
    trig e2 t = Some (y\<lparr>trefs := trefs y + 1, towner := Machine_Owner, holders := holders y @ [next_action e]\<rparr>)"
  using assms
  by (simp add: new_FireTriggerAction_def trigger_retain_def setOwner_def addHolder_def change_trigger_def new_action_def
      Let_def action_release_def cleanupTrigger_def fun_upd_idem_iff fun_upd_triv)

lemma complete_action_core:
  assumes "safe A T e" "0 < A a" "act e a = Some x" "complete_action a e = Inr (st, e')"
  shows "st = Complete \<and> safe A T e' \<and> (\<exists>x'. act e' a = Some x' \<and> akind x' = akind x)"
proof -
  let ?R = "\<lambda>b. count_list (stack e) b + A b"
  have store_ok: "store_ok ?R T e" and pos: "0 < ?R a" using assms by (auto simp: safe_def)
  obtain e1 e2 where e: "set_status Complete a e = Inr e1" "machine_stop a e1 = Inr e2" "getStatus a e2 = Inr (st, e')"
    using assms(4) unfolding complete_action_def bindr_Inr_iff by (elim exE conjE)
  have e1: "store_ok ?R T e1" "stack e1 = stack e" "act e1 a = Some (x\<lparr>astatus := Complete\<rparr>)"
    using status_keeps(1) [OF store_ok pos, of Complete] e(1) change_action_act [OF e(1) [unfolded set_status_def] assms(3)]
    by (auto simp: ok_def)
  then have "safe A T e1" by (simp add: safe_def)
  then have e2: "safe A T e2" "core (set (stack e1) - {a}) e1 e2"
    using machine_stop_ok [of A T e1 a] assms(2) e(2) by (auto simp: ok_def)
  obtain x2 where x2: "act e2 a = Some x2"
    using e(3) by (auto simp: getStatus_def get_action_def split: option.splits)
  have "\<exists>x0. act e1 a = Some x0 \<and> astatus x2 = astatus x0 \<and> akind x2 = akind x0"
    using e2(2) x2 unfolding core_def by (meson Diff_iff singletonI)
  then show ?thesis
    using e(3) e2(1) x2 e1(3) by (simp add: getStatus_def)
qed

lemma wait_zero:
  assumes "safe A T e" "0 < A a" "act e a = Some x" "atrigger x = None" "kind (g p) = t_integer" "iValue (g p) = Some 0"
  shows "\<exists>e' x'. WaitAction_run g a (-1) p True e = Inr (Complete, e') \<and> act e' a = Some x' \<and> akind x' = Wait_Action 0 p True"
proof -
  let ?f = "\<lambda>x. x\<lparr>akind := Wait_Action 0 p True\<rparr>"
  obtain e1 x1 where e1: "machine_start a e = Inr e1" "safe A T e1" "act e1 a = Some x1" "atrigger x1 = None"
    using machine_start_ok [OF assms(1-3)] assms(4) by (auto simp: ok_def)
  let ?R = "\<lambda>b. count_list (stack e1) b + A b"
  have store1: "store_ok ?R T e1" and pos: "0 < ?R a" using e1(2) assms(2) by (auto simp: safe_def)
  obtain e2 where e2: "change_action ?f a e1 = Inr e2" "store_ok ?R T e2" "stack e2 = stack e1" "act e2 a = Some (?f x1)"
    using change_action_keeps [OF store1 pos, of ?f] change_action_act [OF _ e1(3), of ?f] by (auto simp: ok_def held_def)
  have safe2: "safe A T e2" using e2(2,3) by (simp add: safe_def)
  obtain e3 where e3: "complete_action a e2 = Inr (Complete, e3)"
    using complete_action_ok [OF safe2 assms(2)] by (auto simp: ok_def)
  have "fire_own_trigger a e2 = Inr e2"
    using e2(4) e1(4) by (simp add: fire_own_trigger_def)
  moreover have "\<exists>x'. act e3 a = Some x' \<and> akind x' = Wait_Action 0 p True"
    using complete_action_core [OF safe2 assms(2) e2(4) e3] by auto
  ultimately show ?thesis
    using e1(1) e2(1) e3 assms(5,6) by (simp add: WaitAction_run_def read_wait_time_def Let_def)
qed

lemma wake_next_new:
  assumes "wake_next e = Inr e'" "fresh_action e c"
  shows "fresh_action e' c"
proof (cases "executingCommand e = Some c")
  case True
  obtain z where z: "act e c = Some z" "akind z = Other_Action" "astatus z = New"
    using assms(2) by (auto simp: fresh_action_def)
  obtain e1 x where e1: "setBlocker None c e = Inr e1" "get_action e1 c = Inr x"
      "(if astatus x = Suspended then resume c e1 else Inr e1) = Inr e'"
    using assms(1) unfolding wake_next_def True option.case bindr_Inr_iff by (elim exE conjE)
  have "act e1 c = Some (z\<lparr>blocked := None\<rparr>)"
    using change_action_act [OF e1(1) [unfolded setBlocker_def] z(1)] by simp
  then show ?thesis
    using e1(2,3) z by (auto simp: fresh_action_def)
next
  case other: False
  have "act e' c = act e c"
  proof (cases "executingCommand e")
    case (Some b)
    then have "c \<noteq> b" using other by simp
    obtain e1 x where e1: "setBlocker None b e = Inr e1" "get_action e1 b = Inr x"
        "(if astatus x = Suspended then resume b e1 else Inr e1) = Inr e'"
      using assms(1) unfolding wake_next_def Some option.case bindr_Inr_iff by (elim exE conjE)
    have "act e' c = act e1 c"
      using e1(3) \<open>c \<noteq> b\<close> request_self_act change_action_other
      by (auto simp: resume_def bindr_Inr_iff split: if_splits)
    then show ?thesis
      using change_action_other [OF e1(1) [unfolded setBlocker_def] \<open>c \<noteq> b\<close>] by simp
  qed (use assms(1) in \<open>simp add: wake_next_def\<close>)
  then show ?thesis
    using assms(2) by (simp add: fresh_action_def)
qed

lemma fresh_action_cong: "act e' c = act e c \<Longrightarrow> fresh_action e' c = fresh_action e c"
  by (simp add: fresh_action_def)

lemma machine_stop_new:
  assumes "machine_stop a e = Inr e'" "fresh_action e c" "c \<noteq> a"
  shows "fresh_action e' c"
proof -
  obtain e1 e2 r e4 where e: "setTrigger a None e = Inr e1" "action_stop a e1 = Inr e2" "remove_action a (stack e2) e2 = Inr r"
      "wake_next (set_stack (fst r) (snd r)) = Inr e4" "request_self e4 = Inr e'"
    using assms(1) unfolding machine_stop_def bindr_Inr_iff case_prod_unfold by (elim exE conjE)
  have "act (set_stack (fst r) (snd r)) c = act e c"
    using setTrigger_None_other [OF e(1) assms(3)] change_action_other [OF e(2) [unfolded action_stop_def] assms(3)]
      remove_action_other [of a "stack e2" e2 "fst r" "snd r" c] e(3) assms(3) by simp
  then have "fresh_action (set_stack (fst r) (snd r)) c"
    using fresh_action_cong assms(2) by blast
  then show ?thesis
    using wake_next_new [OF e(4)] fresh_action_cong [of e' c e4] request_self_act [OF e(5)] by simp
qed

lemma machine_start_other:
  assumes "machine_start a e = Inr e'" "b \<noteq> a"
  shows "act e' b = act e b"
proof -
  obtain x where x: "get_action e a = Inr x" and r: "(if started x then Inr e else bindr (action_start a e) (\<lambda>e1.
      if executingCommand e1 \<noteq> Some a then mapr (\<lambda>e2. activate_self (set_stack (stack e2 @ [a]) e2)) (action_retain a e1)
      else request_self e1)) = Inr e'"
    using assms(1) unfolding machine_start_def bindr_Inr_iff by (elim exE conjE)
  show ?thesis
  proof (cases "started x")
    case False
    then obtain e1 where e1: "action_start a e = Inr e1" and r1: "(if executingCommand e1 \<noteq> Some a
        then mapr (\<lambda>e2. activate_self (set_stack (stack e2 @ [a]) e2)) (action_retain a e1) else request_self e1) = Inr e'"
      using r unfolding bindr_Inr_iff if_not_P [OF False] by (elim exE conjE)
    note e1b = action_start_other [OF e1 assms(2)]
    show ?thesis
    proof (cases "executingCommand e1 = Some a")
      case True
      then show ?thesis using r1 request_self_act e1b by simp
    next
      case other: False
      then obtain e2 where "action_retain a e1 = Inr e2" "e' = activate_self (set_stack (stack e2 @ [a]) e2)"
        using r1 unfolding if_P [OF other] mapr_Inr_iff by (elim exE conjE)
      then show ?thesis
        using change_action_other [of _ a e1 e2 b] assms(2) e1b by (simp add: action_retain_def)
    qed
  qed (use r in simp)
qed

lemma machine_start_top:
  assumes "safe A T e" "0 < A a" "executingCommand e = Some a"
  shows "ok (\<lambda>e'. safe A T e' \<and> stack e' = stack e) (machine_start a e)"
proof -
  let ?R = "\<lambda>b. count_list (stack e) b + A b"
  have store_ok: "store_ok ?R T e" and pos: "0 < ?R a" using assms by (auto simp: safe_def)
  obtain x where x: "act e a = Some x" using store_action [OF store_ok pos] by auto
  show ?thesis
  proof (cases "started x")
    case False
    obtain e1 where e1: "action_start a e = Inr e1" "store_ok ?R T e1" "stack e1 = stack e"
      using action_start_ok [OF store_ok pos x False] by (auto simp: ok_def)
    obtain e2 where "request_self e1 = Inr e2" "store_ok ?R T e2" "stack e2 = stack e"
      using request_self_ok [OF e1(2)] e1(3) by (auto simp: ok_def)
    moreover have "executingCommand e1 = Some a"
      using assms(3) e1(3) by (simp only: executingCommand_def)
    ultimately show ?thesis
      using False x e1(1) by (simp add: machine_start_def safe_def)
  qed (use x assms in \<open>simp add: machine_start_def\<close>)
qed

lemma complete_action_all:
  assumes "safe A T e" "0 < A a"
  shows "\<exists>e'. complete_action a e = Inr (Complete, e') \<and> safe A T e' \<and> stack e' = removeAll a (stack e) \<and>
    (\<forall>c. c \<noteq> a \<longrightarrow> fresh_action e c \<longrightarrow> fresh_action e' c)"
proof -
  obtain e' where e': "complete_action a e = Inr (Complete, e')" "safe A T e'"
    using complete_action_ok [OF assms] by (auto simp: ok_def)
  obtain e1 e2 where e: "set_status Complete a e = Inr e1" "machine_stop a e1 = Inr e2" "getStatus a e2 = Inr (Complete, e')"
    using e'(1) unfolding complete_action_def bindr_Inr_iff by (elim exE conjE)
  have "safe A T e1" "stack e1 = stack e"
    using status_keeps(1) [of _ T e a Complete] e(1) assms by (auto simp: ok_def safe_def)
  then have "stack e2 = removeAll a (stack e)"
    using machine_stop_ok [of A T e1 a] e(2) assms(2) by (auto simp: ok_def)
  moreover have "e2 = e'"
    using e(3) by (auto simp: getStatus_def ub_simps)
  moreover have "fresh_action e2 c" if "c \<noteq> a" "fresh_action e c" for c
    using machine_stop_new [OF e(2) _ that(1)] that(2) fresh_action_cong
      change_action_other [OF e(1) [unfolded set_status_def] that(1)] by blast
  ultimately show ?thesis
    using e' by blast
qed

lemma action_reset_ok:
  assumes "safe A T e" "0 < A a" "act e a = Some x"
  shows "ok (\<lambda>e'. safe A T e' \<and> stack e' = stack e \<and> (\<exists>x'. act e' a = Some x' \<and> akind x' = akind x)) (action_reset a e)"
proof -
  let ?f = "\<lambda>x. x\<lparr>astatus := New, saved_status := Running, blocked := None, started := False\<rparr>"
  let ?R = "\<lambda>b. count_list (stack e) b + A b"
  have store_ok: "store_ok ?R T e" and pos: "0 < ?R a" using assms by (auto simp: safe_def)
  obtain e1 where e1: "change_action ?f a e = Inr e1" "store_ok ?R T e1" "stack e1 = stack e" "act e1 a = Some (?f x)"
    using change_action_keeps [OF store_ok pos, of ?f] change_action_act [OF _ assms(3), of ?f] by (auto simp: ok_def held_def)
  then show ?thesis
    using cleanupTrigger_ok [OF e1(2,4)] by (auto simp: action_reset_def safe_def elim!: ok_mono)
qed

lemma action_reset_other:
  assumes "action_reset a e = Inr e'" "b \<noteq> a"
  shows "act e' b = act e b"
proof -
  obtain e1 where "change_action (\<lambda>x. x\<lparr>astatus := New, saved_status := Running, blocked := None, started := False\<rparr>) a e = Inr e1"
      "cleanupTrigger a e1 = Inr e'"
    using assms(1) unfolding action_reset_def bindr_Inr_iff by (elim exE conjE)
  then show ?thesis
    using change_action_other [OF _ assms(2)] cleanupTrigger_other [OF _ assms(2)] by simp
qed

lemma set_status_ok:
  assumes "safe A T e" "0 < A a" "act e a = Some x"
  shows "ok (\<lambda>e'. safe A T e' \<and> stack e' = stack e \<and> act e' = (act e)(a \<mapsto> x\<lparr>astatus := st\<rparr>)) (set_status st a e)"
proof -
  let ?R = "\<lambda>b. count_list (stack e) b + A b"
  have store_ok: "store_ok ?R T e" and pos: "0 < ?R a" using assms by (auto simp: safe_def)
  obtain e1 where "set_status st a e = Inr e1" "safe A T e1" "stack e1 = stack e"
    using status_keeps(1) [OF store_ok pos, of st] by (auto simp: ok_def safe_def)
  then show ?thesis
    using change_action_act [of _ a e e1 x] assms(3) by (simp add: set_status_def)
qed

text \<open>Calling an action that is done at once removes it from the stack.\<close>

lemma action_call_instant:
  assumes "safe A T e" "0 < A a" "executingCommand e = Some a" "fresh_action e a" "\<And>c e. other_run b c e = instant c e"
  shows "\<exists>e'. action_call b a e = Inr (Complete, e') \<and> safe A T e' \<and> stack e' = removeAll a (stack e) \<and>
    (\<exists>x. act e' a = Some x \<and> astatus x = Complete) \<and> (\<forall>c. c \<noteq> a \<longrightarrow> fresh_action e c \<longrightarrow> fresh_action e' c)"
proof -
  obtain x where x: "act e a = Some x" "akind x = Other_Action"
    using assms(4) by (auto simp: fresh_action_def)
  obtain e1 x1 where e1: "action_reset a e = Inr e1" "safe A T e1" "stack e1 = stack e" "act e1 a = Some x1" "akind x1 = Other_Action"
    using action_reset_ok [OF assms(1,2) x(1)] x(2) by (auto simp: ok_def)
  obtain e2 where e2: "set_status Running a e1 = Inr e2" "safe A T e2" "stack e2 = stack e"
      "act e2 = (act e1)(a \<mapsto> x1\<lparr>astatus := Running\<rparr>)"
    using set_status_ok [OF e1(2) assms(2) e1(4)] e1(3) by (auto simp: ok_def)
  have "executingCommand e2 = Some a"
    using assms(3) e2(3) by (simp only: executingCommand_def)
  then obtain e3 where e3: "machine_start a e2 = Inr e3" "safe A T e3" "stack e3 = stack e"
    using machine_start_top [OF e2(2) assms(2)] e2(3) by (auto simp: ok_def)
  obtain e4 where e4: "complete_action a e3 = Inr (Complete, e4)" "safe A T e4" "stack e4 = removeAll a (stack e)"
      "\<And>c. c \<noteq> a \<Longrightarrow> fresh_action e3 c \<Longrightarrow> fresh_action e4 c"
    using complete_action_all [OF e3(2) assms(2)] e3(3) by (auto simp del: removeAll.simps)
  have "0 < count_list (stack e4) a + A a" using assms(2) by simp
  then obtain x4 where x4: "act e4 a = Some x4"
    using store_action [OF e4(2) [unfolded safe_def], of a] by auto
  obtain e5 where e5: "set_status Complete a e4 = Inr e5" "safe A T e5" "stack e5 = stack e4"
      "act e5 = (act e4)(a \<mapsto> x4\<lparr>astatus := Complete\<rparr>)"
    using set_status_ok [OF e4(2) assms(2) x4] by (auto simp: ok_def)
  have "run_action b a e2 = Inr (Complete, e4)"
    using e2(4) e1(5) e3(1) e4(1) by (simp add: run_action_def instant_def assms(5))
  then have "action_call b a e = Inr (Complete, e5)"
    using e1(1) e2(1) e5(1,4) by (simp add: action_call_def getStatus_def)
  moreover have "fresh_action e5 c" if "c \<noteq> a" "fresh_action e c" for c
  proof -
    have "act e3 c = act e c"
      using action_reset_other [OF e1(1) that(1)] e2(4) machine_start_other [OF e3(1) that(1)] that(1) by simp
    then have "fresh_action e3 c" using that(2) by (simp add: fresh_action_def)
    then have "fresh_action e4 c" using e4(4) that(1) by blast
    then show ?thesis using e5(4) that(1) by (simp add: fresh_action_def)
  qed
  ultimately show ?thesis
    using e5 e4(3) by (intro exI [of _ e5]) simp
qed

lemma idle_turn_instant:
  assumes "safe A T e" "executingCommand e = Some a" "fresh_action e a" "\<And>c e. other_run b c e = instant c e"
  shows "\<exists>e1 e2 e3. action_retain a e = Inr e1 \<and> perform b a e1 = Inr (True, e2) \<and> retire a e2 = Inr e3 \<and>
    safe A T e3 \<and> stack e3 = removeAll a (stack e) \<and> (\<forall>c. c \<noteq> a \<longrightarrow> fresh_action e c \<longrightarrow> fresh_action e3 c)"
proof -
  let ?R = "\<lambda>b. count_list (stack e) b + A b"
  have store_ok: "store_ok ?R T e" and pos: "0 < ?R a"
    using assms(1) safe_stack_member [OF executingCommand_SomeD [OF assms(2)]] by (auto simp: safe_def)
  obtain x where x: "act e a = Some x" "akind x = Other_Action" "astatus x = New"
    using assms(3) by (auto simp: fresh_action_def)
  obtain e1 where e1: "action_retain a e = Inr e1" "store_ok (incr a ?R) T e1" "stack e1 = stack e"
    using action_retain_ok [OF store_ok pos] by (auto simp: ok_def)
  have act1: "act e1 = (act e)(a \<mapsto> x\<lparr>arefs := arefs x + 1\<rparr>)"
    using change_action_act [OF e1(1) [unfolded action_retain_def] x(1)] .
  have safe1: "safe (incr a A) T e1"
    using e1(2) by (simp add: safe_def e1(3) stack_refs_incr)
  have "executingCommand e1 = Some a" "fresh_action e1 a" "0 < incr a A a"
    using assms(2) e1(3) act1 x by (simp_all add: fresh_action_def incr_def) (simp only: executingCommand_def)
  then obtain e2 x2 where e2: "action_call b a e1 = Inr (Complete, e2)" "safe (incr a A) T e2" "stack e2 = removeAll a (stack e)"
      "act e2 a = Some x2" "astatus x2 = Complete" "\<And>c. c \<noteq> a \<Longrightarrow> fresh_action e1 c \<Longrightarrow> fresh_action e2 c"
    using action_call_instant [OF safe1 _ _ _ assms(4)] e1(3) by (metis (no_types, lifting))
  obtain e3 where e3: "action_release a e2 = Inr e3" "store_ok (\<lambda>b. count_list (stack e2) b + A b) T e3" "stack e3 = stack e2"
    using action_release_ok [of a "\<lambda>b. count_list (stack e2) b + A b" T e2] e2(2)
    by (auto simp: ok_def safe_def stack_refs_incr)
  have "executingCommand e2 \<noteq> Some a"
    using executingCommand_SomeD [of e2 a] e2(3) by auto
  then have "retire a e2 = Inr e3"
    using e2(4,5) e3(1) by (simp add: retire_def)
  moreover have "perform b a e1 = Inr (True, e2)"
    using act1 x(3) e2(1) by (simp add: perform_def)
  moreover have "fresh_action e3 c" if "c \<noteq> a" "fresh_action e c" for c
  proof -
    have "fresh_action e1 c" using that act1 by (simp add: fresh_action_def)
    then have "fresh_action e2 c" using e2(6) that(1) by blast
    then show ?thesis using action_release_other [OF e3(1) that(1)] by (simp add: fresh_action_def)
  qed
  ultimately show ?thesis
    using e1(1) e2(3) e3(2,3) by (intro exI [of _ e1] exI [of _ e2] exI [of _ e3]) (simp add: safe_def)
qed

lemma idle_actions_instant:
  assumes "\<And>c e. other_run b c e = instant c e"
  shows "\<lbrakk>safe A T e; \<forall>a\<in>set (stack e). fresh_action e a; length (stack e) < n\<rbrakk> \<Longrightarrow>
    \<exists>e'. idle_actions b n e = Some (Inr (True, e')) \<and> safe A T e' \<and> stack e' = []"
proof (induction n arbitrary: e)
  case (Suc n)
  show ?case
  proof (cases "executingCommand e")
    case None
    then have "stack e = []" by (simp add: executingCommand_def split: if_splits)
    then show ?thesis using None Suc.prems(1) by simp
  next
    case (Some a)
    note top = executingCommand_SomeD [OF Some]
    obtain e1 e2 e3 where t: "action_retain a e = Inr e1" "perform b a e1 = Inr (True, e2)" "retire a e2 = Inr e3"
        "safe A T e3" "stack e3 = removeAll a (stack e)" "\<And>c. c \<noteq> a \<Longrightarrow> fresh_action e c \<Longrightarrow> fresh_action e3 c"
      using idle_turn_instant [OF Suc.prems(1) Some _ assms] Suc.prems(2) top by (metis (no_types, lifting))
    have "length (stack e3) < n"
      using t(5) Suc.prems(3) length_removeAll_less [OF top] by simp
    moreover have "\<forall>c\<in>set (stack e3). fresh_action e3 c"
      using t(5,6) Suc.prems(2) by auto
    ultimately show ?thesis
      using Suc.IH [OF t(4)] Some t(1-3) by simp
  qed
qed simp


lemma example_store:
  "store_ok R T (example_exec xs ts q) \<longleftrightarrow>
     (\<forall>t. covers (map_option trefs (if t < length ts then Some (ts ! t) else None)) (uses (example_exec xs ts q) t + T t)) \<and>
     (\<forall>a. covers (map_option arefs (if a < length xs then Some (xs ! a) else None)) (R a))"
  "stack (example_exec xs ts q) = q" "scheduled (example_exec xs ts q) = []"
  "act (example_exec xs ts q) a = (if a < length xs then Some (xs ! a) else None)"
  "trig (example_exec xs ts q) t = (if t < length ts then Some (ts ! t) else None)"
  "next_action (example_exec xs ts q) = length xs"
  "uses (example_exec xs ts q) t = (\<Sum>a<length xs. held t (Some (xs ! a)))"
  "held t (Some (example_action Other_Action st)) = 0" "held t (Some (example_action (Wait_Action w p u) st)) = 0"
  "arefs (example_action k st) = 1" "astatus (example_action k st) = st" "akind (example_action k st) = k"
  "atrigger (example_action k st) = None" "started (example_action k st) = False"
  by (auto simp: store_ok_def uses_def example_exec_def stack_def machine_def linked_def example_net_def example_action_def
      held_def split: if_splits)

section \<open>Properties\<close>



text \<open>
  Claim C12. Pushing an action suspends the action below it and records what blocks it; stopping
  the pushed action gives back the stack as it was, and the action below has its status again and
  is no longer blocked.
\<close>

theorem push_then_stop_restores:
  assumes "safe (incr a A) T e" "act e a = Some x" "\<not> started x" "a \<notin> set (stack e)" "stack e = qs @ [b]"
    "act e b = Some z" "astatus z \<noteq> Suspended"
  shows "\<exists>e1 e2. machine_push a e = Inr e1 \<and> executingCommand e1 = Some a \<and>
    act e1 b = Some (z\<lparr>saved_status := astatus z, astatus := Suspended, blocked := Some a\<rparr>) \<and>
    machine_stop a e1 = Inr e2 \<and> safe A T e2 \<and> stack e2 = stack e \<and>
    act e2 b = Some (z\<lparr>saved_status := astatus z, blocked := None\<rparr>)"
  using assms by (rule push_stop)

theorem push_then_stop_restores_witness:
  "\<exists>e1 e2. machine_push 1 (example_exec [example_action Other_Action Running, example_action Other_Action New] [] [0]) = Inr e1 \<and>
     executingCommand e1 = Some 1 \<and> machine_stop 1 e1 = Inr e2 \<and> stack e2 = [0]"
proof -
  let ?e = "example_exec [example_action Other_Action Running, example_action Other_Action New] [] [0]"
  have "safe (incr 1 (\<lambda>_. 0)) (\<lambda>_. 0) ?e"
    by (simp add: safe_def incr_def example_store)
  from push_then_stop_restores [OF this, of "example_action Other_Action New" "[]" 0 "example_action Other_Action Running"]
  show ?thesis
    by (auto simp: example_store)
qed



text \<open>
  A \<open>FireTriggerAction\<close> that is deleted before it ran keeps its trigger: the destructor
  gives up the trigger of the base class only, so the reference taken by the constructor is never
  released, and the trigger lists the deleted action as a holder.
\<close>

lemma unfired_action_keeps_trigger:
  assumes "trig e t = Some y" "act e (next_action e) = None"
  shows "\<exists>e1 e2. new_FireTriggerAction t e = Inr (next_action e, e1) \<and> action_release (next_action e) e1 = Inr e2 \<and>
    act e2 = act e \<and>
    trig e2 t = Some (y\<lparr>trefs := trefs y + 1, towner := Machine_Owner, holders := holders y @ [next_action e]\<rparr>)"
  using assms by (rule unfired_action_leaks)

text \<open>
  A wait whose time is a property looks the property up at each run, except after a
  run that found zero: that run leaves the time zero in the action, so all later runs take zero
  whatever the property is then.
\<close>

lemma zero_wait_is_kept:
  assumes "safe A T e" "0 < A a" "act e a = Some x" "atrigger x = None" "kind (g p) = t_integer" "iValue (g p) = Some 0"
  shows "\<exists>e' x'. WaitAction_run g a (-1) p True e = Inr (Complete, e') \<and> act e' a = Some x' \<and>
    (\<exists>w. akind x' = Wait_Action w p True \<and> (\<forall>g'. read_wait_time g' w p = Inr 0))"
  using wait_zero [OF assms(1-4), of g p] assms(5,6) by (auto simp: read_wait_time_def)

end
