(* ===== verification/Cw_Lists.thy ===== *)
theory Cw_Lists
  imports Cw_Arith Cw_Checks "HOL-Library.Multiset"
begin

text \<open>
  The dynamic values of \<open>src/iod/src/dynamic_value.cpp\<close> that read lists of machines: whether any
  or all items are in a state, how many are, sums, means and extremes of a property, membership,
  size, single items and the bit set of a list. Items are the class \<open>Parameter\<close>; an item that
  names a machine remembers the machine once it has been looked up. What the evaluating machine's
  \<open>lookup\<close> and \<open>getValue\<close> find is part of the state of the world; messages to the log and the
  times of the last evaluation are left out. \<open>last_result\<close> is an argument, because an
  assignment to it keeps the fields of the kinds it held before.
\<close>

section \<open>Items and machines\<close>

record param =
  pval :: cw_value
  pcached :: "nat option"      \<comment> \<open>\<open>val.cached_machine\<close>\<close>
  pmachine :: "nat option"
  real_name :: string

record lmach =
  mname :: string
  mtype :: string
  mstate :: string
  mclass :: "string option"    \<comment> \<open>the name of the \<open>state_machine\<close>, when there is one\<close>
  menabled :: bool
  parameters :: "param list"
  mlocals :: "param list"

datatype call = SetState nat string | SetValue nat string cw_value | NotifyDependents nat

record world =
  owner :: nat                                      \<comment> \<open>the machine that evaluates\<close>
  scopes :: "nat \<Rightarrow> string \<Rightarrow> nat option"          \<comment> \<open>\<open>lookup\<close> by name, for each machine\<close>
  props :: "nat \<Rightarrow> string \<Rightarrow> cw_value option"      \<comment> \<open>\<open>getValue\<close>; \<open>None\<close> is \<open>SymbolTable::Null\<close>\<close>
  own :: "string \<Rightarrow> cw_value"                     \<comment> \<open>\<open>properties.lookup\<close> of that machine\<close>
  objects :: "nat \<Rightarrow> lmach"
  listens :: "nat \<Rightarrow> nat set"
  graph :: net
  item_token :: int                                 \<comment> \<open>the token of \<open>ITEM\<close>\<close>
  issued :: "call list"                             \<comment> \<open>the calls that leave the lists\<close>

definition Parameter_of :: "cw_value \<Rightarrow> nat option \<Rightarrow> param" where
  "Parameter_of v c = \<lparr>pval = v, pcached = c, pmachine = None, real_name = []\<rparr>"

definition named :: "world \<Rightarrow> string \<Rightarrow> nat option" where
  "named w n = scopes w (owner w) n"

definition getValue :: "world \<Rightarrow> nat \<Rightarrow> string \<Rightarrow> cw_value" where
  "getValue w i p = (case props w i p of None \<Rightarrow> Value_empty | Some v \<Rightarrow> v)"

definition set_object :: "nat \<Rightarrow> lmach \<Rightarrow> world \<Rightarrow> world" where
  "set_object i m w = w\<lparr>objects := (objects w)(i := m)\<rparr>"

definition set_parameters :: "nat \<Rightarrow> param list \<Rightarrow> world \<Rightarrow> world" where
  "set_parameters i ps w = set_object i ((objects w i)\<lparr>parameters := ps\<rparr>) w"

definition set_locals :: "nat \<Rightarrow> param list \<Rightarrow> world \<Rightarrow> world" where
  "set_locals i ps w = set_object i ((objects w i)\<lparr>mlocals := ps\<rparr>) w"

definition issue :: "call \<Rightarrow> world \<Rightarrow> world" where
  "issue c w = w\<lparr>issued := issued w @ [c]\<rparr>"

text \<open>\<open>lookup(Parameter \&)\<close> fills in the machine of a symbol.\<close>

definition lookup_param :: "world \<Rightarrow> param \<Rightarrow> param" where
  "lookup_param w p =
     (if kind (pval p) = t_symbol \<and> pmachine p = None then p\<lparr>pmachine := named w (real_name p)\<rparr> else p)"

definition lookup_value :: "world \<Rightarrow> cw_value \<Rightarrow> nat option \<Rightarrow> nat option" where
  "lookup_value w v c =
     (if c = None \<and> (kind v = t_symbol \<or> kind v = t_string) then named w (sValue v) else c)"

section \<open>States of the items\<close>

text \<open>
  The pointer to the property that holds the name of a state is taken once and kept: to the null
  value when the property did not exist then.
\<close>

datatype prop_ptr = PtrUnset | PtrNull | PtrTo

definition find_property :: "world \<Rightarrow> string \<Rightarrow> prop_ptr \<Rightarrow> prop_ptr" where
  "find_property w s ptr =
     (if ptr = PtrUnset then (if props w (owner w) s = None then PtrNull else PtrTo) else ptr)"

definition state_val :: "world \<Rightarrow> string \<Rightarrow> prop_ptr \<Rightarrow> string res" where
  "state_val w s ptr = (case ptr of
     PtrTo \<Rightarrow> (case props w (owner w) s of None \<Rightarrow> Inl UseAfterFree | Some v \<Rightarrow> asString v)
   | _ \<Rightarrow> Inr s)"

text \<open>The loops: an item without a machine is skipped, the lookup of an item is kept.\<close>

fun first_item :: "world \<Rightarrow> (nat \<Rightarrow> bool) \<Rightarrow> param list \<Rightarrow> bool \<times> param list" where
  "first_item w P [] = (False, [])"
| "first_item w P (p # ps) =
     (let q = lookup_param w p in
      if (case pmachine q of None \<Rightarrow> False | Some m \<Rightarrow> P m) then (True, q # ps)
      else let (b, qs) = first_item w P ps in (b, q # qs))"

fun count_items :: "world \<Rightarrow> (nat \<Rightarrow> bool) \<Rightarrow> param list \<Rightarrow> nat \<times> param list" where
  "count_items w P [] = (0, [])"
| "count_items w P (p # ps) =
     (let q = lookup_param w p; (n, qs) = count_items w P ps
      in ((case pmachine q of None \<Rightarrow> n | Some m \<Rightarrow> if P m then Suc n else n), q # qs))"

definition in_state :: "world \<Rightarrow> string \<Rightarrow> nat \<Rightarrow> bool" where
  "in_state w s m \<longleftrightarrow> s = mstate (objects w m)"

definition AnyInValue :: "world \<Rightarrow> cw_value \<Rightarrow> string \<Rightarrow> string \<Rightarrow> prop_ptr \<Rightarrow> (cw_value \<times> prop_ptr \<times> world) res" where
  "AnyInValue w prev state list_name ptr =
     (let ptr' = find_property w state ptr in
      case named w list_name of
        None \<Rightarrow> Inr (value_assign prev (Value_bool False), ptr', w)
      | Some l \<Rightarrow> bindr (state_val w state ptr') (\<lambda>s.
          let (b, ps) = first_item w (in_state w s) (parameters (objects w l))
          in Inr (value_assign prev (Value_bool b), ptr', set_parameters l ps w)))"

definition AllInValue :: "world \<Rightarrow> cw_value \<Rightarrow> string \<Rightarrow> string \<Rightarrow> prop_ptr \<Rightarrow> (cw_value \<times> prop_ptr \<times> world) res" where
  "AllInValue w prev state list_name ptr =
     (let ptr' = find_property w state ptr in
      case named w list_name of
        None \<Rightarrow> Inr (value_assign prev (Value_bool False), ptr', w)
      | Some l \<Rightarrow>
          if parameters (objects w l) = [] then Inr (value_assign prev (Value_bool False), ptr', w)
          else bindr (state_val w state ptr') (\<lambda>s.
            let (b, ps) = first_item w (\<lambda>m. \<not> in_state w s m) (parameters (objects w l))
            in Inr (value_assign prev (Value_bool (\<not> b)), ptr', set_parameters l ps w)))"

definition CountValue :: "world \<Rightarrow> cw_value \<Rightarrow> string \<Rightarrow> string \<Rightarrow> prop_ptr \<Rightarrow> (cw_value \<times> prop_ptr \<times> world) res" where
  "CountValue w prev state list_name ptr =
     (let ptr' = find_property w state ptr in
      case named w list_name of
        None \<Rightarrow> Inr (value_assign prev (Value_long 0), ptr', w)
      | Some l \<Rightarrow>
          if parameters (objects w l) = [] then Inr (value_assign prev (Value_long 0), ptr', w)
          else bindr (state_val w state ptr') (\<lambda>s.
            let (n, ps) = count_items w (in_state w s) (parameters (objects w l))
            in Inr (value_assign prev (Value_long (int n)), ptr', set_parameters l ps w)))"

definition AnyEnabledDisabledValue :: "world \<Rightarrow> cw_value \<Rightarrow> bool \<Rightarrow> string \<Rightarrow> cw_value \<times> world" where
  "AnyEnabledDisabledValue w prev check_enabled list_name = (case named w list_name of
     None \<Rightarrow> (value_assign prev (Value_bool False), w)
   | Some l \<Rightarrow>
       let (b, ps) = first_item w (\<lambda>m. check_enabled = menabled (objects w m)) (parameters (objects w l))
       in (value_assign prev (Value_bool b), set_parameters l ps w))"

definition AllEnabledDisabledValue :: "world \<Rightarrow> cw_value \<Rightarrow> bool \<Rightarrow> string \<Rightarrow> cw_value \<times> world" where
  "AllEnabledDisabledValue w prev check_enabled list_name = (case named w list_name of
     None \<Rightarrow> (value_assign prev (Value_bool False), w)
   | Some l \<Rightarrow>
       if parameters (objects w l) = [] then (value_assign prev (Value_bool False), w)
       else let (b, ps) = first_item w (\<lambda>m. check_enabled \<noteq> menabled (objects w m)) (parameters (objects w l))
            in (value_assign prev (Value_bool (\<not> b)), set_parameters l ps w))"


section \<open>Sums and extremes\<close>

text \<open>
  The values an operation runs over: the property of the machines that can be found, or, with an
  empty property name, the items themselves.
\<close>

fun item_values :: "world \<Rightarrow> string \<Rightarrow> param list \<Rightarrow> cw_value list \<times> param list" where
  "item_values w prop [] = ([], [])"
| "item_values w prop (p # ps) =
     (let (vs, qs) = item_values w prop ps in
      if prop = [] then (pval p # vs, p # qs)
      else let q = lookup_param w p in
           case pmachine q of None \<Rightarrow> (vs, q # qs) | Some m \<Rightarrow> (getValue w m prop # vs, q # qs))"

fun sum_values :: "tokeniser \<Rightarrow> cw_value \<Rightarrow> cw_value list \<Rightarrow> (cw_value \<times> tokeniser) res" where
  "sum_values t acc [] = Inr (acc, t)"
| "sum_values t acc (v # vs) =
     bindr (value_plus t acc v) (\<lambda>(r, t'). sum_values t' (value_assign acc r) vs)"

text \<open>The common guard: the list must exist, be a \<open>LIST\<close> and have items, or the result is zero.\<close>

definition over_list :: "world \<Rightarrow> cw_value \<Rightarrow> string \<Rightarrow> (nat \<Rightarrow> (cw_value \<times> 'a \<times> world) res) \<Rightarrow> 'a \<Rightarrow> (cw_value \<times> 'a \<times> world) res" where
  "over_list w prev list_name f x = (case named w list_name of
     None \<Rightarrow> Inr (value_assign prev (Value_long 0), x, w)
   | Some l \<Rightarrow>
       if mtype (objects w l) \<noteq> ''LIST'' then Inr (value_assign prev (Value_long 0), x, w)
       else if parameters (objects w l) = [] then Inr (value_assign prev (Value_long 0), x, w)
       else f l)"

definition SumValue :: "world \<Rightarrow> tokeniser \<Rightarrow> cw_value \<Rightarrow> string \<Rightarrow> string \<Rightarrow> (cw_value \<times> tokeniser \<times> world) res" where
  "SumValue w t prev prop list_name = over_list w prev list_name (\<lambda>l.
     let (vs, ps) = item_values w prop (parameters (objects w l)) in
     bindr (sum_values t (Value_long 0) vs) (\<lambda>(r, t').
     Inr (value_assign prev r, t', set_parameters l ps w))) t"

definition MeanValue :: "world \<Rightarrow> tokeniser \<Rightarrow> cw_value \<Rightarrow> string \<Rightarrow> string \<Rightarrow> (cw_value \<times> tokeniser \<times> world) res" where
  "MeanValue w t prev prop list_name = over_list w prev list_name (\<lambda>l.
     let (vs, ps) = item_values w prop (parameters (objects w l));
         zero = value_assign prev (Value_long 0) in
     bindr (sum_values t (Value_long 0) vs) (\<lambda>(r, t').
     if vs = [] then Inr (zero, t', set_parameters l ps w)
     else bindr (asFloat r (dzero False)) (\<lambda>(ok, x).
       Inr (if ok then value_assign zero (Value_double (ddiv x (dbl_of_int (int (length vs))))) else zero,
            t', set_parameters l ps w)))) t"

fun best_value :: "(cw_value \<Rightarrow> cw_value \<Rightarrow> bool res) \<Rightarrow> bool \<Rightarrow> cw_value \<Rightarrow> cw_value list \<Rightarrow> cw_value res" where
  "best_value better unassigned acc [] = Inr acc"
| "best_value better unassigned acc (v # vs) =
     bindr (if unassigned then Inr True else better v acc) (\<lambda>b.
     if b then best_value better False (value_assign acc v) vs else best_value better unassigned acc vs)"

definition MinValue :: "world \<Rightarrow> cw_value \<Rightarrow> string \<Rightarrow> string \<Rightarrow> (cw_value \<times> unit \<times> world) res" where
  "MinValue w prev prop list_name = over_list w prev list_name (\<lambda>l.
     let (vs, ps) = item_values w prop (parameters (objects w l)) in
     mapr (\<lambda>r. (value_assign prev r, (), set_parameters l ps w)) (best_value value_lt True (Value_long LONG_MAX) vs)) ()"

definition MaxValue :: "world \<Rightarrow> cw_value \<Rightarrow> string \<Rightarrow> string \<Rightarrow> (cw_value \<times> unit \<times> world) res" where
  "MaxValue w prev prop list_name = over_list w prev list_name (\<lambda>l.
     let (vs, ps) = item_values w prop (parameters (objects w l)) in
     mapr (\<lambda>r. (value_assign prev r, (), set_parameters l ps w)) (best_value value_gt True (Value_long LONG_MIN) vs)) ()"

definition AbsoluteValue :: "world \<Rightarrow> cw_value \<Rightarrow> string \<Rightarrow> cw_value res" where
  "AbsoluteValue w prev prop =
     (let v = value_assign prev (getValue w (owner w) prop) in
      bindr (value_lt v (Value_long 0)) (\<lambda>neg.
      if neg then mapr (value_assign v) (value_uminus (getValue w (owner w) prop)) else Inr v))"

text \<open>
  The output of a value on a stream; how the stream shows floating point numbers and the
  expressions of dynamic values is the argument \<open>show\<close>.
\<close>

definition put_value :: "(cw_value \<Rightarrow> string) \<Rightarrow> cw_value \<Rightarrow> string res" where
  "put_value shw v = (case kind v of
     t_empty \<Rightarrow> Inr ''(empty)''
   | t_integer \<Rightarrow> mapr show_int (read_field (iValue v))
   | t_float \<Rightarrow> mapr (\<lambda>_. shw v) (read_field (fValue v))
   | t_symbol \<Rightarrow> Inr (sValue v)
   | t_string \<Rightarrow> Inr ([CHR 0x22] @ sValue v @ [CHR 0x22])
   | t_bool \<Rightarrow> mapr (\<lambda>b. if b then ''true'' else ''false'') (read_field (bValue v))
   | t_dynamic \<Rightarrow> (if dyn_value v = None then Inr ''<null>'' else Inr (shw v)))"

fun serialise :: "(cw_value \<Rightarrow> string) \<Rightarrow> world \<Rightarrow> string \<Rightarrow> string \<Rightarrow> param list \<Rightarrow> (string \<times> param list) res" where
  "serialise shw w prop delim [] = Inr ([], [])"
| "serialise shw w prop delim (p # ps) =
     (let by_machine = (prop \<noteq> [] \<or> kind (pval p) = t_symbol);
          q = (if by_machine then lookup_param w p else p)
      in if by_machine \<and> pmachine q = None then mapr (\<lambda>(s, qs). (s, q # qs)) (serialise shw w prop delim ps)
         else let v = (if by_machine then getValue w (the (pmachine q)) (if prop = [] then ''VALUE'' else prop) else pval q) in
           bindr (put_value shw (value_toSymbol v)) (\<lambda>s.
           mapr (\<lambda>(s', qs). (s @ (if ps \<noteq> [] then delim else []) @ s', q # qs)) (serialise shw w prop delim ps)))"

definition SerialiseValue ::
  "(cw_value \<Rightarrow> string) \<Rightarrow> world \<Rightarrow> tokeniser \<Rightarrow> cw_value \<Rightarrow> string \<Rightarrow> string \<Rightarrow> string \<Rightarrow> (cw_value \<times> tokeniser \<times> world) res" where
  "SerialiseValue shw w t prev prop list_name delim = over_list w prev list_name (\<lambda>l.
     bindr (serialise shw w prop delim (parameters (objects w l))) (\<lambda>(s, ps).
     let (v, t') = Value_string t s t_symbol
     in Inr (value_toString (value_assign prev v), t', set_parameters l ps w))) t"

section \<open>Items\<close>

fun list_includes :: "world \<Rightarrow> cw_value \<Rightarrow> param list \<Rightarrow> (bool \<times> param list) res" where
  "list_includes w e [] = Inr (False, [])"
| "list_includes w e (p # ps) =
     (let q = lookup_param w p in
      bindr (value_eq e (pval q)) (\<lambda>same.
      if same then Inr (True, q # ps)
      else bindr (asString e) (\<lambda>s.
        if s = real_name q then Inr (True, q # ps)
        else mapr (\<lambda>(b, qs). (b, q # qs)) (list_includes w e ps))))"

text \<open>\<open>INCLUDES\<close> keeps the list it has found.\<close>

definition IncludesValue :: "world \<Rightarrow> cw_value \<Rightarrow> cw_value \<Rightarrow> string \<Rightarrow> nat option \<Rightarrow> (cw_value \<times> nat option \<times> world) res" where
  "IncludesValue w prev e list_name found =
     (let l' = (if found = None then named w list_name else found) in
      case l' of
        None \<Rightarrow> Inr (value_assign prev (Value_bool False), None, w)
      | Some l \<Rightarrow> mapr (\<lambda>(b, ps). (value_assign prev (Value_bool b), l', set_parameters l ps w))
                    (list_includes w e (parameters (objects w l))))"

definition SizeValue :: "world \<Rightarrow> cw_value \<Rightarrow> string \<Rightarrow> cw_value" where
  "SizeValue w prev list_name = (case named w list_name of
     None \<Rightarrow> value_assign prev (Value_long 0)
   | Some l \<Rightarrow> value_assign prev (Value_long (int (length (parameters (objects w l))))))"

text \<open>The bits of a list, first item most significant, in an \<open>unsigned long\<close>.\<close>

fun bitset_loop :: "world \<Rightarrow> string \<Rightarrow> int \<Rightarrow> param list \<Rightarrow> int res" where
  "bitset_loop w s val [] = Inr val"
| "bitset_loop w s val (p # ps) =
     bindr (case pmachine p of
         Some m \<Rightarrow> Inr (in_state w s m)
       | None \<Rightarrow> mapr (\<lambda>(ok, x). ok \<and> x) (asBoolean (pval p) False)) (\<lambda>b.
     bitset_loop w s (to_u64 (to_u64 (val * 2) + (if b then 1 else 0))) ps)"

definition BitsetValue :: "world \<Rightarrow> cw_value \<Rightarrow> string \<Rightarrow> string \<Rightarrow> cw_value res" where
  "BitsetValue w prev state list_name = (case named w list_name of
     None \<Rightarrow> Inr (value_assign prev (Value_bool False))
   | Some l \<Rightarrow> mapr (\<lambda>u. value_assign prev (Value_ulong u)) (bitset_loop w state 0 (parameters (objects w l))))"


section \<open>Single machines and properties\<close>

definition EnabledValue :: "world \<Rightarrow> cw_value \<Rightarrow> string \<Rightarrow> cw_value" where
  "EnabledValue w prev name = value_assign prev (Value_bool (case named w name of None \<Rightarrow> False | Some m \<Rightarrow> menabled (objects w m)))"

definition DisabledValue :: "world \<Rightarrow> cw_value \<Rightarrow> string \<Rightarrow> cw_value" where
  "DisabledValue w prev name = value_assign prev (Value_bool (case named w name of None \<Rightarrow> False | Some m \<Rightarrow> \<not> menabled (objects w m)))"

definition ExistsValue :: "world \<Rightarrow> cw_value \<Rightarrow> string \<Rightarrow> cw_value" where
  "ExistsValue w prev name = value_assign prev (Value_bool (named w name \<noteq> None))"

definition ClassNameValue :: "world \<Rightarrow> tokeniser \<Rightarrow> cw_value \<Rightarrow> string \<Rightarrow> cw_value \<times> tokeniser" where
  "ClassNameValue w t prev name =
     (let (v, t') = Value_cstr t (case named w name of
            None \<Rightarrow> ''NULL''
          | Some m \<Rightarrow> (case mclass (objects w m) of None \<Rightarrow> ''NULL'' | Some c \<Rightarrow> c)) t_symbol
      in (value_assign prev v, t'))"

definition PropertyLookupValue :: "world \<Rightarrow> cw_value \<Rightarrow> string \<Rightarrow> string \<Rightarrow> cw_value res" where
  "PropertyLookupValue w prev machine_name property_name =
     (let prp = value_toSymbol (getValue w (owner w) property_name) in
      if isNull prp then Inr (value_assign prev (Value_bool False))
      else (case named w machine_name of
          None \<Rightarrow> Inr (value_assign prev (Value_bool False))
        | Some m \<Rightarrow> bindr (asString prp) (\<lambda>s.
            let r = value_assign prev (getValue w m s) in Inr (if isNull r then value_assign r prp else r))))"

text \<open>\<open>resolvedName\<close> reports a property that is no name with the name of the machine, which may be missing.\<close>

definition PropertyLookup_resolvedName :: "world \<Rightarrow> string \<Rightarrow> string \<Rightarrow> string res" where
  "PropertyLookup_resolvedName w machine_name property_name =
     (let prp = getValue w (owner w) property_name in
      if kind prp = t_symbol \<or> kind prp = t_string then Inr (machine_name @ ''.'' @ sValue prp)
      else (case named w machine_name of None \<Rightarrow> Inl NullPointer | Some m \<Rightarrow> Inr []))"

definition CastValue :: "world \<Rightarrow> tokeniser \<Rightarrow> cw_value \<Rightarrow> string \<Rightarrow> string \<Rightarrow> (cw_value \<times> tokeniser) res" where
  "CastValue w t prev property knd =
     (let val = own w property in
      if knd = ''STRING'' then mapr (\<lambda>s. let (v, t') = Value_string t s t_symbol in (value_assign prev v, t')) (asString val)
      else if knd = ''NUMBER'' then mapr (\<lambda>(ok, i). (value_assign prev (if ok then Value_long i else Value_bool False), t)) (asInteger val 0)
      else Inr (prev, t))"

section \<open>Reference notions\<close>

text \<open>The machines an operation finds in a list, in order.\<close>

definition machines_of :: "world \<Rightarrow> param list \<Rightarrow> nat list" where
  "machines_of w ps = List.map_filter (\<lambda>p. pmachine (lookup_param w p)) ps"

definition same_scope :: "world \<Rightarrow> world \<Rightarrow> bool" where
  "same_scope w w' \<longleftrightarrow> owner w' = owner w \<and> named w' = named w \<and> props w' = props w \<and>
     (\<forall>i. mstate (objects w' i) = mstate (objects w i) \<and>
          machines_of w' (parameters (objects w' i)) = machines_of w (parameters (objects w i)) \<and>
          (parameters (objects w' i) = [] \<longleftrightarrow> parameters (objects w i) = []))"

definition int_value :: "cw_value \<Rightarrow> int \<Rightarrow> bool" where
  "int_value v i \<longleftrightarrow> kind v = t_integer \<and> iValue v = Some i"

definition bool_value :: "cw_value \<Rightarrow> bool \<Rightarrow> bool" where
  "bool_value v b \<longleftrightarrow> kind v = t_bool \<and> bValue v = Some b"

text \<open>The bit an item contributes, and the number that a list of bits denotes.\<close>

definition item_bit :: "world \<Rightarrow> string \<Rightarrow> param \<Rightarrow> bool res" where
  "item_bit w s p = (case pmachine p of
     Some m \<Rightarrow> Inr (in_state w s m)
   | None \<Rightarrow> mapr (\<lambda>(ok, x). ok \<and> x) (asBoolean (pval p) False))"

definition binary :: "bool list \<Rightarrow> int" where
  "binary bs = foldl (\<lambda>n b. 2 * n + (if b then 1 else 0)) 0 bs"

text \<open>A list of two machines, the second already looked up, and a number.\<close>

definition example_item :: "string \<Rightarrow> nat option \<Rightarrow> param" where
  "example_item n m = \<lparr>pval = set_token_id 7 (set_sValue n (Value_kind t_symbol)), pcached = None, pmachine = m, real_name = n\<rparr>"

definition example_object :: "string \<Rightarrow> string \<Rightarrow> string \<Rightarrow> param list \<Rightarrow> lmach" where
  "example_object n ty st ps = \<lparr>mname = n, mtype = ty, mstate = st, mclass = Some ty, menabled = True, parameters = ps, mlocals = []\<rparr>"

definition example_world :: world where
  "example_world = \<lparr>owner = 9,
     scopes = (\<lambda>_ n. if n = ''list'' then Some 0 else if n = ''a'' then Some 1 else if n = ''b'' then Some 2 else None),
     props = (\<lambda>i p. if p = ''speed'' \<and> (i = 1 \<or> i = 2) then Some (Value_long (if i = 1 then 7 else 3)) else None),
     own = (\<lambda>_. Value_empty),
     objects = (\<lambda>i. if i = 0 then example_object ''list'' ''LIST'' ''nonempty''
                       [example_item ''a'' None, example_item ''b'' (Some 2), Parameter_of (Value_long 5) None]
                   else example_object (if i = 1 then ''a'' else ''b'') ''FLAG'' (if i = 1 then ''on'' else ''off'') []),
     listens = (\<lambda>_. {}), graph = example_net, item_token = 3, issued = []\<rparr>"

section \<open>Lemmas\<close>

lemma machines_of_simps [simp]:
  "machines_of w [] = []"
  "machines_of w (p # ps) = (case pmachine (lookup_param w p) of None \<Rightarrow> machines_of w ps | Some m \<Rightarrow> m # machines_of w ps)"
  by (simp_all add: machines_of_def List.map_filter_def split: option.split)

lemma lookup_param_idem [simp]: "named w' = named w \<Longrightarrow> lookup_param w' (lookup_param w p) = lookup_param w p"
  by (simp add: lookup_param_def)

lemma set_parameters_simps [simp]:
  "owner (set_parameters i ps w) = owner w" "named (set_parameters i ps w) = named w"
  "props (set_parameters i ps w) = props w"
  "objects (set_parameters i ps w) = (objects w)(i := (objects w i)\<lparr>parameters := ps\<rparr>)"
  "graph (set_parameters i ps w) = graph w" "listens (set_parameters i ps w) = listens w"
  by (simp_all add: set_parameters_def set_object_def named_def fun_eq_iff)

lemma lookup_param_cong: "named w' = named w \<Longrightarrow> lookup_param w' = lookup_param w"
  by (simp add: lookup_param_def fun_eq_iff)

lemma machines_of_cong: "named w' = named w \<Longrightarrow> machines_of w' ps = machines_of w ps"
  by (simp add: machines_of_def lookup_param_cong [of w' w])

lemma first_item_iff: "fst (first_item w P ps) \<longleftrightarrow> list_ex P (machines_of w ps)"
  by (induction ps) (simp_all add: Let_def split_beta split: option.split)

lemma first_item_machines: "machines_of w (snd (first_item w P ps)) = machines_of w ps \<and> (snd (first_item w P ps) = [] \<longleftrightarrow> ps = [])"
  by (induction ps) (simp_all add: Let_def split_beta split: option.split)

lemma count_items_eq: "fst (count_items w P ps) = length (filter P (machines_of w ps))"
  by (induction ps) (simp_all add: Let_def split_beta split: option.split)

lemma count_items_machines: "machines_of w (snd (count_items w P ps)) = machines_of w ps \<and> (snd (count_items w P ps) = [] \<longleftrightarrow> ps = [])"
  by (induction ps) (simp_all add: Let_def split_beta split: option.split)

lemma same_scope_refl: "same_scope w w"
  by (simp add: same_scope_def)

lemma same_scope_trans: "same_scope u v \<Longrightarrow> same_scope v w \<Longrightarrow> same_scope u w"
  by (simp add: same_scope_def)

lemma same_scope_set_parameters:
  "machines_of w ps = machines_of w (parameters (objects w l)) \<Longrightarrow> (ps = [] \<longleftrightarrow> parameters (objects w l) = []) \<Longrightarrow>
   same_scope w (set_parameters l ps w)"
  by (simp add: same_scope_def machines_of_cong [of "set_parameters l ps w" w])

lemma state_val_same: "same_scope w w' \<Longrightarrow> state_val w' s ptr = state_val w s ptr"
  by (cases ptr) (simp_all add: same_scope_def state_val_def)

lemma find_property_same: "same_scope w w' \<Longrightarrow> find_property w' s ptr = find_property w s ptr"
  by (simp add: same_scope_def find_property_def)

lemma int_value_assign [simp]: "int_value (value_assign v (Value_long i)) i"
  by (simp add: int_value_def value_assign_def Value_long_def)

lemma bool_value_assign [simp]: "bool_value (value_assign v (Value_bool i)) i"
  by (simp add: bool_value_def value_assign_def Value_bool_def)


lemma in_state_same: "same_scope w w' \<Longrightarrow> in_state w' s = in_state w s"
  by (simp add: same_scope_def in_state_def fun_eq_iff)

text \<open>What the three operations on a state return, and that they only fill in machines.\<close>

lemma CountValue_returns:
  assumes l: "named w l = Some i" and st: "state_val w s (find_property w s ptr) = Inr st"
  shows "\<exists>c w'. CountValue w prev s l ptr = Inr (c, find_property w s ptr, w') \<and> same_scope w w' \<and>
           int_value c (int (length (filter (in_state w st) (machines_of w (parameters (objects w i))))))"
proof (cases "parameters (objects w i) = []")
  case True
  then show ?thesis using l by (simp add: CountValue_def same_scope_refl Let_def)
next
  case False
  have "same_scope w (set_parameters i (snd (count_items w (in_state w st) (parameters (objects w i)))) w)"
    by (intro same_scope_set_parameters) (simp_all add: count_items_machines)
  then show ?thesis using l st False by (simp add: CountValue_def Let_def split_beta count_items_eq)
qed

lemma AnyInValue_returns:
  assumes l: "named w l = Some i" and st: "state_val w s (find_property w s ptr) = Inr st"
  shows "\<exists>c w'. AnyInValue w prev s l ptr = Inr (c, find_property w s ptr, w') \<and> same_scope w w' \<and>
           bool_value c (list_ex (in_state w st) (machines_of w (parameters (objects w i))))"
proof -
  have "same_scope w (set_parameters i (snd (first_item w (in_state w st) (parameters (objects w i)))) w)"
    by (intro same_scope_set_parameters) (simp_all add: first_item_machines)
  then show ?thesis using l st by (simp add: AnyInValue_def Let_def split_beta first_item_iff)
qed

lemma AllInValue_returns:
  assumes l: "named w l = Some i" and st: "state_val w s (find_property w s ptr) = Inr st"
  shows "\<exists>c w'. AllInValue w prev s l ptr = Inr (c, find_property w s ptr, w') \<and> same_scope w w' \<and>
           bool_value c (parameters (objects w i) \<noteq> [] \<and> list_all (in_state w st) (machines_of w (parameters (objects w i))))"
proof (cases "parameters (objects w i) = []")
  case True
  then show ?thesis using l by (simp add: AllInValue_def same_scope_refl Let_def)
next
  case False
  let ?r = "first_item w (\<lambda>m. \<not> in_state w st m) (parameters (objects w i))"
  have "same_scope w (set_parameters i (snd ?r) w)"
    by (intro same_scope_set_parameters) (simp_all add: first_item_machines)
  moreover have "(\<not> fst ?r) = list_all (in_state w st) (machines_of w (parameters (objects w i)))"
    by (simp add: first_item_iff list_ex_iff list_all_iff)
  ultimately show ?thesis using l st False by (simp add: AllInValue_def Let_def split_beta)
qed

text \<open>
  Counting the items of a list that are in a state, asking whether any is and asking
  whether all are, one after the other, agree: any is true exactly when the count is positive,
  and all is true exactly when the list has items and the count is the number of items that
  name a machine. The lookups that the first evaluation stores do not change the later ones.
\<close>

lemma any_all_count_agree:
  assumes "named w l = Some i" and "state_val w s (find_property w s ptr) = Inr st"
  shows "\<exists>c a e w1 w2 w3 p. CountValue w r1 s l ptr = Inr (c, p, w1) \<and> AnyInValue w1 r2 s l ptr = Inr (a, p, w2) \<and>
           AllInValue w2 r3 s l ptr = Inr (e, p, w3) \<and>
           (\<exists>n. int_value c (int n) \<and> bool_value a (0 < n) \<and>
             bool_value e (parameters (objects w i) \<noteq> [] \<and> n = length (machines_of w (parameters (objects w i)))))"
proof -
  let ?ms = "machines_of w (parameters (objects w i))" and ?p = "find_property w s ptr"
  let ?n = "length (filter (in_state w st) ?ms)"
  obtain c w1 where 1: "CountValue w r1 s l ptr = Inr (c, ?p, w1)" "same_scope w w1" "int_value c (int ?n)"
    using CountValue_returns [OF assms, of r1] by blast
  have a1: "named w1 l = Some i" "state_val w1 s (find_property w1 s ptr) = Inr st" "machines_of w1 (parameters (objects w1 i)) = ?ms"
    using assms 1(2) by (simp_all add: same_scope_def [of w w1] state_val_same [OF 1(2)] find_property_same [OF 1(2)])
  obtain a w2 where 2: "AnyInValue w1 r2 s l ptr = Inr (a, ?p, w2)" "same_scope w1 w2" "bool_value a (list_ex (in_state w st) ?ms)"
    using AnyInValue_returns [OF a1(1,2), of r2] by (auto simp: a1(3) in_state_same [OF 1(2)] find_property_same [OF 1(2)])
  have sc: "same_scope w w2" using 1(2) 2(2) by (rule same_scope_trans)
  have a2: "named w2 l = Some i" "state_val w2 s (find_property w2 s ptr) = Inr st" "machines_of w2 (parameters (objects w2 i)) = ?ms"
      "parameters (objects w2 i) = [] \<longleftrightarrow> parameters (objects w i) = []"
    using assms sc by (simp_all add: same_scope_def [of w w2] state_val_same [OF sc] find_property_same [OF sc])
  obtain e w3 where 3: "AllInValue w2 r3 s l ptr = Inr (e, ?p, w3)"
      "bool_value e (parameters (objects w i) \<noteq> [] \<and> list_all (in_state w st) ?ms)"
    using AllInValue_returns [OF a2(1,2), of r3] by (auto simp: a2(3,4) in_state_same [OF sc] find_property_same [OF sc])
  have "list_ex (in_state w st) ?ms \<longleftrightarrow> 0 < ?n"
    by (auto simp: list_ex_iff filter_empty_conv)
  moreover have "list_all (in_state w st) ?ms \<longleftrightarrow> ?n = length ?ms"
    by (metis filter_id_conv length_filter_less list_all_iff nat_neq_iff)
  ultimately have "bool_value a (0 < ?n)" "bool_value e (parameters (objects w i) \<noteq> [] \<and> ?n = length ?ms)"
    using 2(3) 3(2) by simp_all
  with 1(1,3) 2(1) 3(1) show ?thesis by blast
qed


lemma example_world_simps:
  "named example_world ''list'' = Some 0"
  "parameters (objects example_world 0) = [example_item ''a'' None, example_item ''b'' (Some 2), Parameter_of (Value_long 5) None]"
  "mtype (objects example_world 0) = ''LIST''"
  "state_val example_world ''on'' (find_property example_world ''on'' PtrUnset) = Inr ''on''"
  by (simp_all add: named_def example_world_def example_object_def state_val_def find_property_def)

lemma example_world_machines: "machines_of example_world (parameters (objects example_world 0)) = [1, 2]"
  unfolding example_world_simps
  by (simp add: named_def example_world_def example_item_def lookup_param_def Parameter_of_def Value_long_def
      set_token_id_def set_sValue_def Value_kind_def)

text \<open>Comparisons of integers, and the extremes of lists of them.\<close>

lemma value_lt_int: "int_value v i \<Longrightarrow> int_value u j \<Longrightarrow> value_lt v u = Inr (i < j)"
  by (cases v; cases u) (auto simp: int_value_def value_lt_def value_ge_def compare_numbers_def string_kind_def numeric_types_def)

lemma value_gt_int: "int_value v i \<Longrightarrow> int_value u j \<Longrightarrow> value_gt v u = Inr (j < i)"
  by (cases v; cases u) (auto simp: int_value_def value_gt_def value_le_def compare_numbers_def string_kind_def numeric_types_def)

lemma int_value_assign_value [simp]: "int_value v i \<Longrightarrow> int_value (value_assign u v) i"
  by (simp add: int_value_def value_assign_def)

lemma best_value_ints:
  assumes better: "\<And>v u i j. int_value v i \<Longrightarrow> int_value u j \<Longrightarrow> better v u = Inr (lt i j)"
  shows "list_all2 int_value vs is \<Longrightarrow> int_value acc k \<Longrightarrow>
    \<exists>r. best_value better False acc vs = Inr r \<and> int_value r (fold (\<lambda>i k. if lt i k then i else k) is k)"
proof (induction vs "is" arbitrary: acc k rule: list_all2_induct)
  case (Cons v vs i "is")
  then show ?case by (simp add: better [of v i acc k])
qed simp

lemma best_value_first:
  "best_value better True acc (v # vs) = best_value better False (value_assign acc v) vs"
  by simp

lemma fold_extreme:
  fixes k :: int
  shows "fold (\<lambda>i k. if i < k then i else k) is k = Min (insert k (set is))"
    and "fold (\<lambda>i k. if k < i then i else k) is k = Max (insert k (set is))"
proof -
  have "(\<lambda>i k. if i < k then i else k) = (min :: int \<Rightarrow> int \<Rightarrow> int)" "(\<lambda>i k. if k < i then i else k) = (max :: int \<Rightarrow> int \<Rightarrow> int)"
    by (auto simp: fun_eq_iff min_def max_def)
  then show "fold (\<lambda>i k. if i < k then i else k) is k = Min (insert k (set is))"
    "fold (\<lambda>i k. if k < i then i else k) is k = Max (insert k (set is))"
    using Min.set_eq_fold [of k "is"] Max.set_eq_fold [of k "is"] by simp_all
qed

text \<open>
  On a \<open>LIST\<close> whose items give integers (at least one), \<open>MIN\<close> returns the least and
  \<open>MAX\<close> the greatest of them, whether the items are numbers or a property of machines.
\<close>

lemma min_max_are_extremes:
  assumes l: "named w l = Some i" "mtype (objects w i) = ''LIST''"
    and vs: "fst (item_values w prop (parameters (objects w i))) = v # vs" "list_all2 int_value (v # vs) is"
  shows "(\<exists>r w'. MinValue w prev prop l = Inr (r, (), w') \<and> int_value r (Min (set is))) \<and>
         (\<exists>r w'. MaxValue w prev prop l = Inr (r, (), w') \<and> int_value r (Max (set is)))"
proof -
  obtain j js where js: "is = j # js" "int_value v j" "list_all2 int_value vs js"
    using vs(2) by (auto simp: list_all2_Cons1)
  have ne: "parameters (objects w i) \<noteq> []"
    using vs(1) by (cases "parameters (objects w i)") simp_all
  obtain r1 where "best_value value_lt False (value_assign (Value_long LONG_MAX) v) vs = Inr r1" "int_value r1 (Min (set is))"
    using best_value_ints [where better = value_lt and lt = "(<)", OF value_lt_int js(3) int_value_assign_value [OF js(2)]]
    by (auto simp: js(1) fold_extreme)
  then have "\<exists>r w'. MinValue w prev prop l = Inr (r, (), w') \<and> int_value r (Min (set is))"
    using l ne vs(1) by (simp add: MinValue_def over_list_def split_beta)
  note least = this
  obtain r2 where "best_value value_gt False (value_assign (Value_long LONG_MIN) v) vs = Inr r2" "int_value r2 (Max (set is))"
    using best_value_ints [where better = value_gt and lt = "\<lambda>i j. j < i", OF value_gt_int js(3) int_value_assign_value [OF js(2)]]
    by (auto simp: js(1) fold_extreme)
  then have "\<exists>r w'. MaxValue w prev prop l = Inr (r, (), w') \<and> int_value r (Max (set is))"
    using l ne vs(1) by (simp add: MaxValue_def over_list_def split_beta)
  with least show ?thesis ..
qed

text \<open>The number that a list of bits denotes, and that the loop computes it modulo two to the 64.\<close>

lemma binary_snoc: "binary (bs @ [b]) = 2 * binary bs + (if b then 1 else 0)"
  by (simp add: binary_def)

lemma binary_bounds: "0 \<le> binary bs \<and> binary bs < 2 ^ length bs"
  by (induction bs rule: rev_induct) (auto simp: binary_snoc binary_def [of "[]"])

lemma bitset_loop_eq:
  assumes "list_all2 (\<lambda>p b. item_bit w s p = Inr b) ps bs"
  shows "bitset_loop w s (to_u64 n) ps = Inr (to_u64 (foldl (\<lambda>n b. 2 * n + (if b then 1 else 0)) n bs))"
  using assms
proof (induction ps bs arbitrary: n rule: list_all2_induct)
  case (Cons p ps b bs)
  have "to_u64 (to_u64 (to_u64 n * 2) + x) = to_u64 (2 * n + x)" for x
    by (simp add: to_u64_def mod_simps mult.commute)
  with Cons show ?case by (simp add: item_bit_def)
qed simp

lemma to_u64_idem [simp]: "to_u64 (to_u64 n) = to_u64 n"
  by (simp add: to_u64_def)

lemma to_long_to_u64 [simp]: "to_long (to_u64 n) = to_long n"
  by (simp add: to_long_def)

lemma bitset_value_eq:
  assumes l: "named w l = Some i"
    and bs: "list_all2 (\<lambda>p b. item_bit w s p = Inr b) (parameters (objects w i)) bs"
  shows "\<exists>r. BitsetValue w prev s l = Inr r \<and> int_value r (to_long (binary bs)) \<and>
           (length bs < 64 \<longrightarrow> to_long (binary bs) = binary bs \<and> 0 \<le> binary bs \<and> binary bs < 2 ^ length bs)"
proof -
  have "bitset_loop w s 0 (parameters (objects w i)) = Inr (to_u64 (binary bs))"
    using bitset_loop_eq [OF bs, of 0] by (simp add: binary_def to_u64_def)
  then have "\<exists>r. BitsetValue w prev s l = Inr r \<and> int_value r (to_long (binary bs))"
    using l by (simp add: BitsetValue_def Value_ulong_def)
  moreover have "in_long (binary bs)" if "length bs < 64"
  proof -
    have "(2 :: int) ^ length bs \<le> 2 ^ 63" using that by (intro power_increasing) simp_all
    then show ?thesis using binary_bounds [of bs] by (simp add: long_bounds)
  qed
  ultimately show ?thesis using binary_bounds [of bs] by auto
qed

text \<open>
  Claim C18. The bit set of a list is the number whose binary digits are the bits of the items,
  the first item most significant, reduced to 64 bits and read as a signed number. For fewer
  than 64 items nothing is lost: the result is that number, at least zero and below two to the
  number of items.
\<close>

theorem bitset_is_binary_number:
  assumes l: "named w l = Some i"
    and bs: "list_all2 (\<lambda>p b. item_bit w s p = Inr b) (parameters (objects w i)) bs"
  shows "\<exists>r. BitsetValue w prev s l = Inr r \<and> int_value r (to_long (binary bs)) \<and>
           (length bs < 64 \<longrightarrow> to_long (binary bs) = binary bs \<and> 0 \<le> binary bs \<and> binary bs < 2 ^ length bs)"
  using assms by (rule bitset_value_eq)

theorem bitset_is_binary_number_witness:
  "\<exists>r. BitsetValue example_world Value_empty ''off'' ''list'' = Inr r \<and> int_value r (to_long (binary [False, True, True])) \<and>
     to_long (binary [False, True, True]) = 3"
proof -
  have "list_all2 (\<lambda>p b. item_bit example_world ''off'' p = Inr b) (parameters (objects example_world 0)) [False, True, True]"
    unfolding example_world_simps
    by (simp add: item_bit_def example_item_def Parameter_of_def in_state_def named_def example_world_def example_object_def
        Value_long_def set_token_id_def set_sValue_def Value_kind_def)
  from bitset_is_binary_number [OF example_world_simps(1) this, of Value_empty]
  show ?thesis by (auto simp: binary_def)
qed

end
