(* ===== verification/Cw_ListOps.thy ===== *)
theory Cw_ListOps
  imports Cw_Lists Cw_Actions Cw_Expression
begin

text \<open>
  The operations that change lists: adding and removing items (\<open>MachineInstance::addParameter\<close>,
  \<open>removeParameter\<close>, \<open>addLocal\<close>, \<open>removeLocal\<close> of \<open>src/iod/src/MachineInstance.cpp\<close>), taking items
  (\<open>dynamic_value.cpp\<close>), and the actions that clear, sort, extend, combine and copy lists
  (\<open>ClearListAction.cpp\<close>, \<open>SortListAction.cpp\<close>, \<open>PopListAction.cpp\<close>, \<open>IncludeAction.cpp\<close>,
  \<open>SetListEntriesAction.cpp\<close>, \<open>SetOperationAction.cpp\<close>). The dependencies between machines and the
  requests for checks are those of the network of machines. Of \<open>setState\<close> the change of the
  state is modelled; it, \<open>setValue\<close> and \<open>notifyDependents\<close> are recorded as calls. The cache
  \<open>localised_names\<close> is left out. The flag in the result of an action says whether the action
  took itself off the stack.
\<close>

section \<open>Listening and dependencies\<close>

definition check_machine :: "nat \<Rightarrow> world \<Rightarrow> world res" where
  "check_machine i w = mapr (\<lambda>g. w\<lparr>graph := g\<rparr>) (request_check i (graph w))"

definition add_dependant :: "nat \<Rightarrow> nat option \<Rightarrow> world \<Rightarrow> world" where
  "add_dependant i m w = w\<lparr>graph := addDependancy i m (graph w)\<rparr>"

definition remove_dependant :: "nat \<Rightarrow> nat option \<Rightarrow> world \<Rightarrow> world" where
  "remove_dependant i m w = w\<lparr>graph := removeDependancy i m (graph w)\<rparr>"

definition listenTo :: "nat \<Rightarrow> nat \<Rightarrow> world \<Rightarrow> world res" where
  "listenTo i m w =
     (if m \<in> listens w i then Inr w
      else check_machine i (w\<lparr>listens := (listens w)(i := insert m (listens w i))\<rparr>))"

definition stopListening :: "nat \<Rightarrow> nat option \<Rightarrow> world \<Rightarrow> world res" where
  "stopListening i m w = check_machine i (case m of None \<Rightarrow> w
     | Some j \<Rightarrow> w\<lparr>listens := (listens w)(i := listens w i - {j})\<rparr>)"

definition set_state :: "nat \<Rightarrow> string \<Rightarrow> world \<Rightarrow> world" where
  "set_state i s w = issue (SetState i s) (set_object i ((objects w i)\<lparr>mstate := s\<rparr>) w)"

section \<open>Items\<close>

text \<open>Inserting before the last item of an empty list moves an iterator before the start.\<close>

definition insert_param :: "param \<Rightarrow> int \<Rightarrow> bool \<Rightarrow> param list \<Rightarrow> param list res" where
  "insert_param p position before ps =
     (if position < 0
      then if \<not> before then Inr (ps @ [p])
           else if ps = [] then Inl OutOfRange
           else Inr (butlast ps @ [p, List.last ps])
      else if \<not> before \<and> position = INT_MAX then Inl SignedOverflow
      else let k = nat (if before then position else position + 1)
           in if k < length ps then Inr (take k ps @ p # drop k ps) else Inr (ps @ [p]))"

definition addParameter :: "nat \<Rightarrow> param \<Rightarrow> nat option \<Rightarrow> int \<Rightarrow> bool \<Rightarrow> world \<Rightarrow> world res" where
  "addParameter l p mi position before w =
     bindr (insert_param p position before (parameters (objects w l))) (\<lambda>ps.
     bindr (case mi of
         None \<Rightarrow> Inr (set_parameters l ps w)
       | Some m \<Rightarrow> bindr (listenTo l m (add_dependant l mi (set_parameters l ps w))) (\<lambda>w1.
                     listenTo m l (add_dependant m (Some l) w1))) (\<lambda>w2.
     let w3 = (if mtype (objects w2 l) = ''LIST'' \<and> parameters (objects w2 l) \<noteq> [] \<and> mstate (objects w2 l) \<noteq> ''nonempty''
               then set_state l ''nonempty'' w2 else w2)
     in mapr (issue (NotifyDependents l)) (check_machine l w3)))"

text \<open>The overload for a value with its cached machine looks the machine up in the list's scope.\<close>

definition addParameter_value :: "nat \<Rightarrow> cw_value \<Rightarrow> nat option \<Rightarrow> nat option \<Rightarrow> int \<Rightarrow> bool \<Rightarrow> world \<Rightarrow> world res" where
  "addParameter_value l v cached mi position before w =
     (let p = Parameter_of v cached;
          found = (if mi = None \<and> kind v = t_symbol \<and> cached = None then scopes w l (sValue v)
                   else if mi = None \<and> kind v = t_symbol then cached else mi);
          q = (case found of
                 Some m \<Rightarrow> p\<lparr>real_name := mname (objects w m), pmachine := found\<rparr>
               | None \<Rightarrow> if kind v = t_symbol then p\<lparr>pval := value_assign v (getValue w l (sValue v)), pcached := None\<rparr> else p)
      in addParameter l q found position before w)"

definition append_value :: "nat \<Rightarrow> cw_value \<Rightarrow> nat option \<Rightarrow> world \<Rightarrow> world res" where
  "append_value l v cached w = addParameter_value l v cached None (- 1) False w"

definition removeParameter :: "nat \<Rightarrow> int \<Rightarrow> world \<Rightarrow> world res" where
  "removeParameter l which w =
     (let ps = parameters (objects w l) in
      if which < 0 \<or> int (length ps) \<le> which then Inr w
      else bindr (case pmachine (ps ! nat which) of
          None \<Rightarrow> Inr w
        | Some m \<Rightarrow> bindr (stopListening m (Some l) (remove_dependant m (Some l) w)) (\<lambda>w1.
                      stopListening l (Some m) (remove_dependant l (Some m) w1))) (\<lambda>w2.
      let w3 = set_parameters l (take (nat which) ps @ drop (Suc (nat which)) ps) w2;
          w4 = (if mtype (objects w3 l) = ''LIST'' \<and> parameters (objects w3 l) = [] \<and> mstate (objects w3 l) \<noteq> ''empty''
                then set_state l ''empty'' w3 else w3)
      in mapr (issue (NotifyDependents l)) (check_machine l w4)))"

text \<open>The dependants of a list or reference follow the machine that a local names.\<close>

fun follow_local :: "nat option \<Rightarrow> nat list \<Rightarrow> world \<Rightarrow> world res" where
  "follow_local mi [] w = Inr w"
| "follow_local mi (d # ds) w =
     bindr (case mi of None \<Rightarrow> Inr w | Some m \<Rightarrow> listenTo d m (add_dependant m (Some d) w)) (\<lambda>w1.
     bindr (check_machine d w1) (follow_local mi ds))"

fun leave_local :: "nat \<Rightarrow> nat list \<Rightarrow> world \<Rightarrow> world res" where
  "leave_local m [] w = Inr w"
| "leave_local m (d # ds) w =
     bindr (stopListening d (Some m) (remove_dependant m (Some d) w)) (\<lambda>w1.
     bindr (check_machine d w1) (leave_local m ds))"

definition local_changed :: "nat \<Rightarrow> string \<Rightarrow> world \<Rightarrow> world res" where
  "local_changed l s w = mapr (\<lambda>w1.
     if mtype (objects w1 l) = ''LIST'' then issue (NotifyDependents l) w1
     else if mtype (objects w1 l) = ''REFERENCE'' then issue (NotifyDependents l) (set_state l s w1)
     else w1) (check_machine l w)"

definition addLocal :: "nat \<Rightarrow> cw_value \<Rightarrow> nat option \<Rightarrow> nat option \<Rightarrow> world \<Rightarrow> world res" where
  "addLocal l v cached mi w =
     (let w0 = set_locals l (mlocals (objects w l) @ [(Parameter_of v cached)\<lparr>pmachine := mi\<rparr>]) w in
      bindr (if mi = None \<and> kind v = t_symbol then mapr (scopes w0 l) (asString v) else Inr mi) (\<lambda>m.
      bindr (follow_local m (depends (graph w0) l) w0) (\<lambda>w1.
      bindr (case m of None \<Rightarrow> Inr w1 | Some j \<Rightarrow> listenTo l j (add_dependant j (Some l) w1)) (\<lambda>w2.
      local_changed l ''ASSIGNED'' w2))))"

definition removeLocal :: "nat \<Rightarrow> nat \<Rightarrow> world \<Rightarrow> world res" where
  "removeLocal l index w =
     (let ls = mlocals (objects w l) in
      if length ls \<le> index then Inr w
      else bindr (case pmachine (ls ! index) of
          None \<Rightarrow> Inr w
        | Some m \<Rightarrow> bindr (stopListening l (Some m) w) (\<lambda>w1.
                     let w2 = remove_dependant m (Some l) w1 in leave_local m (depends (graph w2) l) w2)) (\<lambda>w3.
      local_changed l ''EMPTY'' (set_locals l (take index ls @ drop (Suc index) ls) w3)))"


section \<open>Taking items\<close>

fun put_items :: "(cw_value \<Rightarrow> string) \<Rightarrow> string \<Rightarrow> param list \<Rightarrow> string res" where
  "put_items shw delim [] = Inr []"
| "put_items shw delim (p # ps) =
     bindr (put_value shw (pval p)) (\<lambda>s. mapr (\<lambda>r. delim @ s @ r) (put_items shw '','' ps))"

definition displayList :: "(cw_value \<Rightarrow> string) \<Rightarrow> nat \<Rightarrow> world \<Rightarrow> world res" where
  "displayList shw l w = mapr (\<lambda>s. issue (SetValue l ''DEBUG'' (set_sValue (''['' @ s @ '']'') (Value_kind t_string))) w)
     (put_items shw [] (parameters (objects w l)))"

text \<open>A taken value comes with its cached machine, that of the item unless the value had one.\<close>

definition taken :: "cw_value \<Rightarrow> param \<Rightarrow> cw_value \<times> nat option" where
  "taken prev p = (value_assign prev (pval p), if pcached p = None then pmachine p else pcached p)"

definition no_value :: "cw_value \<Rightarrow> cw_value \<times> nat option" where
  "no_value prev = (value_assign prev (Value_bool False), None)"

definition PopListBackValue ::
  "(cw_value \<Rightarrow> string) \<Rightarrow> world \<Rightarrow> cw_value \<Rightarrow> string \<Rightarrow> bool \<Rightarrow> ((cw_value \<times> nat option) \<times> world) res" where
  "PopListBackValue shw w prev list_name remove = (case named w list_name of
     None \<Rightarrow> Inr (no_value prev, w)
   | Some l \<Rightarrow>
       let ps = parameters (objects w l) in
       if ps = [] then Inr (no_value prev, w)
       else let r = taken prev (List.last ps) in
         if \<not> remove then Inr (r, w)
         else let m = pmachine (ps ! 0) in
           bindr (stopListening l m (remove_dependant l m w)) (\<lambda>w1.
           bindr (check_machine l (set_parameters l (butlast ps) w1)) (\<lambda>w2.
           mapr (Pair r) (displayList shw l w2))))"

definition PopListFrontValue ::
  "(cw_value \<Rightarrow> string) \<Rightarrow> world \<Rightarrow> cw_value \<Rightarrow> string \<Rightarrow> bool \<Rightarrow> ((cw_value \<times> nat option) \<times> world) res" where
  "PopListFrontValue shw w prev list_name remove = (case named w list_name of
     None \<Rightarrow> Inr (no_value prev, w)
   | Some l \<Rightarrow>
       let ps = parameters (objects w l); ls = mlocals (objects w l) in
       if mtype (objects w l) = ''REFERENCE''
       then (case ls of
           [] \<Rightarrow> Inr (no_value prev, w)
         | p # _ \<Rightarrow>
             bindr (if pmachine p \<noteq> None \<and> pcached p = None
                    then (case ps of [] \<Rightarrow> Inl OutOfRange | q # qs \<Rightarrow> Inr (set_parameters l (lookup_param w q # qs) w))
                    else Inr w) (\<lambda>w1.
             if \<not> remove then Inr (taken prev p, w1)
             else bindr (removeLocal l 0 w1) (\<lambda>w2. bindr (check_machine l w2) (\<lambda>w3.
               mapr (Pair (taken prev p)) (displayList shw l w3)))))
       else (case ps of
           [] \<Rightarrow> Inr (no_value prev, w)
         | p # rest \<Rightarrow>
             if \<not> remove then Inr (taken prev p, w)
             else bindr (stopListening l (pmachine p) (remove_dependant l (pmachine p) w)) (\<lambda>w1.
               let w2 = set_parameters l rest w1 in
               if mtype (objects w2 l) = ''LIST''
               then bindr (check_machine l w2) (\<lambda>w3. mapr (Pair (taken prev p)) (displayList shw l w3))
               else Inr (taken prev p, w2))))"

definition item_index :: "world \<Rightarrow> cw_value \<Rightarrow> int option res" where
  "item_index w index =
     (if kind index = t_integer then mapr Some (read_field (iValue index))
      else mapr (\<lambda>(ok, i). if ok then Some i else None)
             (asInteger (if kind index = t_symbol then getValue w (owner w) (sValue index) else index) (- 1)))"

definition ItemAtPosValue ::
  "(cw_value \<Rightarrow> string) \<Rightarrow> world \<Rightarrow> cw_value \<Rightarrow> string \<Rightarrow> cw_value \<Rightarrow> bool \<Rightarrow> ((cw_value \<times> nat option) \<times> world) res" where
  "ItemAtPosValue shw w prev list_name index remove = (case named w list_name of
     None \<Rightarrow> Inr (no_value prev, w)
   | Some l \<Rightarrow>
       let ps = parameters (objects w l) in
       if ps = [] then Inr (no_value prev, w)
       else bindr (item_index w index) (\<lambda>idx. case idx of
           None \<Rightarrow> Inr (no_value prev, w)
         | Some i \<Rightarrow>
             if i < 0 \<or> int (length ps) \<le> i then Inr (no_value prev, w)
             else let q = lookup_param w (ps ! nat i); r = (value_assign prev (pval q), pcached q); qs = ps[nat i := q] in
               if \<not> remove then Inr (r, set_parameters l qs w)
               else let w1 = set_parameters l (take (nat i) qs @ drop (Suc (nat i)) qs) w in
                 if mtype (objects w1 l) = ''LIST''
                 then bindr (check_machine l w1) (\<lambda>w2. mapr (Pair r) (displayList shw l w2))
                 else Inr (r, w1)))"

section \<open>Actions on one list\<close>

type_synonym run_result = "status \<times> bool \<times> world"

fun clear_items :: "nat \<Rightarrow> param list \<Rightarrow> world \<Rightarrow> world res" where
  "clear_items l [] w = Inr w"
| "clear_items l (p # ps) w =
     bindr (case pmachine p of
         None \<Rightarrow> Inr w
       | Some m \<Rightarrow> mapr (remove_dependant m (Some l)) (stopListening l (Some m) w)) (clear_items l ps)"

text \<open>\<open>CLEAR MESSAGES\<close> clears the log, which is not modelled.\<close>

definition ClearListAction_run :: "string \<Rightarrow> world \<Rightarrow> run_result res" where
  "ClearListAction_run dest w =
     (if dest = ''MESSAGES'' then Inr (Complete, True, w)
      else case named w dest of
        None \<Rightarrow> Inr (Failed, True, w)
      | Some l \<Rightarrow>
          if mtype (objects w l) = ''LIST''
          then bindr (clear_items l (parameters (objects w l)) w) (\<lambda>w1.
               mapr (\<lambda>w2. (Complete, True, w2)) (check_machine l (set_parameters l [] w1)))
          else if mtype (objects w l) = ''REFERENCE'' then mapr (\<lambda>w1. (Complete, True, w1)) (removeLocal l 0 w)
          else Inr (Failed, True, w))"

text \<open>
  \<open>PopBackAction\<close> reads the item behind the last one, which is out of range whenever there is
  an item.
\<close>

definition PopBackAction_run :: "string \<Rightarrow> nat option \<Rightarrow> world \<Rightarrow> run_result res" where
  "PopBackAction_run list_name found w = (case (if found = None then named w list_name else found) of
     None \<Rightarrow> Inr (Failed, True, w)
   | Some l \<Rightarrow>
       if mtype (objects w l) \<noteq> ''LIST'' then Inr (Failed, True, w)
       else if parameters (objects w l) = [] then Inr (Failed, True, w)
       else Inl OutOfRange)"

text \<open>\<open>SetListEntriesAction\<close>: the last item takes the lowest bit.\<close>

fun set_entries :: "param list \<Rightarrow> int \<Rightarrow> world \<Rightarrow> world" where
  "set_entries [] bitmap w = w"
| "set_entries (p # ps) bitmap w = set_entries ps (bitmap div 2)
     (case pmachine p of None \<Rightarrow> w | Some m \<Rightarrow> set_state m (if bitmap mod 2 = 1 then ''on'' else ''off'') w)"

definition setListEntries :: "nat \<Rightarrow> int \<Rightarrow> world \<Rightarrow> world" where
  "setListEntries l bitmap w = set_entries (rev (parameters (objects w l))) bitmap w"

text \<open>The conversion of a \<open>double\<close> outside the range of \<open>unsigned long\<close> is undefined.\<close>

definition ulong_of_dbl :: "double \<Rightarrow> int res" where
  "ulong_of_dbl x = (case x of
     Fin s m e \<Rightarrow> (let i = trunc_fin s m e in if 0 \<le> i \<and> i < 18446744073709551616 then Inr i else Inl ConversionRange)
   | _ \<Rightarrow> Inl ConversionRange)"

definition SetListEntriesAction_run :: "cw_value \<Rightarrow> string \<Rightarrow> world \<Rightarrow> run_result res" where
  "SetListEntriesAction_run source dest w = (case named w dest of
     None \<Rightarrow> Inr (Failed, True, w)
   | Some l \<Rightarrow>
       if mtype (objects w l) \<noteq> ''LIST'' then Inr (Failed, True, w)
       else mapr (\<lambda>w1. (Complete, True, w1)) (case kind source of
           t_integer \<Rightarrow> mapr (\<lambda>i. setListEntries l (to_u64 i) w) (read_field (iValue source))
         | t_float \<Rightarrow> bindr (read_field (fValue source)) (\<lambda>x. mapr (\<lambda>i. setListEntries l i w) (ulong_of_dbl x))
         | t_symbol \<Rightarrow> mapr (\<lambda>(ok, i). if ok then setListEntries l (to_u64 i) w else w)
                         (asInteger (getValue w (owner w) (sValue source)) 0)
         | _ \<Rightarrow> Inr w))"


section \<open>Sorting\<close>

definition StringValueSorter :: "bool \<Rightarrow> param \<Rightarrow> param \<Rightarrow> bool res" where
  "StringValueSorter asc a b = bindr (asString (pval a)) (\<lambda>x. bindr (asString (pval b)) (\<lambda>y.
     Inr (if asc then x < y else y < x)))"

definition NumericValueSorter :: "bool \<Rightarrow> param \<Rightarrow> param \<Rightarrow> bool res" where
  "NumericValueSorter asc a b =
     (if kind (pval a) \<noteq> t_integer \<or> kind (pval b) \<noteq> t_integer then Inr True
      else bindr (asInteger (pval a) 0) (\<lambda>(ok_a, x).
        if \<not> ok_a then Inr True
        else bindr (asInteger (pval b) 0) (\<lambda>(ok_b, y).
          if \<not> ok_b then Inr True else Inr (if asc then x < y else y < x))))"

definition PropertyValueStringSorter :: "world \<Rightarrow> string \<Rightarrow> bool \<Rightarrow> param \<Rightarrow> param \<Rightarrow> bool res" where
  "PropertyValueStringSorter w prop asc a b = (case pmachine a of
     None \<Rightarrow> Inr True
   | Some m \<Rightarrow> (case pmachine b of
       None \<Rightarrow> Inr False
     | Some n \<Rightarrow> if asc then value_lt (getValue w m prop) (getValue w n prop)
                 else value_lt (getValue w n prop) (getValue w m prop)))"

definition PropertyValueNumericSorter :: "world \<Rightarrow> string \<Rightarrow> bool \<Rightarrow> param \<Rightarrow> param \<Rightarrow> bool res" where
  "PropertyValueNumericSorter w prop asc a b = (case pmachine a of
     None \<Rightarrow> Inr True
   | Some m \<Rightarrow> (case pmachine b of
       None \<Rightarrow> Inr False
     | Some n \<Rightarrow> bindr (asInteger (getValue w m prop) 0) (\<lambda>(ok_a, x).
         if \<not> ok_a then Inr True
         else bindr (asInteger (getValue w n prop) 0) (\<lambda>(ok_b, y).
           if \<not> ok_b then Inr False else Inr (if asc then x < y else y < x)))))"

fun all_integers :: "world \<Rightarrow> string \<Rightarrow> param list \<Rightarrow> bool res" where
  "all_integers w prop [] = Inr True"
| "all_integers w prop (p # ps) = (case pmachine p of
     None \<Rightarrow> all_integers w prop ps
   | Some m \<Rightarrow> bindr (asInteger (getValue w m prop) 0) (\<lambda>(ok, x). if ok then all_integers w prop ps else Inr False))"

definition sort_order :: "world \<Rightarrow> string \<Rightarrow> bool \<Rightarrow> param list \<Rightarrow> (param \<Rightarrow> param \<Rightarrow> bool res) res" where
  "sort_order w prop asc ps =
     (if kind (pval (hd ps)) = t_symbol
      then mapr (\<lambda>ints. if ints then PropertyValueNumericSorter w prop asc else PropertyValueStringSorter w prop asc)
             (all_integers w prop ps)
      else Inr (if \<forall>p\<in>set ps. kind (pval p) = t_integer then NumericValueSorter asc else StringValueSorter asc))"

text \<open>
  \<open>std::sort\<close>: the comparison must be a strict weak order on the items; then the result is any
  permutation in which no item is less than one before it. Without two items nothing is compared.
\<close>

definition strict_weak :: "('a \<Rightarrow> 'a \<Rightarrow> bool) \<Rightarrow> 'a set \<Rightarrow> bool" where
  "strict_weak lt A \<longleftrightarrow> (\<forall>x\<in>A. \<not> lt x x) \<and>
     (\<forall>x\<in>A. \<forall>y\<in>A. \<forall>z\<in>A. (lt x y \<longrightarrow> lt y z \<longrightarrow> lt x z) \<and>
        (\<not> lt x y \<longrightarrow> \<not> lt y z \<longrightarrow> \<not> lt x z))"

definition comparable :: "('a \<Rightarrow> 'a \<Rightarrow> bool res) \<Rightarrow> 'a set \<Rightarrow> bool" where
  "comparable lt A \<longleftrightarrow> (\<forall>x\<in>A. \<forall>y\<in>A. defined (lt x y)) \<and> strict_weak (\<lambda>x y. lt x y = Inr True) A"

definition std_sort :: "('a \<Rightarrow> 'a \<Rightarrow> bool res) \<Rightarrow> 'a list \<Rightarrow> 'a list res \<Rightarrow> bool" where
  "std_sort lt xs r \<longleftrightarrow>
     (if length xs \<le> 1 then r = Inr xs
      else if comparable lt (set xs)
      then (\<exists>ys. r = Inr ys \<and> mset ys = mset xs \<and> sorted_wrt (\<lambda>x y. lt y x \<noteq> Inr True) ys)
      else r = Inl OutOfRange)"

text \<open>The results that a run of the action may have.\<close>

definition SortListAction_run :: "string \<Rightarrow> string \<Rightarrow> bool \<Rightarrow> world \<Rightarrow> run_result res \<Rightarrow> bool" where
  "SortListAction_run list_name prop asc w r \<longleftrightarrow> (case named w list_name of
     None \<Rightarrow> r = Inr (Failed, True, w)
   | Some l \<Rightarrow>
       if mtype (objects w l) \<noteq> ''LIST'' then r = Inr (Failed, True, w)
       else if parameters (objects w l) = [] then r = Inr (Complete, True, w)
       else (case sort_order w prop asc (parameters (objects w l)) of
           Inl e \<Rightarrow> r = Inl e
         | Inr lt \<Rightarrow> (\<exists>ys. std_sort lt (parameters (objects w l)) ys \<and>
                           r = mapr (\<lambda>qs. (Complete, True, set_parameters l qs w)) ys)))"

section \<open>Set operations\<close>

text \<open>
  A comparison with the null value throws an exception that the action catches (\<open>None\<close>); a symbol
  that names no machine throws a pointer, which nothing catches.
\<close>

definition CompareValues :: "cw_value \<Rightarrow> cw_value \<Rightarrow> bool option res" where
  "CompareValues a b = bindr (value_eq a Value_empty) (\<lambda>x. if x then Inr None
     else bindr (value_eq b Value_empty) (\<lambda>y. if y then Inr None else mapr Some (value_eq a b)))"

definition CompareSymbolAndValue :: "world \<Rightarrow> cw_value \<Rightarrow> nat option \<Rightarrow> string \<Rightarrow> cw_value \<Rightarrow> bool option res" where
  "CompareSymbolAndValue w symb cached prop b = (case lookup_value w symb cached of
     None \<Rightarrow> Inl Aborted
   | Some m \<Rightarrow> CompareValues (getValue w m prop) b)"

fun includes_value :: "param list \<Rightarrow> cw_value \<Rightarrow> bool res" where
  "includes_value [] v = Inr False"
| "includes_value (p # ps) v = bindr (value_eq (pval p) v) (\<lambda>b. if b then Inr True else includes_value ps v)"

definition MachineIncludesParameter :: "world \<Rightarrow> nat \<Rightarrow> cw_value \<Rightarrow> bool res" where
  "MachineIncludesParameter w l v = includes_value (parameters (objects w l)) v"

definition symbol_and_value :: "cw_value \<Rightarrow> cw_value \<Rightarrow> bool" where
  "symbol_and_value a b \<longleftrightarrow> kind a = t_symbol \<and> (kind b = t_string \<or> kind b = t_integer)"

text \<open>The search of \<open>DifferenceSetOperation\<close> for an item in the second list.\<close>

fun difference_find :: "world \<Rightarrow> string \<Rightarrow> cw_value \<Rightarrow> nat option \<Rightarrow> param list \<Rightarrow> (bool option \<times> param list) res" where
  "difference_find w prop a ac [] = Inr (Some False, [])"
| "difference_find w prop a ac (q # qs) =
     (let b = pval q;
          q' = (if symbol_and_value b a \<and> \<not> symbol_and_value a b then q\<lparr>pcached := lookup_value w b (pcached q)\<rparr> else q)
      in bindr (if symbol_and_value a b then CompareSymbolAndValue w a ac prop b
                else if symbol_and_value b a then CompareSymbolAndValue w b (pcached q) prop a
                else mapr Some (value_eq a b)) (\<lambda>r.
         if r = Some False then mapr (\<lambda>(x, rs). (x, q' # rs)) (difference_find w prop a ac qs)
         else Inr (r, q' # qs)))"

fun difference_loop :: "nat \<Rightarrow> string \<Rightarrow> nat \<Rightarrow> nat option \<Rightarrow> nat \<Rightarrow> nat \<Rightarrow> world \<Rightarrow> (bool \<times> world) res option" where
  "difference_loop 0 prop la lb d i w = None"
| "difference_loop (Suc n) prop la lb d i w =
     (if length (parameters (objects w la)) \<le> i then Some (Inr (True, w))
      else case lb of
        None \<Rightarrow> Some (Inl NullPointer)
      | Some b \<Rightarrow>
          let p = parameters (objects w la) ! i in
          bindo (Some (difference_find w prop (pval p) (pcached p) (parameters (objects w b)))) (\<lambda>(r, qs).
          let w1 = set_parameters b qs w in
          case r of
            None \<Rightarrow> Some (Inr (False, w1))
          | Some found \<Rightarrow>
              bindo (Some (if found then Inr w1 else append_value d (pval p) (pcached p) w1)) (\<lambda>w2.
              difference_loop n prop la lb d (Suc i) w2)))"


definition report_list :: "(cw_value \<Rightarrow> string) \<Rightarrow> nat \<Rightarrow> world \<Rightarrow> (status \<times> world) res" where
  "report_list shw d w = mapr (Pair Complete) (displayList shw d w)"

text \<open>
  The result of an operation: the flag is false when it threw the exception that the action
  catches; \<open>None\<close> when the bound on the number of iterations is reached.
\<close>

definition DifferenceSetOperation ::
  "(cw_value \<Rightarrow> string) \<Rightarrow> nat \<Rightarrow> string \<Rightarrow> nat option \<Rightarrow> nat option \<Rightarrow> nat \<Rightarrow> world \<Rightarrow> (bool \<times> status \<times> world) res option" where
  "DifferenceSetOperation shw n prop la lb d w = (case la of
     None \<Rightarrow> Some (Inl NullPointer)
   | Some a \<Rightarrow> bindo (difference_loop n prop a lb d 0 w) (\<lambda>(ok, w1).
       if \<not> ok then Some (Inr (False, Failed, w1))
       else Some (mapr (\<lambda>r. (True, r)) (report_list shw d w1))))"

text \<open>
  \<open>UnionSetOperation\<close> leaves out a list that is the destination. For a symbol the value that is
  sought in the destination is a property of the machine, named like the symbol.
\<close>

fun union_items :: "nat \<Rightarrow> nat \<Rightarrow> nat list \<Rightarrow> world \<Rightarrow> world res" where
  "union_items l d [] w = Inr w"
| "union_items l d (i # is) w =
     (let p = parameters (objects w l) ! i; a = pval p; m = lookup_value w a (pcached p) in
      if kind a = t_symbol
      then (case m of
          None \<Rightarrow> Inl Aborted
        | Some j \<Rightarrow>
            let w1 = set_parameters l ((parameters (objects w l))[i := p\<lparr>pcached := m\<rparr>]) w in
            bindr (MachineIncludesParameter w1 d (getValue w1 j (sValue a))) (\<lambda>b.
            bindr (if b then Inr w1 else append_value d a m w1) (union_items l d is)))
      else bindr (MachineIncludesParameter w d a) (\<lambda>b.
           bindr (if b then Inr w else append_value d a (pcached p) w) (union_items l d is)))"

definition union_list :: "nat option \<Rightarrow> nat \<Rightarrow> world \<Rightarrow> world res" where
  "union_list l d w =
     (if l = Some d then Inr w
      else case l of
        None \<Rightarrow> Inl NullPointer
      | Some a \<Rightarrow> union_items a d [0..<length (parameters (objects w a))] w)"

text \<open>\<open>debugParameterChange\<close> shows the list in a buffer of 600 bytes.\<close>

fun buffer_items :: "string \<Rightarrow> string \<Rightarrow> param list \<Rightarrow> string res" where
  "buffer_items buf delim [] = Inr buf"
| "buffer_items buf delim (p # ps) =
     (if length buf \<ge> 598 then Inr buf
      else bindr (asString (pval p)) (\<lambda>s.
        if length buf + length delim + length s \<ge> 598 then Inr (take 598 (buf @ replicate 598 (CHR 0x00)))
        else buffer_items (buf @ delim @ s) '','' ps))"

text \<open>When an item does not fit, the bytes up to the closing bracket are what the buffer held: the text ends at the first null byte.\<close>

definition debugParameterChange :: "nat \<Rightarrow> world \<Rightarrow> world res" where
  "debugParameterChange d w = mapr (\<lambda>s. issue (SetValue d ''DEBUG'' (set_sValue (c_str (s @ '']'')) (Value_kind t_string))) w)
     (buffer_items ''['' [] (parameters (objects w d)))"

definition UnionSetOperation :: "nat option \<Rightarrow> nat option \<Rightarrow> nat \<Rightarrow> world \<Rightarrow> (bool \<times> status \<times> world) res" where
  "UnionSetOperation la lb d w = bindr (union_list la d w) (\<lambda>w1. bindr (union_list lb d w1) (\<lambda>w2.
     mapr (\<lambda>w3. (True, Complete, w3)) (debugParameterChange d w2)))"


text \<open>The local \<open>ITEM\<close> of a list, which the condition of a selection refers to.\<close>

definition ITEM :: "world \<Rightarrow> cw_value" where
  "ITEM w = set_token_id (item_token w) (set_sValue ''ITEM'' (Value_kind t_symbol))"

fun find_item :: "param list \<Rightarrow> (nat \<times> bool) res" where
  "find_item [] = Inr (0, False)"
| "find_item (p # ps) = bindr (asString (pval p)) (\<lambda>s.
     if s = ''ITEM'' then Inr (0, True) else mapr (\<lambda>(i, k). (Suc i, k)) (find_item ps))"

definition erase_item :: "nat \<Rightarrow> nat \<Rightarrow> bool \<Rightarrow> bool \<Rightarrow> world \<Rightarrow> world" where
  "erase_item l idx keep add w =
     (let ls = mlocals (objects w l)
      in if \<not> add \<and> \<not> keep \<and> ls \<noteq> [] then set_locals l (take idx ls @ drop (Suc idx) ls) w else w)"

definition select_position :: "world \<Rightarrow> cw_value \<Rightarrow> int res" where
  "select_position w v = mapr (\<lambda>(ok, i). if ok then i else - 1)
     (asInteger (if kind v = t_symbol \<or> kind v = t_string then own w (sValue v) else v) 0)"

definition select_count :: "world \<Rightarrow> cw_value \<Rightarrow> nat \<Rightarrow> int res" where
  "select_count w num sz =
     (if kind num = t_symbol
      then let v = getValue w (owner w) (sValue num) in
        bindr (value_eq v Value_empty) (\<lambda>null.
        if null then Inr (int sz) else mapr (\<lambda>(ok, i). if ok then i else int sz) (asInteger v 0))
      else bindr (if kind num = t_integer then value_lt num (Value_long 0) else Inr False) (\<lambda>neg.
        if neg then Inr (int sz) else mapr (\<lambda>(ok, i). if ok then i else int sz) (asInteger num 0)))"

text \<open>What the selection does with a matching machine.\<close>

definition select_machine :: "nat \<Rightarrow> cw_value \<Rightarrow> nat \<Rightarrow> world \<Rightarrow> (nat \<times> world) res" where
  "select_machine d a m w =
     (if mtype (objects w d) = ''LIST''
      then bindr (MachineIncludesParameter w d a) (\<lambda>b. mapr (Pair 1) (if b then Inr w else append_value d a (Some m) w))
      else if mtype (objects w d) = ''REFERENCE''
      then bindr (if mlocals (objects w d) \<noteq> [] then removeLocal d 0 w else Inr w) (\<lambda>w1.
           mapr (Pair 1) (addLocal d (ITEM w1) None (Some m) w1))
      else Inr (0, w))"

fun select_loop ::
  "nat \<Rightarrow> (world \<Rightarrow> bool res) option \<Rightarrow> bool \<Rightarrow> int \<Rightarrow> nat \<Rightarrow> nat \<Rightarrow> nat \<Rightarrow> nat \<Rightarrow> bool \<Rightarrow> nat \<Rightarrow> world \<Rightarrow>
   (bool \<times> world) res option" where
  "select_loop 0 cond remove to_copy la d idx copied add i w = None"
| "select_loop (Suc n) cond remove to_copy la d idx copied add i w =
     (if length (parameters (objects w la)) \<le> i then Some (Inr (add, w))
      else bindo (Some (debugParameterChange d w)) (\<lambda>w1.
        let p = parameters (objects w1 la) ! i; a = pval p in
        if kind a = t_symbol
        then let m = lookup_value w1 a (pcached p);
                 item = \<lparr>pval = value_assign a (ITEM w1), pcached = None, pmachine = m, real_name = sValue a\<rparr>;
                 ls = mlocals (objects w1 la);
                 w2 = set_locals la (if add then ls @ [item] else ls[idx := item]) w1
             in case m of
               None \<Rightarrow> Some (Inl Aborted)
             | Some j \<Rightarrow>
                 bindo (Some (case cond of None \<Rightarrow> Inr True | Some c \<Rightarrow> c w2)) (\<lambda>chosen.
                 if \<not> chosen then select_loop n cond remove to_copy la d idx copied False (Suc i) w2
                 else bindo (Some (select_machine d a j w2)) (\<lambda>(k, w3).
                   bindo (Some (if remove then removeParameter la (int i) w3 else Inr w3)) (\<lambda>w4.
                   if to_copy \<le> int (copied + k) then Some (Inr (False, w4))
                   else select_loop n cond remove to_copy la d idx (copied + k) False (if remove then i else Suc i) w4)))
        else bindo (Some (MachineIncludesParameter w1 d a)) (\<lambda>b.
             bindo (Some (if b then Inr w1 else append_value d a (pcached p) w1)) (\<lambda>w2.
             select_loop n cond remove to_copy la d idx copied add (Suc i) w2))))"

text \<open>The operation also returns the number to copy that it leaves in the action.\<close>

definition SelectSetOperation ::
  "(cw_value \<Rightarrow> string) \<Rightarrow> nat \<Rightarrow> (world \<Rightarrow> bool res) option \<Rightarrow> bool \<Rightarrow> cw_value \<Rightarrow> cw_value \<Rightarrow> cw_value \<Rightarrow>
   nat option \<Rightarrow> nat \<Rightarrow> world \<Rightarrow> (status \<times> cw_value \<times> world) res option" where
  "SelectSetOperation shw n cond remove num start_pos end_pos la d w = (case la of
     None \<Rightarrow> Some (Inr (Failed, num, w))
   | Some a \<Rightarrow>
       bindo (Some (select_position w start_pos)) (\<lambda>sp0.
       let sp = (if sp0 = - 1 then 0 else sp0) in
       bindo (Some (select_position w end_pos)) (\<lambda>ep.
       bindo (Some (if kind num = t_integer \<and> ep \<noteq> - 1
                    then bindr (value_eq num (Value_long (- 1))) (\<lambda>all.
                         if all then bindr (chk_long (ep - sp)) (\<lambda>x. mapr (\<lambda>y. value_assign num (Value_long y)) (chk_long (x + 1)))
                         else Inr num)
                    else Inr num)) (\<lambda>num'.
       bindo (Some (select_count w num' (length (parameters (objects w a))))) (\<lambda>to_copy.
       bindo (Some (find_item (mlocals (objects w a)))) (\<lambda>(idx, keep).
       bindo (select_loop n cond remove to_copy a d idx 0 (\<not> keep) (nat (sp mod 4294967296)) w) (\<lambda>(add, w1).
       Some (mapr (\<lambda>(st, w2). (st, num', w2)) (report_list shw d (erase_item a idx keep add w1)))))))))) "


text \<open>\<open>IntersectSetOperation\<close>: references into a list are taken to stay valid when it grows.\<close>

record isect =
  ic_cond :: "(world \<Rightarrow> bool res) option"
  ic_remove :: bool
  ic_to_copy :: int
  ic_prop :: string
  ic_a :: nat
  ic_b :: nat
  ic_dest :: nat
  ic_idx_a :: nat
  ic_idx_b :: nat

datatype isect_step = Next_Item | Skip_Increment | Done_All | Thrown

definition setListItem :: "nat \<Rightarrow> cw_value \<Rightarrow> nat option \<Rightarrow> nat \<Rightarrow> bool \<Rightarrow> world \<Rightarrow> world" where
  "setListItem l v cached idx add w =
     (let ls = (if add then mlocals (objects w l) @ [Parameter_of v cached] else mlocals (objects w l));
          p = ls ! idx
      in set_locals l (ls[idx := p\<lparr>pval := value_assign (pval p) (ITEM w), pcached := None, real_name := sValue v,
           pmachine := cached\<rparr>]) w)"

text \<open>The comparison of two items without a condition: whether the first is copied, and whether the search then ends.\<close>

definition isect_compare :: "isect \<Rightarrow> world \<Rightarrow> param \<Rightarrow> param \<Rightarrow> (bool \<times> bool) option res" where
  "isect_compare c w p q =
     (let a = pval p; b = pval q in
      if symbol_and_value a b then mapr (map_option (\<lambda>r. (r, True))) (CompareSymbolAndValue w a (pcached p) (ic_prop c) b)
      else if symbol_and_value b a then mapr (map_option (\<lambda>r. (r, True))) (CompareSymbolAndValue w b (pcached q) (ic_prop c) a)
      else if ic_prop c \<noteq> []
      then let x = getValue w (the (pcached p)) (ic_prop c); y = getValue w (the (pcached q)) (ic_prop c) in
        bindr (value_ne x Value_empty) (\<lambda>some. if \<not> some then Inr (Some (False, False))
        else mapr (\<lambda>r. Some (r, False)) (value_eq x y))
      else mapr (\<lambda>r. Some (r, False)) (value_eq a b))"

definition isect_copy :: "isect \<Rightarrow> param \<Rightarrow> world \<Rightarrow> world res" where
  "isect_copy c p w = addParameter_value (ic_dest c) (pval p) (pcached p) (pcached p) (- 1) False w"

text \<open>With a condition: the new count, whether it matched, and the new state.\<close>

definition isect_match :: "isect \<Rightarrow> (world \<Rightarrow> bool res) \<Rightarrow> nat \<Rightarrow> int \<Rightarrow> world \<Rightarrow> (int \<times> bool \<times> world) res" where
  "isect_match c test i copied w =
     (let p = parameters (objects w (ic_a c)) ! i in
      bindr (test w) (\<lambda>matched.
      if \<not> matched then Inr (copied, False, w)
      else bindr (MachineIncludesParameter w (ic_dest c) (pval p)) (\<lambda>there.
        bindr (if there then Inr (copied, w) else mapr (Pair (copied + 1)) (isect_copy c p w)) (\<lambda>(k, w1).
        mapr (\<lambda>w2. (k, True, w2)) (if ic_remove c then removeParameter (ic_a c) (int i) w1 else Inr w1)))))"

fun isect_inner :: "nat \<Rightarrow> isect \<Rightarrow> nat \<Rightarrow> nat \<Rightarrow> int \<Rightarrow> bool \<Rightarrow> world \<Rightarrow> (isect_step \<times> int \<times> bool \<times> world) res option" where
  "isect_inner 0 c i j copied add w = None"
| "isect_inner (Suc n) c i j copied add w =
     (let qs = parameters (objects w (ic_b c)) in
      if length qs \<le> j then Some (Inr (Next_Item, copied, add, w))
      else let q = (qs ! j)\<lparr>pcached := lookup_value w (pval (qs ! j)) (pcached (qs ! j))\<rparr>;
               w1 = set_parameters (ic_b c) (qs[j := q]) w
        in if pcached q = None then isect_inner n c i (Suc j) copied add w1
           else let w2 = setListItem (ic_b c) (pval q) (pcached q) (ic_idx_b c) add w1;
                    p = parameters (objects w2 (ic_a c)) ! i
             in (case ic_cond c of
                 Some test \<Rightarrow>
                   bindo (Some (isect_match c test i copied w2)) (\<lambda>(k, matched, w3).
                   if ic_to_copy c \<le> k then Some (Inr (Done_All, k, False, w3))
                   else if matched \<and> ic_remove c then Some (Inr (Skip_Increment, k, False, w3))
                   else if matched then Some (Inr (Next_Item, k, False, w3))
                   else isect_inner n c i (Suc j) k False w3)
               | None \<Rightarrow>
                   bindo (Some (isect_compare c w2 p q)) (\<lambda>r. case r of
                     None \<Rightarrow> Some (Inr (Thrown, copied, False, w2))
                   | Some (same, leave) \<Rightarrow>
                       bindo (Some (if \<not> same then Inr w2
                                    else if ic_prop c = [] \<and> \<not> leave then append_value (ic_dest c) (pval p) (pcached p) w2
                                    else isect_copy c p w2)) (\<lambda>w3.
                       if same \<and> leave then Some (Inr (Next_Item, copied, False, w3))
                       else isect_inner n c i (Suc j) copied False w3))))"

fun isect_outer :: "nat \<Rightarrow> isect \<Rightarrow> nat \<Rightarrow> int \<Rightarrow> bool \<Rightarrow> bool \<Rightarrow> world \<Rightarrow> (bool \<times> bool \<times> bool \<times> world) res option" where
  "isect_outer 0 c i copied adda addb w = None"
| "isect_outer (Suc n) c i copied adda addb w =
     (let ps = parameters (objects w (ic_a c)) in
      if length ps \<le> i then Some (Inr (True, adda, addb, w))
      else let p = (ps ! i)\<lparr>pcached := lookup_value w (pval (ps ! i)) (pcached (ps ! i))\<rparr>;
               w1 = set_parameters (ic_a c) (ps[i := p]) w
        in if pcached p = None then isect_outer n c (Suc i) copied adda addb w1
           else bindo (isect_inner n c i 0 copied addb (setListItem (ic_a c) (pval p) (pcached p) (ic_idx_a c) adda w1))
             (\<lambda>(r, k, addb', w2). case r of
                Done_All \<Rightarrow> Some (Inr (True, False, addb', w2))
              | Thrown \<Rightarrow> Some (Inr (False, False, addb', w2))
              | Next_Item \<Rightarrow> isect_outer n c (Suc i) k False addb' w2
              | Skip_Increment \<Rightarrow> isect_outer n c i k False addb' w2))"

definition IntersectSetOperation ::
  "nat \<Rightarrow> (world \<Rightarrow> bool res) option \<Rightarrow> bool \<Rightarrow> cw_value \<Rightarrow> string \<Rightarrow> nat option \<Rightarrow> nat option \<Rightarrow> nat \<Rightarrow> world \<Rightarrow>
   (bool \<times> status \<times> world) res option" where
  "IntersectSetOperation n cond remove num prop la lb d w = (case la of
     None \<Rightarrow> Some (Inr (True, Failed, w))
   | Some a \<Rightarrow>
       bindo (Some (value_eq num (Value_long (- 1)))) (\<lambda>all.
       bindo (Some (if all then Inr (int (length (parameters (objects w a))))
                    else mapr (\<lambda>(ok, i). if ok then i else int (length (parameters (objects w a)))) (asInteger num 0))) (\<lambda>to_copy.
       bindo (Some (find_item (mlocals (objects w a)))) (\<lambda>(ia, keep_a).
       case lb of
         None \<Rightarrow> Some (Inl NullPointer)
       | Some b \<Rightarrow>
           bindo (Some (find_item (mlocals (objects w b)))) (\<lambda>(ib, keep_b).
           bindo (isect_outer n \<lparr>ic_cond = cond, ic_remove = remove, ic_to_copy = to_copy, ic_prop = prop, ic_a = a, ic_b = b,
                                 ic_dest = d, ic_idx_a = ia, ic_idx_b = ib\<rparr> 0 0 (\<not> keep_a) (\<not> keep_b) w) (\<lambda>(ok, adda, addb, w1).
           if \<not> ok then Some (Inr (False, Failed, w1))
           else Some (mapr (\<lambda>w2. (True, Complete, w2))
                  (debugParameterChange d (erase_item b ib keep_b addb (erase_item a ia keep_a adda w1))))))))))"

text \<open>The action: the operation runs when the destination is a list or a reference.\<close>

definition SetOperationAction_run ::
  "string \<Rightarrow> string \<Rightarrow> string \<Rightarrow> (nat option \<Rightarrow> nat option \<Rightarrow> nat \<Rightarrow> world \<Rightarrow> (bool \<times> status \<times> world) res option) \<Rightarrow>
   world \<Rightarrow> run_result res option" where
  "SetOperationAction_run a b dest doOperation w = (case named w dest of
     None \<Rightarrow> Some (Inr (Failed, True, w))
   | Some d \<Rightarrow>
       if mtype (objects w d) = ''LIST'' \<or> mtype (objects w d) = ''REFERENCE''
       then bindo (doOperation (named w a) (named w b) d w) (\<lambda>(ok, st, w1).
            Some (Inr (if ok then st else Failed, True, w1)))
       else Some (Inr (Failed, True, w)))"


section \<open>Including items\<close>

text \<open>\<open>debugParameterChange\<close> of \<open>IncludeAction.cpp\<close> only sets the property \<open>DEBUG\<close>; its text is not modelled.\<close>

definition note_change :: "nat \<Rightarrow> world \<Rightarrow> world" where
  "note_change l w = issue (SetValue l ''DEBUG'' (Value_kind t_string)) w"

text \<open>
  Assigning a reference. The second argument of the continuation is the machine assigned; a
  property that holds a symbol which names no machine leads to a null pointer.
\<close>

definition assign_reference :: "nat \<Rightarrow> cw_value \<Rightarrow> nat option \<Rightarrow> world \<Rightarrow> run_result res" where
  "assign_reference l ent cached w =
     (let old = (case mlocals (objects w l) of [] \<Rightarrow> None | p # _ \<Rightarrow> pmachine p) in
      bindr (if old \<noteq> None then removeLocal l 0 w else Inr w) (\<lambda>w1.
      if kind ent \<noteq> t_symbol then Inr (Failed, True, w1)
      else
        let m = named w1 (sValue ent); ref = getValue w1 (owner w1) (sValue ent);
            via = (m = None \<and> kind ref = t_symbol); m' = (if via then named w1 (sValue ref) else m) in
        bindr (addLocal l (if via then ref else ent) (if via then m' else cached) m' w1) (\<lambda>w2.
        bindr (if m \<noteq> None \<or> via
               then (case m' of None \<Rightarrow> Inl NullPointer
                     | Some j \<Rightarrow> listenTo (owner w2) j (add_dependant j (Some (owner w2)) w2))
               else Inr w2) (\<lambda>w3.
        (case mlocals (objects w3 l) of
           [] \<Rightarrow> Inl Aborted
         | p # ps \<Rightarrow>
             let q = p\<lparr>real_name := (if via then sValue ref else sValue ent), pval := value_assign (pval p) (ITEM w3), pcached := pmachine p\<rparr>;
                 w4 = set_locals l (q # ps) w3;
                 st = (if pmachine q = None then Failed else Complete)
             in if old \<noteq> None \<and> m' \<noteq> None \<and> old \<noteq> m'
                then mapr (\<lambda>w5. (st, True, issue (NotifyDependents l) w5)) (check_machine l w4)
                else Inr (st, True, w4))))))"

text \<open>The position of an insertion: \<open>None\<close> when it is not a number, and then the action stays on the stack.\<close>

definition include_position :: "world \<Rightarrow> cw_value \<Rightarrow> int option res" where
  "include_position w position =
     (if kind position = t_string \<or> kind position = t_symbol
      then bindr (asString position) (\<lambda>s.
        let v = getValue w (owner w) s in
        bindr (value_eq v Value_empty) (\<lambda>null. if null then Inr None
        else mapr (\<lambda>(ok, i). if ok then Some i else None) (asInteger v (- 1))))
      else mapr (\<lambda>(ok, i). if ok then Some i else None) (asInteger position (- 1)))"

text \<open>The search for the item, as in the code over the whole list.\<close>

fun include_found :: "cw_value \<Rightarrow> param list \<Rightarrow> bool res" where
  "include_found v [] = Inr False"
| "include_found v (p # ps) =
     bindr (value_eq (pval p) v) (\<lambda>b.
     bindr (if b then Inr True else mapr (\<lambda>s. real_name p = s) (asString v)) (\<lambda>here.
     mapr (\<lambda>rest. here \<or> rest) (include_found v ps)))"

text \<open>\<open>INCLUDE\<close> with a list to expand adds its items one after the other; a list expanded into
  itself grows until there is no memory left.\<close>

fun expand_items :: "nat \<Rightarrow> nat \<Rightarrow> nat list \<Rightarrow> int \<Rightarrow> bool \<Rightarrow> world \<Rightarrow> world res" where
  "expand_items l m [] pos before w = Inr w"
| "expand_items l m (i # is) pos before w =
     (let p = parameters (objects w m) ! i in
      bindr (addParameter_value l (pval p) (pcached p) (pmachine p) (to_int32 pos) before w) (\<lambda>w1.
      bindr (if 0 \<le> pos then chk_long (pos + 1) else Inr pos) (\<lambda>pos'. expand_items l m is pos' before w1)))"

definition insert_entry :: "nat \<Rightarrow> cw_value \<Rightarrow> nat option \<Rightarrow> cw_value \<Rightarrow> int \<Rightarrow> bool \<Rightarrow> bool \<Rightarrow> world \<Rightarrow> world res" where
  "insert_entry l ent cached to_insert pos before expand w =
     (let pos' = to_int32 pos in
      if kind to_insert \<noteq> t_symbol then addParameter_value l to_insert None None pos' before w
      else (case (if kind ent = t_symbol then named w (sValue ent) else None) of
          None \<Rightarrow>
            let v = getValue w (owner w) (sValue ent) in
            if kind v = t_symbol
            then let m = named w (sValue v) in addParameter_value l v m m pos' before w
            else addParameter_value l v None None pos' before w
        | Some m \<Rightarrow>
            if mtype (objects w m) = ''LIST'' \<and> expand
            then if m = l \<and> parameters (objects w m) \<noteq> [] then Inl Aborted
                 else expand_items l m [0..<length (parameters (objects w m))] pos before w
            else addParameter_value l to_insert cached (Some m) pos' before w))"

definition IncludeAction_run :: "string \<Rightarrow> cw_value \<Rightarrow> nat option \<Rightarrow> cw_value \<Rightarrow> bool \<Rightarrow> bool \<Rightarrow> world \<Rightarrow> run_result res" where
  "IncludeAction_run list_name ent cached position before expand w = (case named w list_name of
     None \<Rightarrow> Inr (Failed, True, w)
   | Some l \<Rightarrow>
       if mtype (objects w l) = ''REFERENCE'' then assign_reference l ent cached w
       else
         let v = getValue w (owner w) (sValue ent) in
         bindr (if kind ent = t_symbol \<and> named w (sValue ent) = None
                then mapr (\<lambda>known. if known then value_assign ent v else ent) (value_ne v Value_empty)
                else Inr ent) (\<lambda>to_insert.
         bindr (include_position w position) (\<lambda>p. case p of
             None \<Rightarrow> Inr (Failed, False, w)
           | Some pos \<Rightarrow>
               bindr (if kind to_insert = t_symbol then include_found to_insert (parameters (objects w l)) else Inr False) (\<lambda>found.
               mapr (\<lambda>w1. (Complete, True, note_change l w1))
                 (if found then Inr w else insert_entry l ent cached to_insert pos before expand w)))))"


section \<open>Searching with a condition\<close>

text \<open>
  \<open>FindValue\<close>: the index of the first item that names a machine and fulfils the condition, which
  is evaluated with that machine as the local \<open>ITEM\<close> of the list. The flag says whether the
  local has still to be added.
\<close>

fun find_loop :: "(world \<Rightarrow> bool res) option \<Rightarrow> nat \<Rightarrow> nat \<Rightarrow> bool \<Rightarrow> nat list \<Rightarrow> world \<Rightarrow> (int \<times> world) res" where
  "find_loop cond l idx add [] w = Inr (- 1, w)"
| "find_loop cond l idx add (i # is) w =
     (let ps = parameters (objects w l); q = lookup_param w (ps ! i);
          m = (if pmachine (ps ! i) = None then (if kind (pval q) = t_symbol then pmachine q else None) else pmachine (ps ! i));
          w1 = set_parameters l (ps[i := q]) w
      in if m = None then find_loop cond l idx add is w1
         else let a = pval (ps ! i);
                  item = \<lparr>pval = value_assign a (ITEM w1), pcached = None, pmachine = m, real_name = sValue a\<rparr>;
                  ls = mlocals (objects w1 l);
                  w2 = set_locals l (if add then ls @ [item] else ls[idx := item]) w1
           in bindr (case cond of None \<Rightarrow> Inr True | Some c \<Rightarrow> c w2) (\<lambda>b.
              if b then Inr (int i, w2) else find_loop cond l idx False is w2))"

definition FindValue :: "(world \<Rightarrow> bool res) option \<Rightarrow> world \<Rightarrow> cw_value \<Rightarrow> string \<Rightarrow> (cw_value \<times> world) res" where
  "FindValue cond w prev list_name = (case named w list_name of
     None \<Rightarrow> Inr (value_assign prev (Value_long 0), w)
   | Some l \<Rightarrow>
       if parameters (objects w l) = [] then Inr (value_assign prev (Value_long (- 1)), w)
       else bindr (find_item (mlocals (objects w l))) (\<lambda>(idx, keep).
         mapr (\<lambda>(r, w1).
           let ls = mlocals (objects w1 l);
               w2 = (if \<not> keep \<and> idx < length ls then set_locals l (take idx ls @ drop (Suc idx) ls) w1 else w1)
           in (value_assign prev (Value_long r), w2))
           (find_loop cond l idx (\<not> keep) [0..<length (parameters (objects w l))] w)))"

end
