(* ===== verification/Cw_ListLinks.thy ===== *)
theory Cw_ListLinks
  imports Cw_ListOps
begin

text \<open>
  The connection of a list with the machines on it: a list and each machine on it listen to each
  other and depend on each other, so that a change of either leads to a check of the other.
  Adding and removing items keeps this; taking the last item does not.
\<close>

section \<open>Reference notions\<close>

definition known :: "world \<Rightarrow> nat \<Rightarrow> bool" where
  "known w i \<longleftrightarrow> i \<in> set (all_machines (graph w))"

definition item_links :: "world \<Rightarrow> nat \<Rightarrow> nat \<Rightarrow> bool" where
  "item_links w l m \<longleftrightarrow> m \<in> listens w l \<and> l \<in> listens w m \<and>
     m \<in> set (depends (graph w) l) \<and> l \<in> set (depends (graph w) m)"

definition item_machines :: "world \<Rightarrow> nat \<Rightarrow> nat list" where
  "item_machines w l = List.map_filter pmachine (parameters (objects w l))"

text \<open>No machine is on the list twice, the list is not on itself, and the list is linked to all of them.\<close>

definition connected :: "world \<Rightarrow> nat \<Rightarrow> bool" where
  "connected w l \<longleftrightarrow> linked (graph w) \<and> known w l \<and> distinct (item_machines w l) \<and>
     (\<forall>m\<in>set (item_machines w l). m \<noteq> l \<and> known w m \<and> item_links w l m)"

text \<open>The changes of a list: adding a machine that is not on it or a plain value, and removing an item.\<close>

inductive edit :: "nat \<Rightarrow> world \<Rightarrow> world \<Rightarrow> bool" for l where
  add_machine: "m \<noteq> l \<Longrightarrow> known w m \<Longrightarrow> m \<notin> set (item_machines w l) \<Longrightarrow> pmachine p = Some m \<Longrightarrow>
    addParameter l p (Some m) position before w = Inr w' \<Longrightarrow> edit l w w'"
| add_plain: "pmachine p = None \<Longrightarrow> addParameter l p None position before w = Inr w' \<Longrightarrow> edit l w w'"
| remove: "removeParameter l which w = Inr w' \<Longrightarrow> edit l w w'"

text \<open>The links that an operation gains and loses; \<open>frame\<close> keeps links and the items of all lists.\<close>

definition gains :: "nat \<Rightarrow> nat \<Rightarrow> world \<Rightarrow> world \<Rightarrow> bool" where
  "gains l m w w' \<longleftrightarrow> linked (graph w') \<and> all_machines (graph w') = all_machines (graph w) \<and>
     listens w' = (listens w)(l := insert m (listens w l), m := insert l (listens w m)) \<and>
     (\<forall>k. set (depends (graph w') k) = set (depends (graph w) k) \<union> (if k = l then {m} else if k = m then {l} else {}))"

definition loses :: "nat \<Rightarrow> nat \<Rightarrow> world \<Rightarrow> world \<Rightarrow> bool" where
  "loses l m w w' \<longleftrightarrow> linked (graph w') \<and> all_machines (graph w') = all_machines (graph w) \<and>
     listens w' = (listens w)(m := listens w m - {l}, l := listens w l - {m}) \<and>
     (\<forall>k d. k \<noteq> m \<longrightarrow> d \<noteq> m \<longrightarrow> d \<in> set (depends (graph w) k) \<longrightarrow> d \<in> set (depends (graph w') k))"

definition frame :: "world \<Rightarrow> world \<Rightarrow> bool" where
  "frame w w' \<longleftrightarrow> depends (graph w') = depends (graph w) \<and> all_machines (graph w') = all_machines (graph w) \<and>
     listens w' = listens w \<and> (\<forall>k. parameters (objects w' k) = parameters (objects w k)) \<and> named w' = named w"

definition lost :: "nat \<Rightarrow> nat option \<Rightarrow> world \<Rightarrow> world \<Rightarrow> bool" where
  "lost l mo w w' \<longleftrightarrow> (case mo of None \<Rightarrow> w' = w | Some m \<Rightarrow> loses l m w w')"

text \<open>A list with one and a list with two machines.\<close>

definition linked_world :: world where
  "linked_world = example_world\<lparr>
     objects := (objects example_world)(0 := example_object ''list'' ''LIST'' ''nonempty'' [example_item ''a'' (Some 1)]),
     listens := (\<lambda>i. if i = 0 then {1} else if i = 1 then {0} else {}),
     graph := example_net\<lparr>depends := (\<lambda>i. if i = 0 then [1] else if i = 1 then [0] else [])\<rparr>\<rparr>"

definition full_world :: world where
  "full_world = linked_world\<lparr>
     objects := (objects linked_world)(0 := example_object ''list'' ''LIST'' ''nonempty'' [example_item ''a'' (Some 1), example_item ''b'' (Some 2)]),
     listens := (\<lambda>i. if i = 0 then {1, 2} else {0}),
     graph := example_net\<lparr>depends := (\<lambda>i. if i = 0 then [1, 2] else [0])\<rparr>\<rparr>"

section \<open>Rules for the calls\<close>

lemma same_net_frame: "same_net s t \<Longrightarrow> depends t = depends s \<and> all_machines t = all_machines s"
  by (simp add: same_net_def)

lemma linked_cong: "depends t = depends s \<Longrightarrow> all_machines t = all_machines s \<Longrightarrow> linked t = linked s"
  by (simp add: linked_def)

lemma check_machine_rule:
  assumes "linked (graph w)" "known w i" "\<And>g. depends g = depends (graph w) \<Longrightarrow> all_machines g = all_machines (graph w) \<Longrightarrow> P (w\<lparr>graph := g\<rparr>)"
  shows "ok P (check_machine i w)"
proof -
  obtain g where "request_check i (graph w) = Inr g" "same_net (graph w) g"
    using request_check_returns [OF assms(1)] assms(2) unfolding known_def by blast
  then show ?thesis using assms(3) by (simp add: check_machine_def same_net_frame)
qed

lemma listenTo_rule:
  assumes "linked (graph w)" "known w i"
    "\<And>g. depends g = depends (graph w) \<Longrightarrow> all_machines g = all_machines (graph w) \<Longrightarrow>
       P (w\<lparr>listens := (listens w)(i := insert m (listens w i)), graph := g\<rparr>)"
  shows "ok P (listenTo i m w)"
proof (cases "m \<in> listens w i")
  case True
  then have "w\<lparr>listens := (listens w)(i := insert m (listens w i)), graph := graph w\<rparr> = w"
    by (simp add: insert_absorb)
  with assms(3) [of "graph w"] True show ?thesis by (simp add: listenTo_def)
next
  case False
  then show ?thesis using assms by (simp add: listenTo_def) (rule check_machine_rule; simp add: known_def)
qed

lemma stopListening_rule:
  assumes "linked (graph w)" "known w i"
    "\<And>g. depends g = depends (graph w) \<Longrightarrow> all_machines g = all_machines (graph w) \<Longrightarrow>
       P (w\<lparr>listens := (listens w)(i := listens w i - {m}), graph := g\<rparr>)"
  shows "ok P (stopListening i (Some m) w)"
  unfolding stopListening_def using assms by (intro check_machine_rule) (simp_all add: known_def)

lemma addDependancy_frame [simp]:
  "all_machines (addDependancy i m s) = all_machines s"
  by (simp add: addDependancy_def split: option.split)

lemma depends_addDependancy:
  "set (depends (addDependancy i (Some j) s) k) = (if k = i \<and> j \<noteq> i then insert j (set (depends s k)) else set (depends s k))"
  by (auto simp: addDependancy_def set_insort_key)

lemma removeDependancy_frame [simp]:
  "all_machines (removeDependancy i m s) = all_machines s"
  by (simp add: removeDependancy_def split: option.split)

lemma depends_removeDependancy:
  "k \<noteq> i \<Longrightarrow> depends (removeDependancy i (Some j) s) k = depends s k"
  "set (depends (removeDependancy i (Some j) s) i) \<subseteq> set (depends s i)"
  "d \<noteq> j \<Longrightarrow> d \<in> set (depends (removeDependancy i (Some j) s) i) \<longleftrightarrow> d \<in> set (depends s i)"
  by (auto simp: removeDependancy_def dest: notin_set_remove1 set_remove1_subset [THEN subsetD])

lemma linked_addDependancy: "linked s \<Longrightarrow> j \<in> set (all_machines s) \<Longrightarrow> linked (addDependancy i (Some j) s)"
  by (auto simp: linked_def depends_addDependancy split: if_splits)

lemma linked_removeDependancy: "linked s \<Longrightarrow> linked (removeDependancy i (Some j) s)"
  using depends_removeDependancy(1,2) unfolding linked_def by (metis removeDependancy_frame subset_trans)


section \<open>Adding and removing items\<close>

lemma named_update [simp]:
  "named (w\<lparr>graph := g\<rparr>) = named w" "named (w\<lparr>listens := k\<rparr>) = named w"
  "named (issue c w) = named w" "named (set_object i m w) = named w"
  by (simp_all add: named_def fun_eq_iff issue_def set_object_def)

lemma frame_refl: "frame w w"
  by (simp add: frame_def)

lemma set_state_frame: "frame w (set_state i s w)"
  by (simp add: frame_def set_state_def) (simp add: issue_def set_object_def)

lemma finish_rule:
  assumes "linked (graph w)" "known w l" "frame w w1" "\<And>w'. frame w w' \<Longrightarrow> P w'"
  shows "ok P (mapr (issue (NotifyDependents l)) (check_machine l w1))"
  using assms(1-3) unfolding ok_mapr
  by (intro check_machine_rule assms(4))
     (simp_all add: frame_def known_def linked_cong [of "graph w1" "graph w"], simp add: issue_def)

lemma link_rule:
  assumes "linked (graph w)" "known w l" "known w m" "m \<noteq> l"
    and P: "\<And>w'. gains l m w w' \<Longrightarrow> objects w' = objects w \<Longrightarrow> P w'"
  shows "ok P (bindr (listenTo l m (add_dependant l (Some m) w)) (\<lambda>w1. listenTo m l (add_dependant m (Some l) w1)))"
  unfolding ok_bindr
proof (rule listenTo_rule)
  show lk: "linked (graph (add_dependant l (Some m) w))" "known (add_dependant l (Some m) w) l"
    using assms(1-3) by (simp_all add: add_dependant_def linked_addDependancy known_def)
  fix g :: net assume g: "depends g = depends (graph (add_dependant l (Some m) w))"
    "all_machines g = all_machines (graph (add_dependant l (Some m) w))"
  let ?w1 = "add_dependant l (Some m) w\<lparr>listens := (listens (add_dependant l (Some m) w))(l := insert m (listens (add_dependant l (Some m) w) l)), graph := g\<rparr>"
  have lg: "linked g" using lk(1) g linked_cong by blast
  show "ok P (listenTo m l (add_dependant m (Some l) ?w1))"
  proof (rule listenTo_rule)
    show "linked (graph (add_dependant m (Some l) ?w1))" "known (add_dependant m (Some l) ?w1) m"
      using lg g assms(2,3) by (simp_all add: add_dependant_def known_def linked_addDependancy)
    fix h :: net assume h: "depends h = depends (graph (add_dependant m (Some l) ?w1))"
      "all_machines h = all_machines (graph (add_dependant m (Some l) ?w1))"
    have "linked h" using linked_cong [of h "addDependancy m (Some l) g"] h lg g assms(2)
      by (simp add: add_dependant_def known_def linked_addDependancy)
    then show "P (add_dependant m (Some l) ?w1\<lparr>listens := (listens (add_dependant m (Some l) ?w1))(m := insert l (listens (add_dependant m (Some l) ?w1) m)), graph := h\<rparr>)"
      using h g assms(4) by (intro P) (auto simp: gains_def add_dependant_def depends_addDependancy fun_eq_iff)
  qed
qed

lemma unlink_rule:
  assumes "linked (graph w)" "known w l" "known w m" "m \<noteq> l"
    and P: "\<And>w'. loses l m w w' \<Longrightarrow> objects w' = objects w \<Longrightarrow> P w'"
  shows "ok P (bindr (stopListening m (Some l) (remove_dependant m (Some l) w)) (\<lambda>w1. stopListening l (Some m) (remove_dependant l (Some m) w1)))"
  unfolding ok_bindr
proof (rule stopListening_rule)
  let ?w0 = "remove_dependant m (Some l) w"
  show lk: "linked (graph ?w0)" "known ?w0 m"
    using assms(1-3) by (simp_all add: remove_dependant_def linked_removeDependancy known_def)
  fix g :: net assume g: "depends g = depends (graph ?w0)" "all_machines g = all_machines (graph ?w0)"
  let ?w1 = "?w0\<lparr>listens := (listens ?w0)(m := listens ?w0 m - {l}), graph := g\<rparr>"
  have lg: "linked g" using lk(1) g linked_cong by blast
  show "ok P (stopListening l (Some m) (remove_dependant l (Some m) ?w1))"
  proof (rule stopListening_rule)
    show "linked (graph (remove_dependant l (Some m) ?w1))" "known (remove_dependant l (Some m) ?w1) l"
      using lg g assms(2,3) by (simp_all add: remove_dependant_def known_def linked_removeDependancy)
    fix h :: net assume h: "depends h = depends (graph (remove_dependant l (Some m) ?w1))"
      "all_machines h = all_machines (graph (remove_dependant l (Some m) ?w1))"
    have "linked h" using linked_cong [of h "removeDependancy l (Some m) g"] h lg
      by (simp add: remove_dependant_def linked_removeDependancy)
    moreover have "d \<in> set (depends h k)" if "k \<noteq> m" "d \<noteq> m" "d \<in> set (depends (graph w) k)" for k d
      using that h g by (cases "k = l") (simp_all add: remove_dependant_def depends_removeDependancy)
    ultimately show "P (remove_dependant l (Some m) ?w1\<lparr>listens := (listens (remove_dependant l (Some m) ?w1))(l := listens (remove_dependant l (Some m) ?w1) l - {m}), graph := h\<rparr>)"
      using h g assms(4) by (intro P) (auto simp: loses_def remove_dependant_def fun_eq_iff)
  qed
qed


lemma insert_param_mset: "insert_param p position before ps = Inr qs \<Longrightarrow> mset qs = add_mset p (mset ps)"
proof -
  assume "insert_param p position before ps = Inr qs"
  moreover have "mset (butlast ps) + {#List.last ps#} = mset ps" if "ps \<noteq> []"
    using that by (metis append_butlast_last_id mset.simps mset_append mset_single_iff_right)
  moreover have "mset (take k ps) + mset (drop k ps) = mset ps" for k
    by (metis append_take_drop_id mset_append)
  ultimately show ?thesis by (auto simp: insert_param_def Let_def split: if_splits)
qed

lemma map_filter_mset_cong: "mset xs = mset ys \<Longrightarrow> mset (List.map_filter f xs) = mset (List.map_filter f ys)"
  unfolding List.map_filter_def mset_map mset_filter by simp


lemma map_filter_add_mset:
  assumes "mset qs = add_mset p (mset ps)"
  shows "mset (List.map_filter f qs) = (case f p of None \<Rightarrow> mset (List.map_filter f ps) | Some y \<Rightarrow> add_mset y (mset (List.map_filter f ps)))"
proof -
  have "mset qs = mset (p # ps)" using assms by simp
  then have "mset (List.map_filter f qs) = mset (List.map_filter f (p # ps))" by (rule map_filter_mset_cong)
  then show ?thesis by (simp add: List.map_filter_def split: option.split)
qed

text \<open>Adding a machine, adding a plain value, and removing an item.\<close>

lemma addParameter_machine:
  assumes c: "connected w l" and m: "m \<noteq> l" "known w m" "m \<notin> set (item_machines w l)" "pmachine p = Some m"
    and ps: "insert_param p position before (parameters (objects w l)) = Inr ps"
  shows "ok (\<lambda>w'. connected w' l \<and> parameters (objects w' l) = ps) (addParameter l p (Some m) position before w)"
proof -
  let ?w0 = "set_parameters l ps w"
  have lk: "linked (graph w)" "known w l" using c by (simp_all add: connected_def)
  have ms: "mset (List.map_filter pmachine ps) = add_mset m (mset (item_machines w l))"
    using map_filter_add_mset [OF insert_param_mset [OF ps], of pmachine] m(4) by (simp add: item_machines_def)
  have cn: "connected w' l" if w1: "gains l m ?w0 w1" "objects w1 = objects ?w0" and w': "frame w1 w'" for w1 w'
  proof -
    have "item_machines w' l = List.map_filter pmachine ps"
      using w1(2) w' by (simp add: item_machines_def frame_def)
    moreover have "distinct (List.map_filter pmachine ps)"
      using c m(3) ms by (metis connected_def distinct.simps(2) mset.simps(2) mset_eq_imp_distinct_iff)
    moreover have "set (List.map_filter pmachine ps) = insert m (set (item_machines w l))"
      using ms by (metis set_mset_add_mset_insert set_mset_mset)
    ultimately show ?thesis
      using c w1(1) w' m(1,2) by (auto simp: connected_def gains_def frame_def known_def item_links_def linked_cong [of "graph w'" "graph w1"])
  qed
  show ?thesis
    unfolding addParameter_def ps ok_bindr option.case bindr.simps Let_def
  proof (rule link_rule [unfolded ok_bindr])
    fix w1 assume w1: "gains l m ?w0 w1" "objects w1 = objects ?w0"
    have "parameters (objects w' l) = ps" if "frame w1 w'" for w'
      using that w1(2) by (simp add: frame_def)
    moreover have "linked (graph w1)" "known w1 l"
      using w1(1) lk by (simp_all add: gains_def known_def)
    ultimately show "ok (\<lambda>w'. connected w' l \<and> parameters (objects w' l) = ps) (mapr (issue (NotifyDependents l)) (check_machine l
        (if mtype (objects w1 l) = ''LIST'' \<and> parameters (objects w1 l) \<noteq> [] \<and> mstate (objects w1 l) \<noteq> ''nonempty''
         then set_state l ''nonempty'' w1 else w1)))"
      using cn [OF w1] by (intro finish_rule [of w1]) (auto simp: frame_refl set_state_frame)
  qed (use lk m in \<open>simp_all add: known_def\<close>)
qed


lemma addParameter_plain:
  assumes c: "connected w l" and p: "pmachine p = None"
    and ps: "insert_param p position before (parameters (objects w l)) = Inr ps"
  shows "ok (\<lambda>w'. connected w' l \<and> parameters (objects w' l) = ps \<and> named w' = named w \<and>
           (\<forall>k. k \<noteq> l \<longrightarrow> parameters (objects w' k) = parameters (objects w k))) (addParameter l p None position before w)"
proof -
  let ?w0 = "set_parameters l ps w"
  have lk: "linked (graph ?w0)" "known ?w0 l" using c by (simp_all add: connected_def known_def)
  have ms: "mset (List.map_filter pmachine ps) = mset (item_machines w l)"
    using map_filter_add_mset [OF insert_param_mset [OF ps], of pmachine] p by (simp add: item_machines_def)
  then have "set (List.map_filter pmachine ps) = set (item_machines w l)" "distinct (List.map_filter pmachine ps) = distinct (item_machines w l)"
    by (metis set_mset_mset, metis mset_eq_imp_distinct_iff)
  then have "connected w' l \<and> parameters (objects w' l) = ps \<and> named w' = named w \<and>
      (\<forall>k. k \<noteq> l \<longrightarrow> parameters (objects w' k) = parameters (objects w k))" if "frame ?w0 w'" for w'
    using c that by (simp add: connected_def item_machines_def frame_def known_def item_links_def linked_cong [of "graph w'" "graph w"])
  with lk show ?thesis
    unfolding addParameter_def ps bindr.simps option.case Let_def
    by (intro finish_rule [of ?w0]) (auto simp: frame_refl set_state_frame)
qed

lemma map_filter_nth:
  "i < length ps \<Longrightarrow> List.map_filter f ps = List.map_filter f (take i ps) @ (case f (ps ! i) of None \<Rightarrow> [] | Some y \<Rightarrow> [y]) @ List.map_filter f (drop (Suc i) ps)"
  by (subst id_take_nth_drop [of i ps], assumption) (simp add: List.map_filter_def split: option.split)

lemma loses_keeps_links: "loses l m w w' \<Longrightarrow> item_links w l n \<Longrightarrow> n \<noteq> m \<Longrightarrow> n \<noteq> l \<Longrightarrow> m \<noteq> l \<Longrightarrow> item_links w' l n"
  by (simp add: loses_def item_links_def)

lemma item_links_cong: "depends (graph w') = depends (graph w) \<Longrightarrow> listens w' = listens w \<Longrightarrow> item_links w' l n = item_links w l n"
  by (simp add: item_links_def)

lemma lost_simps [simp]: "lost l None w w' \<longleftrightarrow> w' = w" "lost l (Some m) w w' \<longleftrightarrow> loses l m w w'"
  by (simp_all add: lost_def)

lemma lost_linked: "lost l mo w w' \<Longrightarrow> linked (graph w) \<Longrightarrow> known w l \<Longrightarrow> linked (graph w') \<and> known w' l"
  by (cases mo) (simp_all add: loses_def known_def)

lemma connected_rest:
  assumes c: "connected w l" and i: "i < length (parameters (objects w l))"
    and lo: "lost l (pmachine (parameters (objects w l) ! i)) w w1"
    and rest: "rest = take i (parameters (objects w l)) @ drop (Suc i) (parameters (objects w l))"
    and fr: "frame (set_parameters l rest w1) w'"
  shows "connected w' l \<and> (\<forall>m. pmachine (parameters (objects w l) ! i) = Some m \<longrightarrow> m \<notin> listens w' l)"
proof -
  let ?ps = "parameters (objects w l)"
  let ?m = "pmachine (?ps ! i)"
  have ms: "item_machines w l = List.map_filter pmachine (take i ?ps) @ (case ?m of None \<Rightarrow> [] | Some y \<Rightarrow> [y]) @ List.map_filter pmachine (drop (Suc i) ?ps)"
    unfolding item_machines_def using i by (rule map_filter_nth)
  have r: "item_machines w' l = List.map_filter pmachine (take i ?ps) @ List.map_filter pmachine (drop (Suc i) ?ps)"
    using fr by (simp add: rest item_machines_def frame_def List.map_filter_def)
  have d: "distinct (item_machines w' l)" "set (item_machines w' l) \<subseteq> set (item_machines w l)"
    "\<And>m. ?m = Some m \<Longrightarrow> m \<notin> set (item_machines w' l) \<and> m \<in> set (item_machines w l)"
    using c unfolding connected_def ms r by (auto split: option.splits)
  have g: "depends (graph w') = depends (graph w1)" "all_machines (graph w') = all_machines (graph w1)" "listens w' = listens w1"
    using fr by (simp_all add: frame_def)
  have "linked (graph w1) \<and> known w1 l" using lost_linked [OF lo] c by (simp add: connected_def)
  then have lk: "linked (graph w')" "known w' l" using g by (simp_all add: known_def linked_cong [OF g(1,2)])
  have "n \<noteq> l \<and> known w' n \<and> item_links w' l n" if n: "n \<in> set (item_machines w' l)" for n
  proof -
    have n': "n \<noteq> l" "known w n" "item_links w l n" using n d(2) c by (auto simp: connected_def)
    show ?thesis
    proof (cases ?m)
      case None
      with lo n' show ?thesis by (simp add: item_links_cong [OF g(1,3)] known_def g(2))
    next
      case (Some m)
      with lo have "loses l m w w1" by simp
      moreover have "n \<noteq> m" "m \<noteq> l" using n d(3) [OF Some] c by (auto simp: connected_def)
      ultimately show ?thesis using n' loses_keeps_links by (simp add: item_links_cong [OF g(1,3)] known_def g(2) loses_def)
    qed
  qed
  moreover have "m \<notin> listens w' l" if "?m = Some m" for m
    using lo that by (simp add: g(3) loses_def)
  ultimately show ?thesis using d(1) lk by (simp add: connected_def)
qed

lemma removeParameter_connected:
  assumes c: "connected w l" and which: "0 \<le> which" "which < int (length (parameters (objects w l)))"
    and rest: "rest = take (nat which) (parameters (objects w l)) @ drop (Suc (nat which)) (parameters (objects w l))"
  shows "ok (\<lambda>w'. connected w' l \<and> (\<forall>m. pmachine (parameters (objects w l) ! nat which) = Some m \<longrightarrow> m \<notin> listens w' l) \<and>
    parameters (objects w' l) = rest) (removeParameter l which w)"
    (is "ok ?P _")
proof -
  let ?m = "pmachine (parameters (objects w l) ! nat which)"
  have lk: "linked (graph w)" "known w l" using c by (simp_all add: connected_def)
  have i: "nat which < length (parameters (objects w l))" using which by linarith
  have tail: "ok ?P (let w3 = set_parameters l rest w1;
         w4 = if mtype (objects w3 l) = ''LIST'' \<and> parameters (objects w3 l) = [] \<and> mstate (objects w3 l) \<noteq> ''empty''
         then set_state l ''empty'' w3 else w3 in mapr (issue (NotifyDependents l)) (check_machine l w4))" if lo: "lost l ?m w w1" for w1
    unfolding Let_def
  proof (rule finish_rule [of "set_parameters l rest w1"])
    show "linked (graph (set_parameters l rest w1))" "known (set_parameters l rest w1) l"
      using lost_linked [OF lo lk] by (simp_all add: known_def)
    show "?P w'" if "frame (set_parameters l rest w1) w'" for w'
      using connected_rest [OF c i lo rest that] that by (simp add: frame_def)
  qed (simp add: frame_refl set_state_frame)
  have "ok (\<lambda>w1. lost l ?m w w1) (case ?m of None \<Rightarrow> Inr w
      | Some m \<Rightarrow> bindr (stopListening m (Some l) (remove_dependant m (Some l) w)) (\<lambda>w1. stopListening l (Some m) (remove_dependant l (Some m) w1)))"
  proof (cases ?m)
    case (Some m)
    then have "m \<in> set (item_machines w l)"
      using map_filter_nth [OF i, of pmachine] by (simp add: item_machines_def)
    then have "known w m" "m \<noteq> l" using c by (auto simp: connected_def)
    with lk Some show ?thesis by (simp only: option.case lost_simps) (intro unlink_rule)
  qed simp
  then show ?thesis
    using which unfolding removeParameter_def Let_def rest [symmetric]
    by (simp only: not_less [symmetric] not_le if_False simp_thms ok_bindr) (elim ok_mono, rule tail [unfolded Let_def])
qed


lemma addParameter_returned: "addParameter l p mi position before w = Inr w' \<Longrightarrow> \<exists>ps. insert_param p position before (parameters (objects w l)) = Inr ps"
  by (auto simp: addParameter_def bindr_Inr_iff)

lemma edit_connected: "edit l w w' \<Longrightarrow> connected w l \<Longrightarrow> connected w' l"
proof (induction rule: edit.induct)
  case (add_machine m w p position before w')
  obtain ps where "insert_param p position before (parameters (objects w l)) = Inr ps"
    using addParameter_returned [OF add_machine(5)] ..
  from addParameter_machine [OF add_machine(6,1,2,3,4) this] show ?case
    unfolding add_machine(5) ok_Inr ..
next
  case (add_plain p position before w w')
  obtain ps where "insert_param p position before (parameters (objects w l)) = Inr ps"
    using addParameter_returned [OF add_plain(2)] ..
  from addParameter_plain [OF add_plain(3,1) this] show ?case
    unfolding add_plain(2) ok_Inr ..
next
  case (remove which w w')
  show ?case
  proof (cases "0 \<le> which \<and> which < int (length (parameters (objects w l)))")
    case True
    then show ?thesis using removeParameter_connected [of w l which] remove by simp
  next
    case False
    then show ?thesis using remove by (auto simp: removeParameter_def Let_def)
  qed
qed


lemma linked_world_connected: "connected linked_world 0"
  by (simp add: connected_def linked_world_def example_world_def example_object_def example_item_def example_net_def
      item_machines_def List.map_filter_def known_def linked_def item_links_def)



text \<open>Taking the last item drops the link to the first one.\<close>

lemma put_items_defined: "\<forall>p\<in>set ps. defined (put_value shw (pval p)) \<Longrightarrow> defined (put_items shw delim ps)"
  by (induction ps arbitrary: delim) (simp_all add: defined_bindr defined_iff [of "put_value shw _"])

lemma displayList_rule:
  assumes "\<forall>p\<in>set (parameters (objects w l)). defined (put_value shw (pval p))" "\<And>c. P (issue c w)"
  shows "ok P (displayList shw l w)"
  using put_items_defined [OF assms(1), of "[]"] assms(2) by (auto simp: displayList_def defined_iff)

text \<open>
  \<open>TAKE LAST FROM\<close> a list removes its last item but stops listening to its first: on a
  connected list of two or more items whose first item is a machine, that machine is still on
  the list afterwards and the list no longer listens to it, while it goes on listening to all
  other machines, the one that was taken included.
\<close>

lemma take_last_unlinks_first_item:
  assumes l: "named w name = Some l" and c: "connected w l"
    and ps: "parameters (objects w l) = p # q # ps" "pmachine p = Some m"
    and shown: "\<forall>p\<in>set (parameters (objects w l)). defined (put_value shw (pval p))"
  shows "ok (\<lambda>(r, w'). parameters (objects w' l) = butlast (parameters (objects w l)) \<and>
           p \<in> set (parameters (objects w' l)) \<and> listens w' l = listens w l - {m}) (PopListBackValue shw w prev name True)"
proof -
  let ?w0 = "remove_dependant l (Some m) w"
  have lk: "linked (graph ?w0)" "known ?w0 l"
    using c by (simp_all add: connected_def remove_dependant_def linked_removeDependancy known_def)
  have shown': "\<forall>p\<in>set (butlast (p # q # ps)). defined (put_value shw (pval p))"
    using shown ps(1) by (metis in_set_butlastD)
  have "ok (\<lambda>w1. ok (\<lambda>w2. ok (\<lambda>w'. parameters (objects w' l) = butlast (p # q # ps) \<and> p \<in> set (parameters (objects w' l)) \<and> listens w' l = listens w l - {m}) (displayList shw l w2))
      (check_machine l (set_parameters l (butlast (p # q # ps)) w1))) (stopListening l (Some m) ?w0)"
  proof (rule stopListening_rule [OF lk])
    fix g :: net assume g: "depends g = depends (graph ?w0)" "all_machines g = all_machines (graph ?w0)"
    let ?w1 = "set_parameters l (butlast (p # q # ps)) (?w0\<lparr>listens := (listens ?w0)(l := listens ?w0 l - {m}), graph := g\<rparr>)"
    have "linked (graph ?w1)" "known ?w1 l"
      using lk g linked_cong [OF g] by (simp_all add: known_def)
    then show "ok (\<lambda>w2. ok (\<lambda>w'. parameters (objects w' l) = butlast (p # q # ps) \<and> p \<in> set (parameters (objects w' l)) \<and> listens w' l = listens w l - {m}) (displayList shw l w2))
      (check_machine l ?w1)"
      by (rule check_machine_rule) (rule displayList_rule, use shown' in simp, simp add: issue_def remove_dependant_def)
  qed
  then show ?thesis
    unfolding PopListBackValue_def l option.case Let_def ps by (cases "ps = []") (simp_all add: ps(2) split_def)
qed


end
