(* ===== verification/Cw_ListSets.thy ===== *)
theory Cw_ListSets
  imports Cw_ListLinks
begin

text \<open>
  What the actions on whole lists compute: the entries of a list set from a number and read back
  as a bit set, sorting, and the difference of two lists, which ends when the destination is a
  third list and never ends when it is the first one.
\<close>

section \<open>Reference notions\<close>

fun low_bits :: "int \<Rightarrow> nat \<Rightarrow> bool list" where
  "low_bits b 0 = []"
| "low_bits b (Suc n) = (b mod 2 = 1) # low_bits (b div 2) n"

definition int_item :: "param \<Rightarrow> int \<Rightarrow> bool" where
  "int_item p i \<longleftrightarrow> int_value (pval p) i \<and> pmachine p = None"

definition item_key :: "param \<Rightarrow> int" where
  "item_key p = the (iValue (pval p))"

definition in_order :: "bool \<Rightarrow> int \<Rightarrow> int \<Rightarrow> bool" where
  "in_order asc i j \<longleftrightarrow> (if asc then i \<le> j else j \<le> i)"

definition ints_of :: "world \<Rightarrow> nat \<Rightarrow> int list \<Rightarrow> bool" where
  "ints_of w l is \<longleftrightarrow> list_all2 int_item (parameters (objects w l)) is"

text \<open>Three lists of integers.\<close>

definition sets_world :: world where
  "sets_world = example_world\<lparr>
     scopes := (\<lambda>_ n. if n = ''x'' then Some 0 else if n = ''y'' then Some 1 else if n = ''z'' then Some 2 else None),
     objects := (\<lambda>i. example_object ''list'' ''LIST'' ''nonempty''
        (map (\<lambda>v. Parameter_of (Value_long v) None) (if i = 0 then [4, 2, 6] else if i = 1 then [2] else [1]))),
     graph := example_net\<lparr>depends := (\<lambda>i. [])\<rparr>\<rparr>"

section \<open>Entries and bit sets\<close>

lemma set_state_objects:
  "objects (set_state m s w) = (objects w)(m := (objects w m)\<lparr>mstate := s\<rparr>)" "named (set_state m s w) = named w"
  by (simp_all add: set_state_def issue_def set_object_def named_def fun_eq_iff)

lemma set_entries_frame:
  "parameters (objects (set_entries ps b w) i) = parameters (objects w i) \<and> named (set_entries ps b w) = named w"
  by (induction ps arbitrary: b w) (simp_all add: set_state_objects split: option.split)

lemma set_entries_other:
  "m \<notin> set (List.map_filter pmachine ps) \<Longrightarrow> objects (set_entries ps b w) m = objects w m"
  by (induction ps arbitrary: b w) (simp_all add: set_state_objects List.map_filter_simps split: option.splits)

lemma set_entries_bits:
  "\<forall>p\<in>set ps. pmachine p \<noteq> None \<Longrightarrow> distinct (List.map_filter pmachine ps) \<Longrightarrow>
   list_all2 (\<lambda>p x. item_bit (set_entries ps b w) ''on'' p = Inr x) ps (low_bits b (length ps))"
proof (induction ps arbitrary: b w)
  case (Cons p ps)
  then obtain m where m: "pmachine p = Some m" by auto
  let ?w = "set_state m (if b mod 2 = 1 then ''on'' else ''off'') w"
  have "m \<notin> set (List.map_filter pmachine ps)" using Cons.prems(2) m by (simp add: List.map_filter_def)
  then have "objects (set_entries ps (b div 2) ?w) m = objects ?w m" by (rule set_entries_other)
  moreover have "distinct (List.map_filter pmachine ps)" using Cons.prems(2) m by (simp add: List.map_filter_def)
  ultimately show ?case
    using Cons.IH [of "b div 2" ?w] Cons.prems(1) m by (simp add: item_bit_def in_state_def set_state_objects)
qed simp

lemma length_low_bits [simp]: "length (low_bits b n) = n"
  by (induction n arbitrary: b) simp_all

lemma binary_low_bits: "0 \<le> b \<Longrightarrow> binary (rev (low_bits b n)) = b mod 2 ^ n"
proof (induction n arbitrary: b)
  case (Suc n)
  have "b mod 2 ^ Suc n = 2 * ((b div 2) mod 2 ^ n) + b mod 2"
    using zmod_zmult2_eq [of "2 ^ n" b 2] by simp
  moreover have "(if b mod 2 = 1 then 1 else 0) = b mod 2" by presburger
  ultimately show ?case using Suc.IH [of "b div 2"] Suc.prems by (simp add: binary_snoc)
qed (simp add: binary_def)




section \<open>Difference\<close>

lemma value_eq_int: "int_value v i \<Longrightarrow> int_value u j \<Longrightarrow> value_eq v u = Inr (i = j)"
  by (cases v; cases u) (auto simp: int_value_def value_eq_def compare_numbers_def string_kind_def numeric_types_def)

lemma difference_find_ints:
  assumes a: "int_value a i" and qs: "list_all2 int_item qs js"
  shows "difference_find w prop a ac qs = Inr (Some (i \<in> set js), qs)"
  using qs
proof (induction qs js rule: list_all2_induct)
  case (Cons q qs j js)
  then have q: "int_value (pval q) j" by (simp add: int_item_def)
  have "\<not> symbol_and_value a (pval q)" "\<not> symbol_and_value (pval q) a"
    using a q by (simp_all add: symbol_and_value_def int_value_def)
  moreover have "value_eq a (pval q) = Inr (i = j)" using a q by (rule value_eq_int)
  ultimately show ?case using Cons by simp
qed simp

lemma append_int:
  assumes "connected w d" "int_value v i"
  shows "\<exists>w'. append_value d v c w = Inr w' \<and> connected w' d \<and>
    parameters (objects w' d) = parameters (objects w d) @ [Parameter_of v c] \<and> named w' = named w \<and>
    (\<forall>k. k \<noteq> d \<longrightarrow> parameters (objects w' k) = parameters (objects w k))"
proof -
  have k: "kind v \<noteq> t_symbol" using assms(2) by (simp add: int_value_def)
  have "insert_param (Parameter_of v c) (- 1) False (parameters (objects w d)) = Inr (parameters (objects w d) @ [Parameter_of v c])"
    by (simp add: insert_param_def)
  from addParameter_plain [OF assms(1) _ this] show ?thesis
    using k by (simp add: append_value_def addParameter_value_def Let_def ok_def Parameter_of_def)
qed

lemma set_parameters_id: "set_parameters l (parameters (objects w l)) w = w"
  by (simp add: set_parameters_def set_object_def)

text \<open>One step of the loop on lists of integers.\<close>

lemma difference_step:
  assumes a: "ints_of w la is" and b: "ints_of w lb js" and i: "i < length is" and c: "connected w d"
  shows "\<exists>w'. difference_loop (Suc n) prop la (Some lb) d i w = difference_loop n prop la (Some lb) d (Suc i) w' \<and>
    connected w' d \<and> named w' = named w \<and>
    (\<forall>l ks. ints_of w l ks \<longrightarrow> ints_of w' l (if l = d \<and> is ! i \<notin> set js then ks @ [is ! i] else ks))"
proof -
  let ?p = "parameters (objects w la) ! i"
  have len: "length (parameters (objects w la)) = length is" using a by (auto simp: ints_of_def dest: list_all2_lengthD)
  have p: "int_value (pval ?p) (is ! i)" using a i len by (auto simp: ints_of_def int_item_def dest: list_all2_nthD2)
  have f: "difference_find w prop (pval ?p) (pcached ?p) (parameters (objects w lb)) = Inr (Some (is ! i \<in> set js), parameters (objects w lb))"
    using b by (intro difference_find_ints p) (simp add: ints_of_def)
  show ?thesis
  proof (cases "is ! i \<in> set js")
    case True
    then show ?thesis using i len f c by (intro exI [of _ w]) (simp add: Let_def bindo_def set_parameters_id)
  next
    case False
    obtain w' where w': "append_value d (pval ?p) (pcached ?p) w = Inr w'" "connected w' d" "named w' = named w"
        "parameters (objects w' d) = parameters (objects w d) @ [Parameter_of (pval ?p) (pcached ?p)]"
        "\<forall>k. k \<noteq> d \<longrightarrow> parameters (objects w' k) = parameters (objects w k)"
      using append_int [OF c p, of "pcached ?p"] by (elim exE conjE)
    have "ints_of w' l (if l = d then ks @ [is ! i] else ks)" if "ints_of w l ks" for l ks
    proof -
      have "list_all2 int_item [Parameter_of (pval ?p) (pcached ?p)] [is ! i]"
        using p by (simp add: int_item_def Parameter_of_def)
      with that w'(4,5) show ?thesis by (cases "l = d") (simp_all add: ints_of_def list_all2_appendI)
    qed
    then show ?thesis
      using False i len f w'(1-3) by (intro exI [of _ w']) (simp add: Let_def bindo_def set_parameters_id)
  qed
qed


text \<open>With a third list as destination the loop ends and appends the items that are not on the second list.\<close>

lemma difference_loop_ends:
  assumes "ints_of w la is" "ints_of w lb js" "ints_of w d ks" "d \<noteq> la" "d \<noteq> lb" "connected w d" "length is - i < n" "i \<le> length is"
  shows "\<exists>w'. difference_loop n prop la (Some lb) d i w = Some (Inr (True, w')) \<and> ints_of w' d (ks @ filter (\<lambda>x. x \<notin> set js) (drop i is))"
  using assms
proof (induction n arbitrary: i w ks)
  case (Suc n)
  have len: "length (parameters (objects w la)) = length is" using Suc.prems(1) by (auto simp: ints_of_def dest: list_all2_lengthD)
  show ?case
  proof (cases "i < length is")
    case True
    obtain w' where w': "difference_loop (Suc n) prop la (Some lb) d i w = difference_loop n prop la (Some lb) d (Suc i) w'"
        "connected w' d" "named w' = named w" "\<forall>l ks. ints_of w l ks \<longrightarrow> ints_of w' l (if l = d \<and> is ! i \<notin> set js then ks @ [is ! i] else ks)"
      using difference_step [OF Suc.prems(1,2) True Suc.prems(6), of n "prop"] by (elim exE conjE)
    let ?ks = "if is ! i \<notin> set js then ks @ [is ! i] else ks"
    have "ints_of w' la is" "ints_of w' lb js" "ints_of w' d ?ks"
      using w'(4) Suc.prems by (auto dest: spec [of _ la] spec [of _ lb] spec [of _ d])
    moreover have "?ks @ filter (\<lambda>x. x \<notin> set js) (drop (Suc i) is) = ks @ filter (\<lambda>x. x \<notin> set js) (drop i is)"
      unfolding Cons_nth_drop_Suc [OF True, symmetric] by simp
    moreover have "length is - Suc i < n" "Suc i \<le> length is" using Suc.prems(7) True by simp_all
    ultimately show ?thesis unfolding w'(1) using Suc.IH [of w' ?ks "Suc i"] Suc.prems(4,5) w'(2) by simp
  next
    case False
    then show ?thesis using Suc.prems len by simp
  qed
qed simp

text \<open>With the first list as destination, an item that is not on the second list is found again and again.\<close>

lemma difference_loop_never_ends:
  assumes "ints_of w la is" "ints_of w lb js" "la \<noteq> lb" "connected w la" "i \<le> k" "k < length is" "is ! k \<notin> set js"
  shows "difference_loop n prop la (Some lb) la i w = None"
  using assms
proof (induction n arbitrary: i k w "is")
  case (Suc n)
  have "i < length is" using Suc.prems by simp
  from difference_step [OF Suc.prems(1,2) this Suc.prems(4), of n "prop"]
  obtain w' where w': "difference_loop (Suc n) prop la (Some lb) la i w = difference_loop n prop la (Some lb) la (Suc i) w'"
      "connected w' la" "named w' = named w" "\<forall>l ks. ints_of w l ks \<longrightarrow> ints_of w' l (if l = la \<and> is ! i \<notin> set js then ks @ [is ! i] else ks)"
    by (elim exE conjE)
  let ?is = "if is ! i \<notin> set js then is @ [is ! i] else is" and ?k = "if i = k then length is else k"
  have i': "ints_of w' la ?is" "ints_of w' lb js"
    using w'(4) Suc.prems(1-3) by (auto dest: spec [of _ la] spec [of _ lb])
  have "Suc i \<le> ?k" "?k < length ?is" "?is ! ?k \<notin> set js"
    using Suc.prems(5-7) by (auto simp: nth_append)
  from Suc.IH [OF i' Suc.prems(3) w'(2) this] w'(1) show ?case by simp
qed simp

lemma int_items_shown: "list_all2 int_item ps is \<Longrightarrow> \<forall>p\<in>set ps. defined (put_value shw (pval p))"
  by (induction ps "is" rule: list_all2_induct) (simp_all add: int_item_def int_value_def put_value_def)


lemma sets_world_facts:
  "named sets_world ''x'' = Some 0" "named sets_world ''y'' = Some 1" "named sets_world ''z'' = Some 2"
  "mtype (objects sets_world l) = ''LIST''"
  "ints_of sets_world 0 [4, 2, 6]" "ints_of sets_world 1 [2]" "ints_of sets_world 2 [1]"
  "l < 3 \<Longrightarrow> connected sets_world l"
  by (auto simp: sets_world_def named_def example_object_def ints_of_def int_item_def int_value_def Parameter_of_def
      Value_long_def connected_def linked_def known_def item_machines_def List.map_filter_def example_net_def)


text \<open>
  Copying the difference of two lists to the first of them never ends when an item of
  the first list is not on the second: the item is appended to the list that the loop runs over,
  is met there again, and is appended again.
\<close>

lemma difference_into_first_list_never_ends:
  assumes "named w a = Some la" "named w b = Some lb" "mtype (objects w la) = ''LIST''"
    and "ints_of w la is" "ints_of w lb js" "la \<noteq> lb" "connected w la" "\<not> set is \<subseteq> set js"
  shows "SetOperationAction_run a b a (DifferenceSetOperation shw n prop) w = None"
proof -
  obtain k where "k < length is" "is ! k \<notin> set js" using assms(8) by (metis in_set_conv_nth subsetI)
  then have "difference_loop n prop la (Some lb) la 0 w = None"
    using difference_loop_never_ends [OF assms(4-7)] by simp
  then show ?thesis using assms(1-3) by (simp add: SetOperationAction_run_def DifferenceSetOperation_def bindo_def)
qed


section \<open>Sorting\<close>

lemma NumericValueSorter_int:
  "int_value (pval a) i \<Longrightarrow> int_value (pval b) j \<Longrightarrow> NumericValueSorter asc a b = Inr (if asc then i < j else j < i)"
  by (cases "pval a"; cases "pval b") (auto simp: NumericValueSorter_def int_value_def)

lemma sorter_key:
  assumes "\<forall>p\<in>set ps. int_value (pval p) (item_key p)" "a \<in> set ps" "b \<in> set ps"
  shows "NumericValueSorter asc a b = Inr (if asc then item_key a < item_key b else item_key b < item_key a)"
  using assms by (intro NumericValueSorter_int) simp_all

lemma sorter_comparable:
  assumes "\<forall>p\<in>set ps. int_value (pval p) (item_key p)"
  shows "comparable (NumericValueSorter asc) (set ps)"
  unfolding comparable_def strict_weak_def using sorter_key [OF assms] by (intro conjI ballI) (auto split: if_splits)

lemma sorted_by_key:
  assumes k: "\<forall>p\<in>set ps. int_value (pval p) (item_key p)" and qs: "mset qs = mset ps"
  shows "sorted_wrt (\<lambda>x y. NumericValueSorter asc y x \<noteq> Inr True) qs \<longleftrightarrow>
    sorted_wrt (in_order asc) (map item_key qs)"
proof -
  have "set qs = set ps" using qs by (rule mset_eq_setD)
  then have "sorted_wrt (\<lambda>x y. NumericValueSorter asc y x \<noteq> Inr True) qs \<longleftrightarrow>
      sorted_wrt (\<lambda>x y. in_order asc (item_key x) (item_key y)) qs"
    using sorter_key [OF k] by (intro iffI; elim sorted_wrt_mono_rel [rotated]) (auto simp: in_order_def split: if_splits)
  then show ?thesis by (simp add: sorted_wrt_map)
qed

lemma int_value_key: "int_value v i \<Longrightarrow> v = pval p \<Longrightarrow> int_value (pval p) (item_key p)"
  by (simp add: int_value_def item_key_def)

text \<open>
  Claim C19. Sorting a list of integers leaves, whatever the library does with equal items, a
  permutation of the items in ascending or descending order of their values, and completes.
\<close>

theorem integer_list_is_sorted:
  assumes l: "named w name = Some l" "mtype (objects w l) = ''LIST''" "parameters (objects w l) \<noteq> []"
    and k: "\<forall>p\<in>set (parameters (objects w l)). int_value (pval p) (item_key p)"
  shows "(\<exists>r. SortListAction_run name prp asc w r) \<and>
    (\<forall>r. SortListAction_run name prp asc w r \<longrightarrow> (\<exists>w'. r = Inr (Complete, True, w') \<and>
       mset (parameters (objects w' l)) = mset (parameters (objects w l)) \<and>
       sorted_wrt (in_order asc) (map item_key (parameters (objects w' l)))))"
proof -
  let ?ps = "parameters (objects w l)"
  have "kind (pval (hd ?ps)) = t_integer" using k l(3) by (simp add: int_value_def)
  then have o: "sort_order w prp asc ?ps = Inr (NumericValueSorter asc)"
    using k by (auto simp: sort_order_def int_value_def)
  have run: "SortListAction_run name prp asc w r \<longleftrightarrow>
      (\<exists>ys. std_sort (NumericValueSorter asc) ?ps ys \<and> r = mapr (\<lambda>qs. (Complete, True, set_parameters l qs w)) ys)" for r
    using l by (simp add: SortListAction_run_def o)
  have sorts: "\<exists>qs. ys = Inr qs \<and> mset qs = mset ?ps \<and> sorted_wrt (in_order asc) (map item_key qs)"
    if "std_sort (NumericValueSorter asc) ?ps ys" for ys
    using that sorter_comparable [OF k, of asc] sorted_by_key [OF k] l(3)
    by (cases "length ?ps \<le> 1") (auto simp: std_sort_def length_Suc_conv le_Suc_eq)
  have "\<exists>ys. std_sort (NumericValueSorter asc) ?ps ys"
  proof (cases "length ?ps \<le> 1")
    case False
    let ?qs = "sort_key (\<lambda>p. if asc then item_key p else - item_key p) ?ps"
    have "sorted_wrt (in_order asc) (map item_key ?qs)"
      using sorted_sort_key [of "\<lambda>p. if asc then item_key p else - item_key p" ?ps]
      by (cases asc) (simp_all add: sorted_map sorted_wrt_map in_order_def)
    then have "std_sort (NumericValueSorter asc) ?ps (Inr ?qs)"
      using False sorter_comparable [OF k, of asc] sorted_by_key [OF k, of ?qs] by (simp add: std_sort_def)
    then show ?thesis ..
  qed (simp add: std_sort_def)
  then show ?thesis using sorts unfolding run by fastforce
qed


theorem integer_list_is_sorted_witness:
  "\<exists>w'. SortListAction_run ''x'' [] True sets_world (Inr (Complete, True, w')) \<and>
      mset (map item_key (parameters (objects w' 0))) = {#2, 4, 6#} \<and> sorted_wrt (in_order True) (map item_key (parameters (objects w' 0)))"
proof -
  have ps: "parameters (objects sets_world 0) = map (\<lambda>v. Parameter_of (Value_long v) None) [4, 2, 6]"
    by (simp add: sets_world_def example_object_def)
  then have k: "\<forall>p\<in>set (parameters (objects sets_world 0)). int_value (pval p) (item_key p)" "parameters (objects sets_world 0) \<noteq> []"
    by (simp_all add: int_value_def item_key_def Parameter_of_def Value_long_def)
  note sorts = integer_list_is_sorted [OF sets_world_facts(1,4) k(2,1), of "[]" True]
  obtain r where r: "SortListAction_run ''x'' [] True sets_world r" using sorts by (elim conjE exE)
  obtain w' where w': "r = Inr (Complete, True, w')" "mset (parameters (objects w' 0)) = mset (parameters (objects sets_world 0))"
      "sorted_wrt (in_order True) (map item_key (parameters (objects w' 0)))"
    using sorts r by (elim conjE allE [of _ r] impE exE)
  have "mset (map item_key (parameters (objects w' 0))) = {#2, 4, 6#}"
    unfolding mset_map w'(2) ps by (simp add: item_key_def Parameter_of_def Value_long_def)
  with r w' show ?thesis by (intro exI [of _ w']) simp
qed

lemma not_comparable: "x \<in> A \<Longrightarrow> lt x x = Inr True \<Longrightarrow> \<not> comparable lt A"
  by (auto simp: comparable_def strict_weak_def)

lemma std_sort_undefined: "x \<in> set xs \<Longrightarrow> lt x x = Inr True \<Longrightarrow> 2 \<le> length xs \<Longrightarrow> std_sort lt xs r \<longleftrightarrow> r = Inl OutOfRange"
  using not_comparable [of x "set xs" lt] by (simp add: std_sort_def)

text \<open>
  Sorting a list of two or more items that begins with a symbol and has an item whose
  machine has not been looked up is undefined behaviour: the comparison calls such an item less
  than itself, so it is not a strict weak order as \<open>std::sort\<close> requires.
\<close>

lemma sort_with_unresolved_item_undefined:
  assumes l: "named w name = Some l" "mtype (objects w l) = ''LIST''" "2 \<le> length (parameters (objects w l))"
    and s: "kind (pval (hd (parameters (objects w l)))) = t_symbol" "p \<in> set (parameters (objects w l))" "pmachine p = None"
  shows "\<exists>e. \<forall>r. SortListAction_run name prp asc w r \<longleftrightarrow> r = Inl e"
proof -
  have ne: "parameters (objects w l) \<noteq> []" using l(3) by auto
  show ?thesis
  proof (cases "all_integers w prp (parameters (objects w l))")
    case (Inl e)
    then show ?thesis using l s(1) ne by (intro exI [of _ e]) (simp add: SortListAction_run_def sort_order_def)
  next
    case (Inr b)
    let ?lt = "if b then PropertyValueNumericSorter w prp asc else PropertyValueStringSorter w prp asc"
    have "?lt p p = Inr True" using s(3) by (simp add: PropertyValueNumericSorter_def PropertyValueStringSorter_def)
    then have "std_sort ?lt (parameters (objects w l)) ys \<longleftrightarrow> ys = Inl OutOfRange" for ys
      by (rule std_sort_undefined [OF s(2) _ l(3)])
    moreover have "sort_order w prp asc (parameters (objects w l)) = Inr ?lt"
      using s(1) Inr by (simp add: sort_order_def)
    ultimately show ?thesis using l ne by (intro exI [of _ OutOfRange]) (simp only: SortListAction_run_def option.case sum.case simp_thms if_False if_True, simp)
  qed
qed

end
