(* ===== verification/Cw_Scheduler.thy ===== *)
theory Cw_Scheduler
  imports Cw_Prelude "HOL-Library.Multiset"
begin

text \<open>
  The scheduler of \<open>src/iod/src/Scheduler.h\<close> and \<open>Scheduler.cpp\<close>: items ordered by
  delivery time, the priority queue, the calls other threads make, and the loop of the
  scheduler's thread as a step relation. Times are unsigned 64-bit counts of microseconds and
  differences of times are signed, as in the code. Packages, actions and triggers are
  identified by numbers. The queue's mutex makes the queue operations atomic; the loop itself
  is split wherever another thread can run. The synchronisation sockets and the watchdog are
  left out.
\<close>

section \<open>Items and the queue\<close>

record scheduled_item =
  package :: "nat option"
  action :: "nat option"
  trigger :: "nat option"
  delivery_time :: int

text \<open>\<open>starting + delay\<close> in \<open>uint64_t\<close>.\<close>

definition delivery_at :: "int \<Rightarrow> int \<Rightarrow> int" where
  "delivery_at starting delay = to_u64 (starting + delay)"

definition package_item :: "int \<Rightarrow> int \<Rightarrow> nat \<Rightarrow> scheduled_item" where
  "package_item now delay p =
     \<lparr>package = Some p, action = None, trigger = None, delivery_time = delivery_at now delay\<rparr>"

definition action_item :: "int \<Rightarrow> int \<Rightarrow> nat \<Rightarrow> scheduled_item" where
  "action_item starting delay a =
     \<lparr>package = None, action = Some a, trigger = None, delivery_time = delivery_at starting delay\<rparr>"

definition trigger_item :: "int \<Rightarrow> int \<Rightarrow> nat \<Rightarrow> scheduled_item" where
  "trigger_item starting delay t =
     \<lparr>package = None, action = None, trigger = Some t, delivery_time = delivery_at starting delay\<rparr>"

definition item_less :: "scheduled_item \<Rightarrow> scheduled_item \<Rightarrow> bool" where
  "item_less a b \<longleftrightarrow> delivery_time a < delivery_time b"

definition item_ge :: "scheduled_item \<Rightarrow> scheduled_item \<Rightarrow> bool" where
  "item_ge a b \<longleftrightarrow> delivery_time b \<le> delivery_time a"

text \<open>\<open>PriorityQueue::push\<close>: before the first item that is later.\<close>

fun pq_push :: "scheduled_item \<Rightarrow> scheduled_item list \<Rightarrow> scheduled_item list" where
  "pq_push item [] = [item]"
| "pq_push item (queued # rest) =
     (if item_less item queued then item # queued # rest else queued # pq_push item rest)"

definition pq_top :: "scheduled_item list \<Rightarrow> scheduled_item res" where
  "pq_top q = (case q of [] \<Rightarrow> Inl OutOfRange | x # _ \<Rightarrow> Inr x)"

definition pq_pop :: "scheduled_item list \<Rightarrow> scheduled_item list res" where
  "pq_pop q = (case q of [] \<Rightarrow> Inl OutOfRange | _ # xs \<Rightarrow> Inr xs)"

definition pq_empty :: "scheduled_item list \<Rightarrow> bool" where
  "pq_empty q \<longleftrightarrow> q = []"

text \<open>\<open>PriorityQueue::check\<close>: \<open>prev\<close> is set once, to the first item.\<close>

fun check_from :: "scheduled_item option \<Rightarrow> scheduled_item list \<Rightarrow> bool res" where
  "check_from prev [] = Inr True"
| "check_from None (x # xs) = check_from (Some x) xs"
| "check_from (Some prev) (cur # xs) = (if item_ge cur prev then check_from (Some prev) xs else Inl AssertFailed)"

definition pq_check :: "scheduled_item list \<Rightarrow> bool res" where
  "pq_check q = check_from None q"

section \<open>The scheduler\<close>

datatype sched_state = e_waiting | e_have_work | e_waiting_cw | e_running | e_aborted

record scheduler =
  items :: "scheduled_item list"
  next_time :: int
  sch_state :: sched_state
  next_delay_time :: int
  has_thread :: bool
  interrupted :: bool

definition new_scheduler :: scheduler where
  "new_scheduler = \<lparr>items = [], next_time = 0, sch_state = e_waiting, next_delay_time = 0,
                    has_thread = False, interrupted = False\<rparr>"

definition scheduler_next :: "scheduler \<Rightarrow> scheduled_item option" where
  "scheduler_next s = (case items s of [] \<Rightarrow> None | x # _ \<Rightarrow> Some x)"

definition scheduler_pop :: "scheduler \<Rightarrow> scheduler res" where
  "scheduler_pop s = mapr (\<lambda>q. s\<lparr>items := q\<rparr>) (pq_pop (items s))"

definition getNextDelay_from :: "int \<Rightarrow> scheduler \<Rightarrow> int" where
  "getNextDelay_from start s = (case items s of
     [] \<Rightarrow> 1000000 | first # _ \<Rightarrow> to_long (delivery_time first - start))"

definition getNextDelay :: "int \<Rightarrow> scheduler \<Rightarrow> int \<times> scheduler" where
  "getNextDelay now s = (case items s of
     [] \<Rightarrow> (1000000, s)
   | first # _ \<Rightarrow> (to_long (delivery_time first - now), s\<lparr>next_time := delivery_time first\<rparr>))"

definition scheduler_ready :: "int \<Rightarrow> scheduler \<Rightarrow> bool" where
  "scheduler_ready start s \<longleftrightarrow> items s \<noteq> [] \<and> getNextDelay_from start s \<le> 0"

text \<open>\<open>Scheduler::add\<close>, which reads the clock twice.\<close>

definition scheduler_add :: "int \<Rightarrow> int \<Rightarrow> scheduled_item \<Rightarrow> scheduler \<Rightarrow> scheduler res" where
  "scheduler_add now1 now2 item s =
     (let (d, s1) = getNextDelay now1 s;
          s2 = s1\<lparr>next_delay_time := d, items := pq_push item (items s1)\<rparr>
      in bindr (pq_top (items s2)) (\<lambda>first.
         let s3 = s2\<lparr>next_time := delivery_time first\<rparr>;
             delay = to_long (next_time s3 - now2)
         in if delay \<le> next_delay_time s3 \<or> next_delay_time s3 \<le> 0
            then Inr (s3\<lparr>next_delay_time := delay, interrupted := interrupted s3 \<or> has_thread s3\<rparr>)
            else Inr s3))"

definition scheduler_stop :: "scheduler \<Rightarrow> scheduler" where
  "scheduler_stop s = s\<lparr>sch_state := e_aborted\<rparr>"

text \<open>What is done with an item: the trigger is looked at first, then the package, then the action.\<close>

datatype dispatch = Fired nat | Disabled nat | Delivered nat | Pushed nat | Ignored

definition dispatch_item :: "(nat \<Rightarrow> bool) \<Rightarrow> scheduled_item \<Rightarrow> dispatch" where
  "dispatch_item enabled item = (case trigger item of
     Some t \<Rightarrow> if enabled t then Fired t else Disabled t
   | None \<Rightarrow> (case package item of
       Some p \<Rightarrow> Delivered p
     | None \<Rightarrow> (case action item of Some a \<Rightarrow> Pushed a | None \<Rightarrow> Ignored)))"

section \<open>The loop of the scheduler's thread\<close>

text \<open>
  The places in \<open>Scheduler::idle\<close> where other threads can run: the head of the loop, the
  reading of the clock, the two tests of the state, the wait for the driver, the inner loop and
  the wait for the driver's acknowledgement.
\<close>

datatype idle_pc = Loop | Poll | Signal | Await | Receiving | Run | Repoll | Finish | Acknowledge | Ended

record idle_thread =
  sched :: scheduler
  last_poll :: int
  is_ready :: bool
  pc :: idle_pc
  done_items :: "(scheduled_item \<times> int) list"   \<comment> \<open>items taken, with \<open>last_poll\<close> then\<close>
  added :: "scheduled_item list"

datatype sched_label = Tick int | Tau | Added scheduled_item int int | Stopped

inductive idle_step :: "sched_label \<Rightarrow> idle_thread \<Rightarrow> idle_thread \<Rightarrow> bool" where
  loop_end: "pc i = Loop \<Longrightarrow> sch_state (sched i) = e_aborted \<Longrightarrow> idle_step Tau i (i\<lparr>pc := Ended\<rparr>)"
| loop_body: "pc i = Loop \<Longrightarrow> sch_state (sched i) \<noteq> e_aborted \<Longrightarrow>
    idle_step Tau i
      (i\<lparr>sched := (sched i)\<lparr>next_delay_time := getNextDelay_from (last_poll i) (sched i)\<rparr>, pc := Poll\<rparr>)"
| poll_continue: "pc i = Poll \<Longrightarrow> \<not> scheduler_ready now (sched i) \<Longrightarrow> sch_state (sched i) = e_waiting \<Longrightarrow>
    idle_step (Tick now) i (i\<lparr>last_poll := now, is_ready := False, pc := Loop\<rparr>)"
| poll_work: "pc i = Poll \<Longrightarrow> scheduler_ready now (sched i) \<or> sch_state (sched i) \<noteq> e_waiting \<Longrightarrow>
    idle_step (Tick now) i (i\<lparr>last_poll := now, is_ready := scheduler_ready now (sched i), pc := Signal\<rparr>)"
| signal_cw: "pc i = Signal \<Longrightarrow> sch_state (sched i) = e_waiting \<Longrightarrow> is_ready i \<Longrightarrow>
    idle_step Tau i (i\<lparr>sched := (sched i)\<lparr>sch_state := e_waiting_cw\<rparr>, pc := Await\<rparr>)"
| signal_skip: "pc i = Signal \<Longrightarrow> \<not> (sch_state (sched i) = e_waiting \<and> is_ready i) \<Longrightarrow>
    idle_step Tau i (i\<lparr>pc := Await\<rparr>)"
| await_cw: "pc i = Await \<Longrightarrow> sch_state (sched i) = e_waiting_cw \<Longrightarrow> idle_step Tau i (i\<lparr>pc := Receiving\<rparr>)"
| await_skip: "pc i = Await \<Longrightarrow> sch_state (sched i) \<noteq> e_waiting_cw \<Longrightarrow> idle_step Tau i (i\<lparr>pc := Run\<rparr>)"
| receive_cw: "pc i = Receiving \<Longrightarrow>
    idle_step Tau i (i\<lparr>sched := (sched i)\<lparr>sch_state := e_running\<rparr>, pc := Run\<rparr>)"
| run_item: "pc i = Run \<Longrightarrow> sch_state (sched i) = e_running \<Longrightarrow> is_ready i \<Longrightarrow>
    scheduler_next (sched i) = Some item \<Longrightarrow> scheduler_pop (sched i) = Inr s' \<Longrightarrow>
    idle_step Tau i
      (i\<lparr>sched := s'\<lparr>next_time := 0\<rparr>, done_items := done_items i @ [(item, last_poll i)], pc := Repoll\<rparr>)"
| run_end: "pc i = Run \<Longrightarrow> \<not> (sch_state (sched i) = e_running \<and> is_ready i) \<Longrightarrow> idle_step Tau i (i\<lparr>pc := Finish\<rparr>)"
| repoll: "pc i = Repoll \<Longrightarrow>
    idle_step (Tick now) i (i\<lparr>last_poll := now, is_ready := scheduler_ready now (sched i), pc := Run\<rparr>)"
| finish_done: "pc i = Finish \<Longrightarrow> sch_state (sched i) = e_running \<Longrightarrow> idle_step Tau i (i\<lparr>pc := Acknowledge\<rparr>)"
| finish_skip: "pc i = Finish \<Longrightarrow> sch_state (sched i) \<noteq> e_running \<Longrightarrow> idle_step Tau i (i\<lparr>pc := Loop\<rparr>)"
| acknowledge: "pc i = Acknowledge \<Longrightarrow>
    idle_step Tau i (i\<lparr>sched := (sched i)\<lparr>sch_state := e_waiting\<rparr>, pc := Loop\<rparr>)"
| other_add: "scheduler_add now1 now2 item (sched i) = Inr s' \<Longrightarrow>
    idle_step (Added item now1 now2) i (i\<lparr>sched := s', added := added i @ [item]\<rparr>)"
| other_stop: "idle_step Stopped i (i\<lparr>sched := scheduler_stop (sched i)\<rparr>)"

inductive idle_run :: "sched_label list \<Rightarrow> idle_thread \<Rightarrow> idle_thread \<Rightarrow> bool" where
  run_nil: "idle_run [] i i"
| run_snoc: "idle_run ls i j \<Longrightarrow> idle_step l j k \<Longrightarrow> idle_run (ls @ [l]) i k"

definition idle_start :: "int \<Rightarrow> scheduler \<Rightarrow> idle_thread" where
  "idle_start now s = \<lparr>sched = s\<lparr>sch_state := e_waiting\<rparr>, last_poll = now, is_ready = False, pc = Loop,
                       done_items = [], added = items s\<rparr>"

text \<open>Labels whose times are below \<open>2^63\<close>, where signed differences order them.\<close>

definition time_ok :: "int \<Rightarrow> bool" where
  "time_ok t \<longleftrightarrow> 0 \<le> t \<and> t \<le> LONG_MAX"

fun label_ok :: "sched_label \<Rightarrow> bool" where
  "label_ok (Tick now) = time_ok now"
| "label_ok (Added item now1 now2) = (time_ok (delivery_time item) \<and> time_ok now1 \<and> time_ok now2)"
| "label_ok _ = True"

definition pq_sorted :: "scheduled_item list \<Rightarrow> bool" where
  "pq_sorted q \<longleftrightarrow> sorted (map delivery_time q)"

text \<open>
  What the loop keeps: the queue is ordered, and the items added are those in the queue and
  those taken.
\<close>

definition queue_inv :: "idle_thread \<Rightarrow> bool" where
  "queue_inv i \<longleftrightarrow> pq_sorted (items (sched i)) \<and>
     mset (added i) = mset (items (sched i)) + mset (map fst (done_items i))"

text \<open>
  While the thread acts on \<open>is_ready\<close>, the front of the queue is due; nothing was taken
  before its time.
\<close>

definition due_inv :: "idle_thread \<Rightarrow> bool" where
  "due_inv i \<longleftrightarrow> (\<forall>x \<in> set (items (sched i)). time_ok (delivery_time x)) \<and> time_ok (last_poll i) \<and>
     (pc i \<in> {Signal, Await, Receiving, Run} \<and> is_ready i \<longrightarrow>
        (\<exists>x xs. items (sched i) = x # xs \<and> delivery_time x \<le> last_poll i)) \<and>
     (\<forall>(x, t) \<in> set (done_items i). delivery_time x \<le> t)"

section \<open>The interface of a queue ordered by time\<close>

locale time_queue =
  fixes push :: "'i \<Rightarrow> 'q \<Rightarrow> 'q"
    and pop :: "'q \<Rightarrow> 'q res"
    and front :: "'q \<Rightarrow> 'i res"
    and content :: "'q \<Rightarrow> 'i multiset"
    and key :: "'i \<Rightarrow> int"
    and queue_ok :: "'q \<Rightarrow> bool"
  assumes ok_push: "queue_ok q \<Longrightarrow> queue_ok (push x q)"
    and content_push: "content (push x q) = add_mset x (content q)"
    and front_empty: "content q = {#} \<Longrightarrow> \<not> defined (front q)"
    and front_least: "queue_ok q \<Longrightarrow> front q = Inr x \<Longrightarrow> y \<in># content q \<Longrightarrow> key x \<le> key y"
    and front_pop: "queue_ok q \<Longrightarrow> content q \<noteq> {#} \<Longrightarrow>
      \<exists>x q'. front q = Inr x \<and> pop q = Inr q' \<and> content q = add_mset x (content q') \<and> queue_ok q'"
begin

text \<open>Taking the items that are due, as long as the front is.\<close>

primrec drain :: "nat \<Rightarrow> int \<Rightarrow> 'q \<Rightarrow> 'i list \<times> 'q" where
  "drain 0 limit q = ([], q)"
| "drain (Suc n) limit q = (case front q of
     Inl _ \<Rightarrow> ([], q)
   | Inr x \<Rightarrow> if key x \<le> limit
              then (case pop q of Inl _ \<Rightarrow> ([], q) | Inr q' \<Rightarrow> apfst (Cons x) (drain n limit q'))
              else ([], q))"

lemma drain_not_due:
  assumes "queue_ok q" "front q = Inr x" "\<not> key x \<le> limit"
  shows "filter_mset (\<lambda>y. key y \<le> limit) (content q) = {#}"
    "filter_mset (\<lambda>y. \<not> key y \<le> limit) (content q) = content q"
proof -
  have "\<not> key y \<le> limit" if "y \<in># content q" for y
    using front_least [OF assms(1,2) that] assms(3) by linarith
  then have "filter_mset (\<lambda>y. key y \<le> limit) (content q) = filter_mset (\<lambda>_. False) (content q)"
    "filter_mset (\<lambda>y. \<not> key y \<le> limit) (content q) = filter_mset (\<lambda>_. True) (content q)"
    by (simp_all cong: filter_mset_cong)
  then show "filter_mset (\<lambda>y. key y \<le> limit) (content q) = {#}"
    "filter_mset (\<lambda>y. \<not> key y \<le> limit) (content q) = content q"
    by (simp_all only: filter_mset_False filter_mset_True)
qed

lemma drain_exact:
  assumes "queue_ok q" "size (content q) \<le> n" "drain n limit q = (xs, q')"
  shows "mset xs = filter_mset (\<lambda>x. key x \<le> limit) (content q) \<and>
    content q' = filter_mset (\<lambda>x. \<not> key x \<le> limit) (content q) \<and> sorted (map key xs) \<and> queue_ok q'"
  using assms
proof (induction n arbitrary: q xs q')
  case (Suc n)
  show ?case
  proof (cases "content q = {#}")
    case True
    then show ?thesis using Suc.prems front_empty [of q] by (auto split: sum.splits)
  next
    case False
    then obtain x r where x: "front q = Inr x" "pop q = Inr r" "content q = add_mset x (content r)" "queue_ok r"
      using front_pop Suc.prems(1) by blast
    show ?thesis
    proof (cases "key x \<le> limit")
      case True
      then obtain ys where ys: "drain n limit r = (ys, q')" "xs = x # ys"
        using Suc.prems(3) x by (auto simp: apfst_def map_prod_def split: prod.splits)
      have IH: "mset ys = filter_mset (\<lambda>x. key x \<le> limit) (content r)"
        "content q' = filter_mset (\<lambda>x. \<not> key x \<le> limit) (content r)" "sorted (map key ys)" "queue_ok q'"
        using Suc.IH [OF x(4) _ ys(1)] Suc.prems(2) x(3) by auto
      have "key x \<le> key y" if "y \<in> set ys" for y
        using that IH(1) x(3) front_least [OF Suc.prems(1) x(1), of y]
        by (metis (no_types) filter_mset_eq_conv insertCI mset_subset_eqD set_mset_add_mset_insert set_mset_mset multiset_filter_subset)
      then show ?thesis using IH ys x(3) True by auto
    next
      case False
      then show ?thesis using drain_not_due [OF Suc.prems(1) x(1)] Suc.prems x(1) by simp
    qed
  qed
qed simp

end

section \<open>The priority queue implements it\<close>

lemma mset_pq_push [simp]: "mset (pq_push x q) = add_mset x (mset q)"
  by (induction q) auto

lemma set_pq_push [simp]: "set (pq_push x q) = insert x (set q)"
  by (induction q) auto

lemma pq_push_not_Nil [simp]: "pq_push x q \<noteq> []"
  by (cases q) auto

lemma pq_sorted_push: "pq_sorted q \<Longrightarrow> pq_sorted (pq_push x q)"
  by (induction q) (auto simp: pq_sorted_def item_less_def)

interpretation due_items: time_queue pq_push pq_pop pq_top mset delivery_time pq_sorted
proof unfold_locales
  fix q :: "scheduled_item list" and x y
  show "pq_sorted q \<Longrightarrow> pq_sorted (pq_push x q)" by (rule pq_sorted_push)
  show "mset (pq_push x q) = add_mset x (mset q)" by simp
  show "mset q = {#} \<Longrightarrow> \<not> defined (pq_top q)" by (simp add: pq_top_def)
  show "pq_sorted q \<Longrightarrow> pq_top q = Inr x \<Longrightarrow> y \<in># mset q \<Longrightarrow> delivery_time x \<le> delivery_time y"
    by (cases q) (auto simp: pq_sorted_def pq_top_def)
  show "pq_sorted q \<Longrightarrow> mset q \<noteq> {#} \<Longrightarrow>
      \<exists>x q'. pq_top q = Inr x \<and> pq_pop q = Inr q' \<and> mset q = add_mset x (mset q') \<and> pq_sorted q'"
    by (cases q) (auto simp: pq_sorted_def pq_top_def pq_pop_def)
qed

section \<open>Lemmas on the calls and the loop\<close>

lemma to_long_difference: "time_ok a \<Longrightarrow> time_ok b \<Longrightarrow> to_long (a - b) = a - b"
  by (rule to_long_id) (auto simp: time_ok_def long_bounds)

lemma items_add: "scheduler_add now1 now2 item s = Inr s' \<Longrightarrow> items s' = pq_push item (items s)"
  by (auto simp: scheduler_add_def getNextDelay_def bindr_Inr_iff Let_def split: list.splits if_splits)

lemma ready_iff:
  assumes "time_ok now" "\<forall>x \<in> set (items s). time_ok (delivery_time x)"
  shows "scheduler_ready now s \<longleftrightarrow> (\<exists>x xs. items s = x # xs \<and> delivery_time x \<le> now)"
  using assms by (cases "items s") (auto simp: scheduler_ready_def getNextDelay_from_def to_long_difference)

lemma front_push:
  "q = x # xs \<Longrightarrow> delivery_time x \<le> t \<Longrightarrow> \<exists>y ys. pq_push item q = y # ys \<and> delivery_time y \<le> t"
  by (auto simp: item_less_def)

lemma next_pop:
  "scheduler_next s = Some x \<Longrightarrow> scheduler_pop s = Inr s' \<Longrightarrow> items s = x # items s'"
  by (cases "items s") (auto simp: scheduler_next_def scheduler_pop_def pq_pop_def)

lemma queue_inv_step: "idle_step l i j \<Longrightarrow> queue_inv i \<Longrightarrow> queue_inv j"
proof (induction rule: idle_step.induct)
  case (run_item i item s')
  then show ?case using next_pop [of "sched i" item s'] by (auto simp: queue_inv_def pq_sorted_def)
next
  case (other_add now1 now2 item i s')
  then show ?case using items_add [OF other_add(1)] by (simp add: queue_inv_def pq_sorted_push)
qed (simp_all add: queue_inv_def scheduler_stop_def)

lemma due_inv_step: "idle_step l i j \<Longrightarrow> label_ok l \<Longrightarrow> due_inv i \<Longrightarrow> due_inv j"
proof (induction rule: idle_step.induct)
  case (poll_work i now)
  then show ?case using ready_iff [of now "sched i"] by (auto simp: due_inv_def)
next
  case (repoll i now)
  then show ?case using ready_iff [of now "sched i"] by (auto simp: due_inv_def)
next
  case (run_item i item s')
  have q: "items (sched i) = item # items s'" using run_item(4,5) by (rule next_pop)
  then have "delivery_time item \<le> last_poll i" using run_item by (auto simp: due_inv_def)
  then show ?case using run_item.prems q by (auto simp: due_inv_def)
next
  case (other_add now1 now2 item i s')
  have q: "items s' = pq_push item (items (sched i))" using other_add(1) by (rule items_add)
  show ?case
    using other_add.prems front_push [of "items (sched i)" _ _ "last_poll i" item]
    by (fastforce simp: due_inv_def q)
qed (auto simp: due_inv_def scheduler_stop_def)

lemma queue_inv_run: "idle_run ls i j \<Longrightarrow> queue_inv i \<Longrightarrow> queue_inv j"
  by (induction rule: idle_run.induct) (auto intro: queue_inv_step)

lemma due_inv_run: "idle_run ls i j \<Longrightarrow> list_all label_ok ls \<Longrightarrow> due_inv i \<Longrightarrow> due_inv j"
  by (induction rule: idle_run.induct) (auto intro: due_inv_step)

lemma run_two: "idle_step l i j \<Longrightarrow> idle_run ls j k \<Longrightarrow> idle_run (l # ls) i k"
proof (induction ls arbitrary: k rule: rev_induct)
  case Nil
  then have "j = k" by (auto elim: idle_run.cases)
  then show ?case using idle_run.run_snoc [OF idle_run.run_nil Nil(1)] by simp
next
  case (snoc m ls)
  then obtain k' where "idle_run ls j k'" "idle_step m k' k" by (auto elim: idle_run.cases)
  then have "idle_run ((l # ls) @ [m]) i k" using snoc.IH snoc.prems(1) idle_run.run_snoc by blast
  then show ?case by simp
qed

lemma run_one: "idle_step l i j \<Longrightarrow> idle_run [l] i j"
  using idle_run.run_snoc [OF idle_run.run_nil] by fastforce

text \<open>A run in which one item is added and taken.\<close>

lemma example_run:
  "\<exists>i. idle_run [Added (trigger_item 0 5 1) 0 0, Tau, Tick 10, Tau, Tau, Tau, Tau] (idle_start 0 new_scheduler) i \<and>
     done_items i = [(trigger_item 0 5 1, 10)] \<and> items (sched i) = [] \<and> added i = [trigger_item 0 5 1]"
proof -
  define x where "x = trigger_item 0 5 1"
  have dx: "delivery_time x = 5" by (simp add: x_def trigger_item_def delivery_at_def to_u64_def)
  define s where "s = \<lparr>items = [x], next_time = 5, sch_state = e_waiting, next_delay_time = 5,
    has_thread = False, interrupted = False\<rparr>"
  define i where "i = (\<lambda>st lp rd c. \<lparr>sched = s\<lparr>sch_state := st\<rparr>, last_poll = lp, is_ready = rd, pc = c,
    done_items = [], added = [x]\<rparr>)"
  have tl: "to_long 5 = 5" "to_long (- 5) = - 5" by (simp_all add: to_long_id long_bounds)
  have "scheduler_add 0 0 x (new_scheduler\<lparr>sch_state := e_waiting\<rparr>) = Inr s"
    by (simp add: scheduler_add_def getNextDelay_def new_scheduler_def pq_top_def dx tl s_def)
  then have 1: "idle_step (Added x 0 0) (idle_start 0 new_scheduler) (i e_waiting 0 False Loop)"
    using idle_step.other_add [of 0 0 x "idle_start 0 new_scheduler" s]
    by (simp add: idle_start_def new_scheduler_def i_def s_def)
  have 2: "idle_step Tau (i e_waiting 0 False Loop) (i e_waiting 0 False Poll)"
    using idle_step.loop_body [of "i e_waiting 0 False Loop"]
    by (simp add: i_def s_def getNextDelay_from_def dx tl)
  have rdy: "scheduler_ready 10 (sched (i e_waiting 0 False Poll))"
    by (simp add: scheduler_ready_def getNextDelay_from_def i_def s_def dx tl)
  have 3: "idle_step (Tick 10) (i e_waiting 0 False Poll) (i e_waiting 10 True Signal)"
    using idle_step.poll_work [of "i e_waiting 0 False Poll" 10] rdy by (simp add: i_def)
  have 4: "idle_step Tau (i e_waiting 10 True Signal) (i e_waiting_cw 10 True Await)"
    using idle_step.signal_cw [of "i e_waiting 10 True Signal"] by (simp add: i_def)
  have 5: "idle_step Tau (i e_waiting_cw 10 True Await) (i e_waiting_cw 10 True Receiving)"
    using idle_step.await_cw [of "i e_waiting_cw 10 True Await"] by (simp add: i_def)
  have 6: "idle_step Tau (i e_waiting_cw 10 True Receiving) (i e_running 10 True Run)"
    using idle_step.receive_cw [of "i e_waiting_cw 10 True Receiving"] by (simp add: i_def)
  obtain j where 7: "idle_step Tau (i e_running 10 True Run) j"
    "done_items j = [(x, 10)]" "items (sched j) = []" "added j = [x]"
    using idle_step.run_item [of "i e_running 10 True Run" x]
    by (simp add: i_def s_def scheduler_next_def scheduler_pop_def pq_pop_def)
  have "idle_run [Added x 0 0, Tau, Tick 10, Tau, Tau, Tau, Tau] (idle_start 0 new_scheduler) j"
    using 1 2 3 4 5 6 run_one [OF 7(1)] by (meson run_two)
  then show ?thesis using 7 unfolding x_def by blast
qed

section \<open>Properties\<close>

text \<open>
  Claim C37. However the scheduler's thread and the threads that add items or stop it
  interleave, the queue stays ordered by delivery time and no item is lost or duplicated: the
  items added are those still queued and those the thread has taken.
\<close>

theorem scheduler_keeps_items:
  assumes "idle_run ls (idle_start now s) i" "pq_sorted (items s)"
  shows "pq_sorted (items (sched i)) \<and>
    mset (added i) = mset (items (sched i)) + mset (map fst (done_items i))"
  using queue_inv_run [OF assms(1)] assms(2) by (simp add: queue_inv_def idle_start_def)

theorem scheduler_keeps_items_witness:
  "\<exists>ls i. idle_run ls (idle_start 0 new_scheduler) i \<and> done_items i \<noteq> [] \<and>
     mset (added i) = mset (items (sched i)) + mset (map fst (done_items i))"
proof -
  obtain ls i where run: "idle_run ls (idle_start 0 new_scheduler) i" "done_items i \<noteq> []"
    using example_run by (metis list.distinct(1))
  have "pq_sorted (items new_scheduler)" by (simp add: new_scheduler_def pq_sorted_def)
  then show ?thesis using scheduler_keeps_items [OF run(1)] run by blast
qed

text \<open>
  Claim C38. No item is taken from the queue before its delivery time, as the clock stood when
  the thread last read it, in any interleaving whose times are below \<open>2^63\<close>. In particular an
  item that another thread inserts between the test and the removal is due as well.
\<close>

theorem scheduler_never_early:
  assumes "idle_run ls (idle_start now new_scheduler) i" "list_all label_ok ls" "time_ok now"
    and "(x, t) \<in> set (done_items i)"
  shows "delivery_time x \<le> t"
proof -
  have "due_inv (idle_start now new_scheduler)"
    using assms(3) by (simp add: due_inv_def idle_start_def new_scheduler_def)
  then have "due_inv i" using due_inv_run assms(1,2) by blast
  then show ?thesis using assms(4) by (auto simp: due_inv_def)
qed

theorem scheduler_never_early_witness:
  "\<exists>ls i x. idle_run ls (idle_start 0 new_scheduler) i \<and> list_all label_ok ls \<and>
     (x, 10) \<in> set (done_items i) \<and> delivery_time x \<le> 10"
proof -
  define ls where "ls = [Added (trigger_item 0 5 1) 0 0, Tau, Tick 10, Tau, Tau, Tau, Tau]"
  obtain i where run: "idle_run ls (idle_start 0 new_scheduler) i" "done_items i = [(trigger_item 0 5 1, 10)]"
    using example_run unfolding ls_def by blast
  have "list_all label_ok ls"
    by (simp add: ls_def time_ok_def trigger_item_def delivery_at_def to_u64_def LONG_MAX_def)
  moreover have "(trigger_item 0 5 1, 10) \<in> set (done_items i)" using run(2) by simp
  moreover have "time_ok 0" by (simp add: time_ok_def LONG_MAX_def)
  ultimately show ?thesis using scheduler_never_early run(1) by blast
qed

text \<open>
  Pushing an item keeps the queue ordered, adds that item and nothing else, and puts
  it behind every item with the same delivery time: items due at the same time are delivered
  in the order they were scheduled.
\<close>

lemma push_ordered_and_stable:
  assumes "pq_sorted q"
  shows "pq_sorted (pq_push x q) \<and> mset (pq_push x q) = add_mset x (mset q) \<and>
    filter (\<lambda>y. delivery_time y = d) (pq_push x q) =
      filter (\<lambda>y. delivery_time y = d) q @ (if delivery_time x = d then [x] else [])"
proof -
  have "filter (\<lambda>y. delivery_time y = d) (pq_push x q) =
      filter (\<lambda>y. delivery_time y = d) q @ (if delivery_time x = d then [x] else [])"
    using assms
  proof (induction q)
    case (Cons y q)
    show ?case
    proof (cases "item_less x y")
      case True
      then have "filter (\<lambda>z. delivery_time z = delivery_time x) (y # q) = []"
        using Cons.prems by (fastforce simp: pq_sorted_def item_less_def filter_empty_conv)
      then show ?thesis using True by auto
    qed (use Cons in \<open>auto simp: pq_sorted_def\<close>)
  qed simp
  then show ?thesis using due_items.ok_push [OF assms] by simp
qed

text \<open>
  Taking items as long as the front of the queue is due takes exactly the items that
  are due, in the order of their delivery times, and leaves exactly the others.
\<close>

lemma drain_takes_due_items:
  assumes "pq_sorted q" "due_items.drain (length q) now q = (taken, rest)"
  shows "mset taken = filter_mset (\<lambda>x. delivery_time x \<le> now) (mset q) \<and>
    mset rest = filter_mset (\<lambda>x. \<not> delivery_time x \<le> now) (mset q) \<and>
    sorted (map delivery_time taken) \<and> pq_sorted rest"
  using due_items.drain_exact [OF assms(1) _ assms(2)] by simp

text \<open>
  An item added with an earlier delivery time than everything queued interrupts the
  sleep of the scheduler's thread, and the thread's delay becomes the time left to that item.
\<close>

lemma earlier_item_wakes_thread:
  assumes "items s \<noteq> []" "\<forall>x \<in> set (items s). delivery_time item < delivery_time x" "has_thread s"
    and "\<forall>x \<in> set (item # items s). time_ok (delivery_time x)" "time_ok now1" "time_ok now2" "now1 \<le> now2"
  shows "\<exists>s'. scheduler_add now1 now2 item s = Inr s' \<and> interrupted s' \<and>
    items s' = item # items s \<and> next_delay_time s' = delivery_time item - now2"
proof -
  obtain y ys where q: "items s = y # ys" using assms(1) by (cases "items s") auto
  have "to_long (delivery_time y - now1) = delivery_time y - now1"
    "to_long (delivery_time item - now2) = delivery_time item - now2"
    using assms(4-6) q by (simp_all add: to_long_difference)
  then show ?thesis using assms(2,3,7) q
    by (simp add: scheduler_add_def getNextDelay_def pq_top_def item_less_def)
qed

text \<open>
  A request to stop is lost exactly when the scheduler's thread is waiting for the
  driver, before or after running the due items: the thread then overwrites the state that
  \<open>stop\<close> set. Every other step keeps it.
\<close>

lemma stop_lost_iff_waiting_for_driver:
  assumes "sch_state (sched i) = e_aborted" "idle_step l i j"
  shows "sch_state (sched j) \<noteq> e_aborted \<longleftrightarrow> l = Tau \<and> (pc i = Receiving \<or> pc i = Acknowledge)"
proof -
  have add: "sch_state s' = sch_state s" if "scheduler_add now1 now2 item s = Inr s'" for now1 now2 item s s'
    using that by (auto simp: scheduler_add_def getNextDelay_def bindr_Inr_iff Let_def split: list.splits if_splits)
  show ?thesis
    using assms(2,1) by (cases rule: idle_step.cases) (auto simp: add scheduler_stop_def)
qed

text \<open>
  \<open>PriorityQueue::check\<close> accepts every ordered queue, and more: it compares each
  item with the first one only, so a queue whose tail is out of order passes as long as no item
  is earlier than the first.
\<close>

lemma queue_check_compares_with_first:
  "pq_check q = (if (\<forall>x \<in> set q. delivery_time (hd q) \<le> delivery_time x) then Inr True else Inl AssertFailed)"
proof -
  have "check_from (Some p) xs = (if (\<forall>x \<in> set xs. delivery_time p \<le> delivery_time x) then Inr True else Inl AssertFailed)" for p xs
    by (induction xs) (auto simp: item_ge_def)
  then show ?thesis by (cases q) (simp_all add: pq_check_def)
qed

end
