(* ===== verification/Cw_Ring.thy ===== *)
theory Cw_Ring
  imports Cw_Double
begin

text \<open>
  The index arithmetic that the sample buffers of \<open>src/iod/src/buffering.c\<close> and
  \<open>src/iod/src/filtering.cpp\<close> share: a position \<open>front\<close> of the newest sample, a position
  \<open>back\<close> of the oldest one, both \<open>-1\<close> in an empty buffer, and arrays of a fixed size. The
  history of a buffer is the list of its samples, newest first; appending to a buffer appends
  to the history and drops what no longer fits. That contract is the locale
  \<open>sample_history\<close>.
\<close>

section \<open>Positions\<close>

record ring =
  bufsize :: int
  front :: int
  "back" :: int

definition to_u32 :: "int \<Rightarrow> int" where
  "to_u32 i = i mod 4294967296"

text \<open>\<open>(front - back + bufsize) % bufsize + 1\<close>, and zero for an empty buffer.\<close>

definition ring_length :: "'a ring_scheme \<Rightarrow> int" where
  "ring_length r = (if front r = - 1 then 0 else to_u32 (front r - back r + bufsize r) mod bufsize r + 1)"

text \<open>\<open>(front + bufsize - n) % bufsize\<close>.\<close>

definition ring_slot :: "'a ring_scheme \<Rightarrow> int \<Rightarrow> int" where
  "ring_slot r n = to_u32 (front r + bufsize r - n) mod bufsize r"

text \<open>The next position of the newest sample, and the position of the oldest one after it.\<close>

definition next_front :: "'a ring_scheme \<Rightarrow> int" where
  "next_front r = to_u32 (front r + 1) mod bufsize r"

definition next_back :: "'a ring_scheme \<Rightarrow> int" where
  "next_back r = (if next_front r = back r \<or> back r = - 1 then to_u32 (back r + 1) mod bufsize r else back r)"

definition ring_advance :: "'a ring_scheme \<Rightarrow> 'a ring_scheme" where
  "ring_advance r = r\<lparr>front := next_front r, back := next_back r\<rparr>"

text \<open>An access to an array cell, which may never have been written.\<close>

definition read_cell :: "'v option list \<Rightarrow> int \<Rightarrow> 'v res" where
  "read_cell cells i = (if 0 \<le> i \<and> i < int (length cells) then read_field (cells ! nat i) else Inl OutOfRange)"

definition write_cell :: "'v option list \<Rightarrow> int \<Rightarrow> 'v \<Rightarrow> 'v option list res" where
  "write_cell cells i v = (if 0 \<le> i \<and> i < int (length cells) then Inr (cells[nat i := Some v]) else Inl OutOfRange)"

text \<open>Either nothing was appended, or the cells up to \<open>front\<close>, or every cell.\<close>

definition ring_inv :: "'a ring_scheme \<Rightarrow> bool" where
  "ring_inv r \<longleftrightarrow> 0 < bufsize r \<and> bufsize r \<le> INT_MAX \<and>
     (front r = - 1 \<and> back r = - 1
      \<or> 0 \<le> front r \<and> front r < bufsize r \<and> (back r = 0 \<or> back r = (front r + 1) mod bufsize r))"

text \<open>The cells of the samples, newest first.\<close>

definition ring_list :: "'a ring_scheme \<Rightarrow> 'v list \<Rightarrow> 'v list" where
  "ring_list r cells = map (\<lambda>i. cells ! nat (ring_slot r (int i))) [0..<nat (ring_length r)]"

section \<open>The interface of a buffer that remembers the last samples\<close>

locale sample_history =
  fixes append_sample :: "'x \<Rightarrow> 'b \<Rightarrow> 'b res"
    and stored :: "'x \<Rightarrow> 'y"
    and history :: "'b \<Rightarrow> 'y list"
    and capacity :: "'b \<Rightarrow> nat"
    and buffer_ok :: "'b \<Rightarrow> bool"
  assumes append_ok: "buffer_ok b \<Longrightarrow> \<exists>b'. append_sample x b = Inr b' \<and> buffer_ok b' \<and>
      capacity b' = capacity b \<and> history b' = take (capacity b) (stored x # history b)"
begin

primrec append_all :: "'x list \<Rightarrow> 'b \<Rightarrow> 'b res" where
  "append_all [] b = Inr b"
| "append_all (x # xs) b = bindr (append_sample x b) (append_all xs)"

lemma append_all_history:
  assumes "buffer_ok b" "length (history b) \<le> capacity b"
  shows "\<exists>b'. append_all xs b = Inr b' \<and> buffer_ok b' \<and> capacity b' = capacity b \<and>
    history b' = take (capacity b) (rev (map stored xs) @ history b)"
  using assms
proof (induction xs arbitrary: b)
  case (Cons x xs)
  obtain b1 where b1: "append_sample x b = Inr b1" "buffer_ok b1" "capacity b1 = capacity b"
    "history b1 = take (capacity b) (stored x # history b)"
    using append_ok [OF Cons.prems(1)] by blast
  obtain b' where b': "append_all xs b1 = Inr b'" "buffer_ok b'" "capacity b' = capacity b1"
    "history b' = take (capacity b1) (rev (map stored xs) @ history b1)"
    using Cons.IH [OF b1(2)] b1(3,4) by auto
  have "take (capacity b) (rev (map stored xs) @ take (capacity b) (stored x # history b)) =
      take (capacity b) (rev (map stored xs) @ stored x # history b)"
    by (simp add: take_take min_def)
  then show ?case using b1 b' by simp
qed simp

end

section \<open>Lemmas\<close>

lemma to_u32_id: "0 \<le> i \<Longrightarrow> i < 4294967296 \<Longrightarrow> to_u32 i = i"
  by (simp add: to_u32_def)

lemma ring_inv_size: "ring_inv r \<Longrightarrow> 0 < bufsize r \<and> bufsize r \<le> 2147483647"
  by (simp add: ring_inv_def INT_MAX_def)

lemma ring_length_empty: "front r = - 1 \<Longrightarrow> ring_length r = 0"
  by (simp add: ring_length_def)

lemma ring_length_partial:
  "ring_inv r \<Longrightarrow> 0 \<le> front r \<Longrightarrow> back r = 0 \<Longrightarrow> ring_length r = front r + 1"
  using ring_inv_size [of r] by (auto simp: ring_length_def ring_inv_def to_u32_id)

lemma ring_length_full:
  assumes "ring_inv r" "0 \<le> front r" "back r = (front r + 1) mod bufsize r"
  shows "ring_length r = bufsize r"
proof (cases "front r + 1 = bufsize r")
  case True
  then have "back r = 0" using assms(3) by simp
  then show ?thesis using ring_length_partial [OF assms(1,2)] True by simp
next
  case False
  then have "back r = front r + 1" using assms ring_inv_size [of r] by (auto simp: ring_inv_def)
  then have "to_u32 (front r - back r + bufsize r) mod bufsize r = bufsize r - 1"
    using ring_inv_size [OF assms(1)] by (simp only: to_u32_id [of "bufsize r - 1"] mod_pos_pos_trivial
        diff_add_eq diff_diff_eq2) (simp add: to_u32_id mod_pos_pos_trivial zmod_minus1)
  then show ?thesis using assms(2) by (simp add: ring_length_def)
qed

lemma ring_length_bounds:
  assumes "ring_inv r"
  shows "0 \<le> ring_length r" "ring_length r \<le> bufsize r" "ring_length r = 0 \<longleftrightarrow> front r = - 1"
proof -
  have "front r = - 1 \<or> ring_length r = front r + 1 \<and> 0 \<le> front r \<and> front r < bufsize r
      \<or> ring_length r = bufsize r \<and> 0 \<le> front r"
    using assms ring_length_partial ring_length_full by (fastforce simp: ring_inv_def)
  then show "0 \<le> ring_length r" "ring_length r \<le> bufsize r" "ring_length r = 0 \<longleftrightarrow> front r = - 1"
    using ring_inv_size [OF assms] by (auto simp: ring_length_empty)
qed

lemma ring_slot_simps:
  assumes "ring_inv r" "0 \<le> front r" "0 \<le> i" "i < bufsize r"
  shows "ring_slot r i = (if i \<le> front r then front r - i else front r + bufsize r - i)"
proof -
  have f: "front r < bufsize r" "bufsize r \<le> 2147483647" using assms ring_inv_size [of r] by (auto simp: ring_inv_def)
  then have "ring_slot r i = (front r + bufsize r - i) mod bufsize r"
    using assms by (simp add: ring_slot_def to_u32_id)
  also have "\<dots> = (if i \<le> front r then front r - i else front r + bufsize r - i)"
  proof (cases "i \<le> front r")
    case True
    then have "(front r - i + bufsize r) mod bufsize r = front r - i"
      using assms f by (simp only: mod_add_self2) (simp add: mod_pos_pos_trivial)
    then show ?thesis using True by (simp add: algebra_simps)
  qed (use assms f in \<open>simp add: mod_pos_pos_trivial\<close>)
  finally show ?thesis .
qed

lemma next_front_simps:
  assumes "ring_inv r"
  shows "next_front r = (if front r + 1 = bufsize r then 0 else front r + 1)"
proof -
  have "to_u32 (front r + 1) = front r + 1"
    using assms ring_inv_size [OF assms] by (intro to_u32_id) (auto simp: ring_inv_def)
  then show ?thesis using assms ring_inv_size [OF assms]
    by (auto simp: next_front_def ring_inv_def mod_pos_pos_trivial)
qed

lemma next_front_range: "ring_inv r \<Longrightarrow> 0 \<le> next_front r \<and> next_front r < bufsize r"
  by (auto simp: next_front_simps ring_inv_def)

lemma ring_advance_simps [simp]:
  "bufsize (ring_advance r) = bufsize r" "front (ring_advance r) = next_front r" "back (ring_advance r) = next_back r"
  by (simp_all add: ring_advance_def)

text \<open>The three phases of a buffer: empty, filling, full.\<close>

lemma ring_phases:
  assumes "ring_inv r"
  obtains (empty) "front r = - 1" "back r = - 1" "next_front r = 0" "next_back r = 0"
  | (filling) "0 \<le> front r" "front r + 1 < bufsize r" "back r = 0" "next_front r = front r + 1" "next_back r = 0"
  | (full) "0 \<le> front r" "front r < bufsize r" "back r = next_front r" "next_back r = (next_front r + 1) mod bufsize r"
proof -
  have size: "0 < bufsize r" "bufsize r \<le> 2147483647" using ring_inv_size [OF assms] by auto
  consider "front r = - 1" "back r = - 1"
    | "0 \<le> front r" "front r + 1 < bufsize r" "back r = 0"
    | "0 \<le> front r" "front r < bufsize r" "back r = (front r + 1) mod bufsize r"
    using assms by (cases "front r + 1 = bufsize r"; auto simp: ring_inv_def)
  then show ?thesis
  proof cases
    case 1
    then show ?thesis using empty next_front_simps [OF assms] size by (simp add: next_back_def to_u32_def)
  next
    case 2
    then show ?thesis using filling next_front_simps [OF assms] by (simp add: next_back_def)
  next
    case 3
    then have nf: "back r = next_front r" using next_front_simps [OF assms] by auto
    have "0 \<le> next_front r" "next_front r < bufsize r" using next_front_range [OF assms] by auto
    then have "next_back r = (next_front r + 1) mod bufsize r"
      using nf size by (simp add: next_back_def to_u32_id)
    then show ?thesis using full 3 nf by blast
  qed
qed

lemma ring_inv_advance: "ring_inv r \<Longrightarrow> ring_inv (ring_advance r)"
proof -
  assume inv: "ring_inv r"
  from inv have "back (ring_advance r) = 0 \<or> back (ring_advance r) = (next_front r + 1) mod bufsize r"
    by (cases rule: ring_phases) auto
  then show ?thesis using inv next_front_range [OF inv] ring_inv_size [OF inv] by (simp add: ring_inv_def INT_MAX_def)
qed

lemma ring_length_advance:
  assumes "ring_inv r"
  shows "ring_length (ring_advance r) = min (bufsize r) (ring_length r + 1)"
  using assms
proof (cases rule: ring_phases)
  case empty
  then show ?thesis using ring_length_partial [OF ring_inv_advance [OF assms]] ring_inv_size [OF assms]
    by (simp add: ring_length_empty)
next
  case filling
  then show ?thesis using ring_length_partial [OF ring_inv_advance [OF assms]] ring_length_partial [OF assms] by simp
next
  case full
  then have "ring_length (ring_advance r) = bufsize r"
    using ring_length_full [OF ring_inv_advance [OF assms]] next_front_range [OF assms] by simp
  moreover have "back r = (front r + 1) mod bufsize r"
    using full next_front_simps [OF assms] by auto
  then have "ring_length r = bufsize r" using ring_length_full [OF assms full(1)] by simp
  ultimately show ?thesis by simp
qed

lemma ring_slot_advance:
  assumes "ring_inv r" "0 \<le> front r" "0 \<le> i" "i + 1 < bufsize r"
  shows "ring_slot (ring_advance r) (i + 1) = ring_slot r i"
  using assms next_front_range [OF assms(1)] next_front_simps [OF assms(1)]
  by (auto simp: ring_slot_simps ring_inv_advance ring_inv_def [of r])

lemma ring_slot_0: "ring_inv r \<Longrightarrow> 0 \<le> front r \<Longrightarrow> ring_slot r 0 = front r"
  using ring_inv_size [of r] by (simp add: ring_slot_simps)

lemma ring_slot_range:
  "ring_inv r \<Longrightarrow> 0 \<le> front r \<Longrightarrow> 0 \<le> i \<Longrightarrow> i < bufsize r \<Longrightarrow> 0 \<le> ring_slot r i \<and> ring_slot r i < bufsize r"
  by (auto simp: ring_slot_simps ring_inv_def)

lemma ring_slot_old:
  assumes "ring_inv r" "0 \<le> front r" "0 \<le> i" "i + 1 < bufsize r"
  shows "ring_slot r i \<noteq> next_front r"
  using assms next_front_simps [OF assms(1)] by (auto simp: ring_slot_simps ring_inv_def)

text \<open>Appending a sample, seen on the history.\<close>

lemma ring_list_advance:
  assumes inv: "ring_inv r" and len: "int (length cells) = bufsize r"
  shows "ring_list (ring_advance r) (cells[nat (next_front r) := x]) = take (nat (bufsize r)) (x # ring_list r cells)"
proof (rule nth_equalityI)
  have l: "nat (ring_length (ring_advance r)) = min (nat (bufsize r)) (Suc (nat (ring_length r)))"
    using ring_length_advance [OF inv] ring_length_bounds [OF inv] ring_inv_size [OF inv] by simp
  then show "length (ring_list (ring_advance r) (cells[nat (next_front r) := x])) =
      length (take (nat (bufsize r)) (x # ring_list r cells))"
    by (simp add: ring_list_def min.commute)
  fix i
  assume "i < length (ring_list (ring_advance r) (cells[nat (next_front r) := x]))"
  then have i: "i < nat (bufsize r)" "i < Suc (nat (ring_length r))" using l by (auto simp: ring_list_def)
  have inv': "ring_inv (ring_advance r)" using inv by (rule ring_inv_advance)
  have nf: "0 \<le> next_front r" "nat (next_front r) < length cells" using next_front_range [OF inv] len by auto
  show "ring_list (ring_advance r) (cells[nat (next_front r) := x]) ! i =
      take (nat (bufsize r)) (x # ring_list r cells) ! i"
  proof (cases i)
    case 0
    then show ?thesis using i l nf ring_slot_0 [OF inv'] by (simp add: ring_list_def)
  next
    case (Suc j)
    then have j: "int j < ring_length r" "int j + 1 < bufsize r" "0 \<le> front r"
      using i ring_length_bounds [OF inv] inv by (auto simp: ring_inv_def)
    have "ring_slot (ring_advance r) (int i) = ring_slot r (int j)"
      using ring_slot_advance [OF inv j(3) _ j(2)] Suc by (simp add: add.commute)
    moreover have "nat (ring_slot r (int j)) \<noteq> nat (next_front r)"
      using ring_slot_old [OF inv j(3) _ j(2)] ring_slot_range [OF inv j(3), of "int j"] nf j by auto
    ultimately show ?thesis using i l Suc j by (simp add: ring_list_def)
  qed
qed

lemma ring_slot_last:
  assumes "ring_inv r" "0 \<le> front r"
  shows "ring_slot r (ring_length r - 1) = back r"
  using assms(1)
proof (cases rule: ring_phases)
  case filling
  then show ?thesis using ring_length_partial [OF assms] ring_slot_simps [OF assms, of "front r"] by simp
next
  case full
  then have "back r = (front r + 1) mod bufsize r" using next_front_simps [OF assms(1)] by auto
  then have "ring_length r = bufsize r" using ring_length_full [OF assms] by simp
  then show ?thesis using full ring_slot_simps [OF assms, of "bufsize r - 1"] next_front_simps [OF assms(1)] by simp
qed (use assms in simp)

lemma ring_list_cong: "front r = front s \<Longrightarrow> back r = back s \<Longrightarrow> bufsize r = bufsize s \<Longrightarrow> ring_list r cells = ring_list s cells"
  by (simp add: ring_list_def ring_length_def ring_slot_def)

lemma length_ring_list [simp]: "length (ring_list r cells) = nat (ring_length r)"
  by (simp add: ring_list_def)

lemma ring_list_nth: "i < nat (ring_length r) \<Longrightarrow> ring_list r cells ! i = cells ! nat (ring_slot r (int i))"
  by (simp add: ring_list_def)

lemma write_cell_in: "0 \<le> i \<Longrightarrow> i < int (length cells) \<Longrightarrow> write_cell cells i v = Inr (cells[nat i := Some v])"
  by (simp add: write_cell_def)

lemma ring_list_update_set: "set (take n (Some x # ring_list r cells)) \<subseteq> insert (Some x) (set (ring_list r cells))"
  using set_take_subset [of n "Some x # ring_list r cells"] by simp

text \<open>Walking from a slot to the next older one.\<close>

lemma ring_older_slot:
  assumes inv: "ring_inv b" and j: "Suc j < nat (ring_length b)"
  shows "(if ring_slot b (int j) - 1 = - 1 then bufsize b - 1 else ring_slot b (int j) - 1) = ring_slot b (int (Suc j))"
    "(ring_slot b (int (Suc j)) + 1) mod bufsize b = ring_slot b (int j)"
    "ring_slot b (int j) \<noteq> back b" "ring_slot b (int (Suc j)) \<noteq> front b"
    "0 \<le> ring_slot b (int (Suc j))" "ring_slot b (int (Suc j)) < bufsize b"
proof -
  have f: "0 \<le> front b" "front b < bufsize b" "int (Suc j) < bufsize b" "int (Suc j) < ring_length b"
    using ring_length_bounds [OF inv] inv j by (auto simp: ring_inv_def)
  have sj: "ring_slot b (int j) = (if int j \<le> front b then front b - int j else front b + bufsize b - int j)"
    "ring_slot b (int (Suc j)) = (if int (Suc j) \<le> front b then front b - int (Suc j) else front b + bufsize b - int (Suc j))"
    using f by (auto simp only: ring_slot_simps [OF inv f(1)])
  show "(if ring_slot b (int j) - 1 = - 1 then bufsize b - 1 else ring_slot b (int j) - 1) = ring_slot b (int (Suc j))"
    "ring_slot b (int (Suc j)) \<noteq> front b" "0 \<le> ring_slot b (int (Suc j))" "ring_slot b (int (Suc j)) < bufsize b"
    using sj f by auto
  show "(ring_slot b (int (Suc j)) + 1) mod bufsize b = ring_slot b (int j)"
  proof (cases "int j = front b")
    case True
    then have "ring_slot b (int (Suc j)) + 1 = bufsize b" "ring_slot b (int j) = 0" using sj by auto
    then show ?thesis by simp
  next
    case False
    then have "ring_slot b (int (Suc j)) + 1 = ring_slot b (int j)" "0 \<le> ring_slot b (int j)" "ring_slot b (int j) < bufsize b"
      using sj f by auto
    then show ?thesis by (simp add: mod_pos_pos_trivial)
  qed
  have "ring_slot b (ring_length b - 1) = back b" using ring_slot_last [OF inv f(1)] .
  moreover have "ring_slot b (ring_length b - 1) =
      (if ring_length b - 1 \<le> front b then front b - (ring_length b - 1) else front b + bufsize b - (ring_length b - 1))"
    using ring_slot_simps [OF inv f(1), of "ring_length b - 1"] ring_length_bounds [OF inv] f by auto
  ultimately show "ring_slot b (int j) \<noteq> back b"
    using sj f ring_length_bounds(2) [OF inv] by (auto split: if_splits)
qed

end
