(* ===== verification/Cw_Buffers.thy ===== *)
theory Cw_Buffers
  imports Cw_Ring
begin

text \<open>
  The circular buffer of timed samples of \<open>src/iod/src/buffering.h\<close> and \<open>buffering.c\<close>. The
  arrays \<open>values\<close> and \<open>times\<close> are allocated and not initialised, so a cell is an option.
  Reading an empty buffer ends in \<open>assert\<close>. The functions are shown to be functions of the
  history of the buffer alone.
\<close>

section \<open>The buffer\<close>

record circular_buffer = ring +
  buf_total :: double
  buf_values :: "double option list"
  buf_times :: "int option list"

definition createBuffer :: "int \<Rightarrow> circular_buffer option" where
  "createBuffer n =
     (if n \<le> 0 then None
      else Some \<lparr>bufsize = n, front = - 1, back = - 1, buf_total = dzero False,
                 buf_values = replicate (nat n) None, buf_times = replicate (nat n) None\<rparr>)"

definition bufferLength :: "circular_buffer \<Rightarrow> int" where
  "bufferLength buf = ring_length buf"

definition buffer_size :: "circular_buffer \<Rightarrow> int" where
  "buffer_size buf = bufsize buf"

definition bufferIndexFor :: "circular_buffer \<Rightarrow> int \<Rightarrow> int res" where
  "bufferIndexFor buf i =
     (let l = bufferLength buf
      in if l = 0 then Inl AssertFailed
         else if l \<le> i then Inr (back buf)
         else Inr (ring_slot buf i))"

definition addSample :: "circular_buffer \<Rightarrow> int \<Rightarrow> double \<Rightarrow> circular_buffer res" where
  "addSample buf time val =
     bindr (if next_front buf = back buf
            then mapr (dsub (buf_total buf)) (read_cell (buf_values buf) (next_front buf))
            else Inr (buf_total buf)) (\<lambda>total.
     bindr (write_cell (buf_values buf) (next_front buf) val) (\<lambda>vs.
     bindr (write_cell (buf_times buf) (next_front buf) (to_u64 time)) (\<lambda>ts.
     Inr ((ring_advance buf)\<lparr>buf_total := dadd total val, buf_values := vs, buf_times := ts\<rparr>))))"

definition setBufferValue :: "circular_buffer \<Rightarrow> double \<Rightarrow> circular_buffer res" where
  "setBufferValue buf val = mapr (\<lambda>vs. buf\<lparr>buf_values := vs\<rparr>) (write_cell (buf_values buf) (front buf) val)"

text \<open>\<open>addSampleDebug\<close> passes the value as the time and the time as the value.\<close>

definition addSampleDebug :: "circular_buffer \<Rightarrow> int \<Rightarrow> double \<Rightarrow> circular_buffer res" where
  "addSampleDebug buf time val = bindr (long_of_dbl val) (\<lambda>t. addSample buf t (dbl_of_int time))"

section \<open>Reading\<close>

definition getBufferValue :: "circular_buffer \<Rightarrow> int \<Rightarrow> double res" where
  "getBufferValue buf n = bindr (bufferIndexFor buf n) (read_cell (buf_values buf))"

definition getBufferTime :: "circular_buffer \<Rightarrow> int \<Rightarrow> int res" where
  "getBufferTime buf n = bindr (bufferIndexFor buf n) (\<lambda>i. mapr to_long (read_cell (buf_times buf) i))"

definition getTime :: "circular_buffer \<Rightarrow> int \<Rightarrow> double res" where
  "getTime buf n = mapr dbl_of_int (read_cell (buf_times buf) (ring_slot buf n))"

definition rate_between :: "circular_buffer \<Rightarrow> int \<Rightarrow> double res" where
  "rate_between buf idx =
     bindr (read_cell (buf_values buf) idx) (\<lambda>v1. bindr (read_cell (buf_values buf) (front buf)) (\<lambda>v2.
     bindr (read_cell (buf_times buf) idx) (\<lambda>t1. bindr (read_cell (buf_times buf) (front buf)) (\<lambda>t2.
     let ds = dsub v2 v1; dt = dsub (dbl_of_int t2) (dbl_of_int t1)
     in Inr (if deq dt (dzero False) then dzero False else ddiv ds dt)))))"

definition rate :: "circular_buffer \<Rightarrow> int \<Rightarrow> double res" where
  "rate buf n =
     (if front buf = back buf \<or> back buf = - 1 then Inr (dzero False)
      else bindr (bufferIndexFor buf n) (rate_between buf))"

definition rateDebug :: "circular_buffer \<Rightarrow> double res" where
  "rateDebug buf =
     (if front buf = back buf \<or> back buf = - 1 then Inr (dzero False) else rate_between buf (back buf))"

text \<open>The loop of \<open>findMovement\<close>, which walks from the newest sample to the oldest.\<close>

function move_back :: "circular_buffer \<Rightarrow> double \<Rightarrow> double \<Rightarrow> int \<Rightarrow> int \<Rightarrow> int \<Rightarrow> int res" where
  "move_back buf current amount max_len idx n =
     (if idx \<noteq> back buf \<and> n < max_len
      then (let idx' = (if idx - 1 = - 1 then bufsize buf - 1 else idx - 1); n' = n + 1
            in case read_cell (buf_values buf) idx' of
                 Inl e \<Rightarrow> Inl e
               | Inr v \<Rightarrow> if dle amount (dabs (dsub current v)) then Inr n'
                         else move_back buf current amount max_len idx' n')
      else Inr n)"
  by auto
termination
  by (relation "measure (\<lambda>(buf, current, amount, max_len, idx, n). nat (max_len - n))") auto

declare move_back.simps [simp del]

definition findMovement :: "circular_buffer \<Rightarrow> double \<Rightarrow> int \<Rightarrow> int res" where
  "findMovement buf amount max_len =
     (if bufferLength buf = 0 then Inl AssertFailed
      else bindr (read_cell (buf_values buf) (front buf)) (\<lambda>current.
           move_back buf current amount max_len (front buf) 0))"

text \<open>The sum of the \<open>k\<close> newest samples, added from the oldest of them.\<close>

primrec sum_down :: "circular_buffer \<Rightarrow> nat \<Rightarrow> double \<Rightarrow> double res" where
  "sum_down buf 0 tot = Inr tot"
| "sum_down buf (Suc k) tot = bindr (getBufferValue buf (int k)) (\<lambda>v. sum_down buf k (dadd tot v))"

definition bufferSum :: "circular_buffer \<Rightarrow> int \<Rightarrow> double res" where
  "bufferSum buf n = sum_down buf (nat (min n (bufferLength buf))) (dzero False)"

definition bufferAverage :: "circular_buffer \<Rightarrow> int \<Rightarrow> double res" where
  "bufferAverage buf n =
     (let m = min n (bufferLength buf)
      in if m = 0 then Inr (dzero False) else mapr (\<lambda>s. ddiv s (dbl_of_int m)) (bufferSum buf m))"

primrec squares_down :: "circular_buffer \<Rightarrow> double \<Rightarrow> nat \<Rightarrow> double \<Rightarrow> double res" where
  "squares_down buf avg 0 r = Inr r"
| "squares_down buf avg (Suc k) r = bindr (getBufferValue buf (int k)) (\<lambda>v.
     let val = dsub v avg in squares_down buf avg k (dadd r (dmul val val)))"

definition bufferStddev :: "circular_buffer \<Rightarrow> int \<Rightarrow> double res" where
  "bufferStddev buf n =
     (let m = min n (bufferLength buf)
      in if m \<le> 1 then Inr (dzero False)
         else bindr (bufferAverage buf m) (\<lambda>avg.
              mapr (\<lambda>r. dsqrt (ddiv r (dbl_of_int (m - 1)))) (squares_down buf avg (nat m) (dzero False))))"

text \<open>
  The loop of \<open>getBufferValueAt\<close>: the position of the last sample before time \<open>t\<close> and the
  position after it. \<open>None\<close> when the fuel is used up.
\<close>

primrec seek_time :: "nat \<Rightarrow> circular_buffer \<Rightarrow> int \<Rightarrow> int \<Rightarrow> int \<Rightarrow> (int \<times> int) option res" where
  "seek_time 0 buf t idx nxt = Inr None"
| "seek_time (Suc k) buf t idx nxt = bindr (read_cell (buf_times buf) nxt) (\<lambda>tn.
     if tn < t then seek_time k buf t nxt (to_u32 (nxt + 1) mod bufsize buf) else Inr (Some (idx, nxt)))"

definition interpolate :: "circular_buffer \<Rightarrow> int \<Rightarrow> int \<Rightarrow> int \<Rightarrow> double res" where
  "interpolate buf t idx nxt =
     bindr (read_cell (buf_times buf) nxt) (\<lambda>t2. bindr (read_cell (buf_times buf) idx) (\<lambda>t1.
     bindr (read_cell (buf_values buf) idx) (\<lambda>v1. bindr (read_cell (buf_values buf) nxt) (\<lambda>v2.
     let dt = dbl_of_int (to_u64 (t2 - t1)); scale = ddiv (dbl_of_int (to_u64 (t - t1))) dt
     in Inr (dadd v1 (dmul scale (dsub v2 v1)))))))"

text \<open>As many turns as there are cells reach the newest sample.\<close>

definition getBufferValueAt :: "circular_buffer \<Rightarrow> int \<Rightarrow> double option res" where
  "getBufferValueAt buf t =
     bindr (bufferIndexFor buf (bufferLength buf - 1)) (\<lambda>idx.
     bindr (read_cell (buf_times buf) idx) (\<lambda>t0.
     if t \<le> t0 then mapr Some (read_cell (buf_values buf) idx)
     else bindr (read_cell (buf_times buf) (front buf)) (\<lambda>t1.
     if t1 \<le> t then mapr Some (read_cell (buf_values buf) (front buf))
     else bindr (seek_time (nat (bufsize buf)) buf t idx (to_u32 (idx + 1) mod bufsize buf)) (\<lambda>r. case r of
            None \<Rightarrow> Inr None
          | Some (i, nxt) \<Rightarrow> mapr Some (interpolate buf t i nxt)))))"

text \<open>The sums of \<open>slope\<close> over \<open>i = k, ..., 1\<close>.\<close>

primrec slope_sums :: "circular_buffer \<Rightarrow> int \<Rightarrow> double \<Rightarrow> nat \<Rightarrow> double \<times> double \<times> double \<times> double \<Rightarrow>
    (double \<times> double \<times> double \<times> double) res" where
  "slope_sums buf n t0 0 sums = Inr sums"
| "slope_sums buf n t0 (Suc k) sums =
     (let (sx, sy, sxx, sxy) = sums
      in bindr (getBufferValue buf (int (Suc k))) (\<lambda>v. bindr (getBufferValue buf n) (\<lambda>vn.
         bindr (getTime buf (int (Suc k))) (\<lambda>t.
         let y = dsub v vn; x = dsub t t0
         in slope_sums buf n t0 k (dadd sx x, dadd sy y, dadd sxx (dmul x x), dadd sxy (dmul x y))))))"

definition slope :: "circular_buffer \<Rightarrow> double res" where
  "slope buf =
     (let n = bufferLength buf - 1; z = dzero False
      in bindr (getTime buf n) (\<lambda>t0.
         bindr (slope_sums buf n t0 (nat (n - 1)) (z, z, z, z)) (\<lambda>(sx, sy, sxx, sxy).
         let dn = dbl_of_int n; denom = dsub (dmul dn sxx) (dmul sx sx)
         in Inr (if dne denom z then ddiv (dsub (dmul dn sxy) (dmul sx sy)) denom else z))))"

primrec convolve :: "circular_buffer \<Rightarrow> double list \<Rightarrow> nat \<Rightarrow> nat \<Rightarrow> double \<Rightarrow> double res" where
  "convolve buf coefficients i 0 acc = Inr acc"
| "convolve buf coefficients i (Suc k) acc = bindr (getBufferValue buf (int i)) (\<lambda>v.
     if k < length coefficients then convolve buf coefficients (Suc i) k (dadd acc (dmul v (coefficients ! k)))
     else Inl OutOfRange)"

definition savitsky_golay_filter :: "circular_buffer \<Rightarrow> nat \<Rightarrow> double list \<Rightarrow> double \<Rightarrow> double res" where
  "savitsky_golay_filter buf filter_len coefficients normal =
     (if bufferLength buf < bufsize buf \<or> bufsize buf < int filter_len then getBufferValue buf 0
      else mapr (\<lambda>s. ddiv s normal) (convolve buf coefficients 0 filter_len (dzero False)))"

section \<open>The history\<close>

definition samples :: "circular_buffer \<Rightarrow> (double \<times> int) list" where
  "samples buf = zip (map the (ring_list buf (buf_values buf))) (map the (ring_list buf (buf_times buf)))"

definition buffer_ok :: "circular_buffer \<Rightarrow> bool" where
  "buffer_ok buf \<longleftrightarrow> ring_inv buf \<and> int (length (buf_values buf)) = bufsize buf \<and>
     int (length (buf_times buf)) = bufsize buf \<and>
     None \<notin> set (ring_list buf (buf_values buf)) \<and> None \<notin> set (ring_list buf (buf_times buf))"

text \<open>What \<open>findMovement\<close> is to return: the age of the newest sample that is far enough away.\<close>

fun movement :: "double \<Rightarrow> double \<Rightarrow> int \<Rightarrow> int \<Rightarrow> double list \<Rightarrow> int" where
  "movement current amount max_len n [] = n"
| "movement current amount max_len n (v # vs) =
     (if n < max_len then (if dle amount (dabs (dsub current v)) then n + 1
                           else movement current amount max_len (n + 1) vs)
      else n)"

section \<open>Lemmas\<close>

lemma length_samples [simp]: "length (samples buf) = nat (bufferLength buf)"
  by (simp add: samples_def bufferLength_def)

lemma buffer_ok_front: "buffer_ok b \<Longrightarrow> i < nat (bufferLength b) \<Longrightarrow> 0 \<le> front b \<and> int i < bufsize b"
  using ring_length_bounds [of b] by (auto simp: buffer_ok_def bufferLength_def ring_inv_def ring_length_def)

lemma read_sample:
  assumes "buffer_ok b" "i < nat (bufferLength b)"
  shows "read_cell (buf_values b) (ring_slot b (int i)) = Inr (fst (samples b ! i))"
    "read_cell (buf_times b) (ring_slot b (int i)) = Inr (snd (samples b ! i))"
proof -
  have inv: "ring_inv b" using assms(1) by (simp add: buffer_ok_def)
  have slot: "0 \<le> ring_slot b (int i)" "ring_slot b (int i) < bufsize b"
    using ring_slot_range [OF inv] buffer_ok_front [OF assms] by auto
  have "ring_list b (buf_values b) ! i \<in> set (ring_list b (buf_values b))"
    "ring_list b (buf_times b) ! i \<in> set (ring_list b (buf_times b))"
    using assms(2) by (auto simp: bufferLength_def intro!: nth_mem)
  then have "ring_list b (buf_values b) ! i \<noteq> None" "ring_list b (buf_times b) ! i \<noteq> None"
    using assms(1) unfolding buffer_ok_def by metis+
  then show "read_cell (buf_values b) (ring_slot b (int i)) = Inr (fst (samples b ! i))"
    "read_cell (buf_times b) (ring_slot b (int i)) = Inr (snd (samples b ! i))"
    using assms slot by (auto simp: read_cell_def buffer_ok_def samples_def bufferLength_def ring_list_nth)
qed

lemma getBufferValue_sample:
  assumes "buffer_ok b" "i < nat (bufferLength b)"
  shows "getBufferValue b (int i) = Inr (fst (samples b ! i))"
  using assms read_sample [OF assms]
  by (auto simp: getBufferValue_def bufferIndexFor_def Let_def)

lemma buffer_ok_createBuffer:
  "0 < n \<Longrightarrow> n \<le> INT_MAX \<Longrightarrow> createBuffer n = Some b \<Longrightarrow> buffer_ok b \<and> samples b = [] \<and> bufsize b = n"
  by (auto simp: createBuffer_def buffer_ok_def ring_inv_def samples_def ring_list_def ring_length_def)

lemma addSample_history:
  assumes "buffer_ok b"
  shows "\<exists>b'. addSample b t v = Inr b' \<and> buffer_ok b' \<and> bufsize b' = bufsize b \<and>
    samples b' = take (nat (bufsize b)) ((v, to_u64 t) # samples b)"
proof -
  have inv: "ring_inv b" and len: "int (length (buf_values b)) = bufsize b" "int (length (buf_times b)) = bufsize b"
    and some: "None \<notin> set (ring_list b (buf_values b))" "None \<notin> set (ring_list b (buf_times b))"
    using assms by (simp_all add: buffer_ok_def)
  have nf: "0 \<le> next_front b" "next_front b < bufsize b" using next_front_range [OF inv] by auto
  have "\<exists>x. read_cell (buf_values b) (next_front b) = Inr x" if "next_front b = back b"
  proof -
    have f: "0 \<le> front b" using that nf inv by (auto simp: ring_inv_def)
    have "nat (ring_length b - 1) < nat (bufferLength b)"
      using ring_length_bounds [OF inv] f by (auto simp: bufferLength_def)
    from read_sample(1) [OF assms this] show ?thesis
      using ring_slot_last [OF inv f] ring_length_bounds [OF inv] f that by auto
  qed
  then obtain tot where tot: "(if next_front b = back b
      then mapr (dsub (buf_total b)) (read_cell (buf_values b) (next_front b)) else Inr (buf_total b)) = Inr tot"
    by (cases "next_front b = back b") auto
  define b' where "b' = (ring_advance b)\<lparr>buf_total := dadd tot v,
    buf_values := (buf_values b)[nat (next_front b) := Some v],
    buf_times := (buf_times b)[nat (next_front b) := Some (to_u64 t)]\<rparr>"
  have add: "addSample b t v = Inr b'"
    using nf len unfolding addSample_def tot by (simp add: write_cell_in b'_def)
  have "ring_list b' cs = ring_list (ring_advance b) cs" for cs :: "double option list"
    by (rule ring_list_cong) (simp_all add: b'_def)
  moreover have "ring_list b' cs = ring_list (ring_advance b) cs" for cs :: "int option list"
    by (rule ring_list_cong) (simp_all add: b'_def)
  ultimately have lists: "ring_list b' (buf_values b') = take (nat (bufsize b)) (Some v # ring_list b (buf_values b))"
    "ring_list b' (buf_times b') = take (nat (bufsize b)) (Some (to_u64 t) # ring_list b (buf_times b))"
    using ring_list_advance [OF inv len(1)] ring_list_advance [OF inv len(2)] by (simp_all add: b'_def)
  have "ring_inv b'" using ring_inv_advance [OF inv] by (simp add: b'_def ring_inv_def)
  then have "buffer_ok b'"
    using some ring_list_update_set [of _ v b "buf_values b"] ring_list_update_set [of _ "to_u64 t" b "buf_times b"] len
    unfolding buffer_ok_def lists by (auto simp: b'_def)
  moreover have "samples b' = take (nat (bufsize b)) ((v, to_u64 t) # samples b)"
    unfolding samples_def lists by (simp add: take_map [symmetric] take_zip [symmetric])
  ultimately show ?thesis using add by (auto simp: b'_def)
qed

interpretation timed_samples: sample_history "\<lambda>(v, t) b. addSample b t v" "\<lambda>(v, t). (v, to_u64 t)" samples
  "\<lambda>b. nat (bufsize b)" buffer_ok
proof unfold_locales
  fix b :: circular_buffer and x :: "double \<times> int"
  assume "buffer_ok b"
  then show "\<exists>b'. (case x of (v, t) \<Rightarrow> \<lambda>b. addSample b t v) b = Inr b' \<and> buffer_ok b' \<and>
      nat (bufsize b') = nat (bufsize b) \<and>
      samples b' = take (nat (bufsize b)) ((case x of (v, t) \<Rightarrow> (v, to_u64 t)) # samples b)"
    using addSample_history [of b "snd x" "fst x"] by (auto simp: case_prod_beta)
qed

lemma samples_fit: "buffer_ok b \<Longrightarrow> length (samples b) \<le> nat (bufsize b)"
  using ring_length_bounds [of b] by (simp add: buffer_ok_def bufferLength_def nat_mono)

lemma sum_down_history:
  assumes "buffer_ok b" "k \<le> nat (bufferLength b)"
  shows "sum_down b k acc = Inr (foldl dadd acc (rev (map fst (take k (samples b)))))"
  using assms(2)
proof (induction k arbitrary: acc)
  case (Suc k)
  then have "take (Suc k) (samples b) = take k (samples b) @ [samples b ! k]"
    by (simp add: take_Suc_conv_app_nth)
  then show ?case using Suc getBufferValue_sample [OF assms(1), of k] by simp
qed simp

lemma squares_down_history:
  assumes "buffer_ok b" "k \<le> nat (bufferLength b)"
  shows "squares_down b avg k acc =
    Inr (foldl (\<lambda>r v. dadd r (dmul (dsub v avg) (dsub v avg))) acc (rev (map fst (take k (samples b)))))"
  using assms(2)
proof (induction k arbitrary: acc)
  case (Suc k)
  then have "take (Suc k) (samples b) = take k (samples b) @ [samples b ! k]"
    by (simp add: take_Suc_conv_app_nth)
  then show ?case using Suc getBufferValue_sample [OF assms(1), of k] by (simp add: Let_def)
qed simp

lemma take_min_length: "take (nat (min n (int (length xs)))) xs = take (nat n) xs"
  by (cases "n \<le> int (length xs)") (simp_all add: min_def)

lemma bufferSum_history:
  "buffer_ok b \<Longrightarrow> bufferSum b n = Inr (foldl dadd (dzero False) (rev (map fst (take (nat n) (samples b)))))"
proof -
  assume ok: "buffer_ok b"
  have len: "bufferLength b = int (length (samples b))"
    using ring_length_bounds [of b] ok by (simp add: buffer_ok_def bufferLength_def)
  have "nat (min n (bufferLength b)) \<le> nat (bufferLength b)" by (simp add: nat_mono)
  from sum_down_history [OF ok this] show ?thesis
    unfolding bufferSum_def len by (simp only: take_min_length)
qed

lemma older_slot:
  assumes "buffer_ok b" "Suc j < nat (bufferLength b)"
  shows "(if ring_slot b (int j) - 1 = - 1 then bufsize b - 1 else ring_slot b (int j) - 1) = ring_slot b (int (Suc j))"
    "to_u32 (ring_slot b (int (Suc j)) + 1) mod bufsize b = ring_slot b (int j)"
    "ring_slot b (int j) \<noteq> back b"
proof -
  have inv: "ring_inv b" and j: "Suc j < nat (ring_length b)" using assms by (simp_all add: buffer_ok_def bufferLength_def)
  note o = ring_older_slot [OF inv j]
  show "(if ring_slot b (int j) - 1 = - 1 then bufsize b - 1 else ring_slot b (int j) - 1) = ring_slot b (int (Suc j))"
    "ring_slot b (int j) \<noteq> back b" by (fact o(1), fact o(3))
  show "to_u32 (ring_slot b (int (Suc j)) + 1) mod bufsize b = ring_slot b (int j)"
    using o(2,5,6) ring_inv_size [OF inv] by (simp add: to_u32_id)
qed

lemma last_slot:
  assumes "buffer_ok b" "Suc j = nat (bufferLength b)"
  shows "ring_slot b (int j) = back b"
proof -
  have "0 \<le> front b" using buffer_ok_front [OF assms(1), of j] assms(2) by simp
  moreover have "int j = ring_length b - 1" using assms(2) by (auto simp: bufferLength_def)
  ultimately show ?thesis using ring_slot_last [of b] assms(1) by (simp add: buffer_ok_def)
qed

lemma move_back_history:
  assumes "buffer_ok b" "j < nat (bufferLength b)"
  shows "move_back b current amount max_len (ring_slot b (int j)) n =
    Inr (movement current amount max_len n (map fst (drop (Suc j) (samples b))))"
  using assms(2)
proof (induction "nat (bufferLength b) - j" arbitrary: j n)
  case (Suc d)
  show ?case
  proof (cases "Suc j = nat (bufferLength b)")
    case True
    then show ?thesis using last_slot [OF assms(1) True] by (simp add: move_back.simps)
  next
    case False
    then have j: "Suc j < nat (bufferLength b)" using Suc.prems by simp
    have cons: "drop (Suc j) (samples b) = samples b ! Suc j # drop (Suc (Suc j)) (samples b)"
      using j by (simp add: Cons_nth_drop_Suc)
    have read: "read_cell (buf_values b) (ring_slot b (int (Suc j))) = Inr (fst (samples b ! Suc j))"
      using read_sample(1) [OF assms(1) j] .
    show ?thesis
      unfolding move_back.simps [of b current amount max_len "ring_slot b (int j)"] cons Let_def older_slot(1) [OF assms(1) j]
      using older_slot(3) [OF assms(1) j] read Suc.hyps(1) [of "Suc j" "n + 1"] Suc.hyps(2) j by simp
  qed
qed simp

lemma seek_time_found:
  assumes "buffer_ok b" "t \<le> snd (samples b ! 0)"
  shows "Suc j < nat (bufferLength b) \<Longrightarrow> j < k \<Longrightarrow>
    \<exists>i. Suc i < nat (bufferLength b) \<and>
      seek_time k b t (ring_slot b (int (Suc j))) (ring_slot b (int j)) = Inr (Some (ring_slot b (int (Suc i)), ring_slot b (int i)))"
proof (induction j arbitrary: k)
  case 0
  then obtain k' where "k = Suc k'" by (cases k) auto
  then show ?case using 0 assms(2) read_sample(2) [OF assms(1), of 0] by (intro exI [of _ 0]) auto
next
  case (Suc j)
  then obtain k' where k: "k = Suc k'" by (cases k) auto
  have read: "read_cell (buf_times b) (ring_slot b (int (Suc j))) = Inr (snd (samples b ! Suc j))"
    using Suc.prems read_sample(2) [OF assms(1), of "Suc j"] by simp
  show ?case
  proof (cases "snd (samples b ! Suc j) < t")
    case True
    then show ?thesis using Suc.IH [of k'] Suc.prems k read older_slot(2) [OF assms(1), of j] by simp
  next
    case False
    then show ?thesis using Suc.prems k read by auto
  qed
qed

lemma interpolate_defined:
  assumes "buffer_ok b" "Suc i < nat (bufferLength b)"
  shows "defined (interpolate b t (ring_slot b (int (Suc i))) (ring_slot b (int i)))"
  using read_sample [OF assms(1), of "Suc i"] read_sample [OF assms(1), of i] assms(2)
  by (simp add: interpolate_def Let_def)

text \<open>Replacing the value of the newest sample changes no other sample.\<close>

lemma setBufferValue_samples:
  assumes "buffer_ok b" "0 < bufferLength b"
  obtains b' where "setBufferValue b v = Inr b'" "front b' = front b" "back b' = back b" "bufsize b' = bufsize b"
    "buf_times b' = buf_times b" "\<forall>i. 0 < i \<and> int i < bufferLength b \<longrightarrow> getBufferValue b' (int i) = getBufferValue b (int i)"
proof -
  have inv: "ring_inv b" and len: "int (length (buf_values b)) = bufsize b" using assms(1) by (simp_all add: buffer_ok_def)
  have f: "0 \<le> front b" "front b < bufsize b"
    using buffer_ok_front [OF assms(1), of 0] assms(2) inv by (auto simp: ring_inv_def)
  define b' where "b' = b\<lparr>buf_values := (buf_values b)[nat (front b) := Some v]\<rparr>"
  have "setBufferValue b v = Inr b'" using f len by (simp add: setBufferValue_def write_cell_in b'_def)
  moreover have "getBufferValue b' (int i) = getBufferValue b (int i)" if "0 < i" "int i < bufferLength b" for i
  proof -
    have "int i < bufsize b" using that ring_length_bounds [OF inv] by (simp add: bufferLength_def)
    then have "ring_slot b (int i) \<noteq> front b" "0 \<le> ring_slot b (int i)"
      using ring_slot_simps [OF inv f(1), of "int i"] f that by auto
    then have "nat (ring_slot b (int i)) \<noteq> nat (front b)" using f by auto
    moreover have "ring_length b' = ring_length b" "ring_slot b' (int i) = ring_slot b (int i)"
      by (simp_all add: b'_def ring_length_def ring_slot_def)
    ultimately have "read_cell (buf_values b') (ring_slot b' (int i)) = read_cell (buf_values b) (ring_slot b (int i))"
      by (simp add: read_cell_def b'_def)
    then show ?thesis
      using that \<open>ring_length b' = ring_length b\<close>
      by (simp add: getBufferValue_def bufferIndexFor_def bufferLength_def Let_def)
  qed
  ultimately show ?thesis using that by (simp add: b'_def)
qed

text \<open>Overwriting the newest sample keeps its time and the older samples.\<close>

lemma setBufferValue_history:
  assumes "buffer_ok b" "samples b = (u, t) # ss"
  shows "\<exists>b'. setBufferValue b v = Inr b' \<and> buffer_ok b' \<and> bufsize b' = bufsize b \<and> samples b' = (v, t) # ss"
proof -
  have inv: "ring_inv b" and len: "int (length (buf_values b)) = bufsize b" "int (length (buf_times b)) = bufsize b"
    using assms(1) by (simp_all add: buffer_ok_def)
  have n: "nat (bufferLength b) = Suc (length ss)" using assms(2) length_samples [of b] by simp
  have f: "0 \<le> front b" "front b < bufsize b"
    using buffer_ok_front [OF assms(1), of 0] n inv by (auto simp: ring_inv_def)
  define b' where "b' = b\<lparr>buf_values := (buf_values b)[nat (front b) := Some v]\<rparr>"
  have set: "setBufferValue b v = Inr b'" using f len by (simp add: setBufferValue_def write_cell_in b'_def)
  have same: "ring_length b' = ring_length b" "ring_slot b' i = ring_slot b i" for i
    by (simp_all add: b'_def ring_length_def ring_slot_def)
  have times: "ring_list b' (buf_times b') = ring_list b (buf_times b)" by (simp add: ring_list_def same) (simp add: b'_def)
  have vals: "ring_list b' (buf_values b') = (ring_list b (buf_values b))[0 := Some v]"
  proof (rule nth_equalityI)
    fix i assume "i < length (ring_list b' (buf_values b'))"
    then have i: "i < nat (ring_length b)" by (simp add: same)
    then have "int i < bufsize b" using ring_length_bounds [OF inv] by simp
    then have "nat (ring_slot b (int i)) = nat (front b) \<longleftrightarrow> i = 0"
      using ring_slot_simps [OF inv f(1), of "int i"] ring_slot_0 [OF inv f(1)] f by auto
    moreover have "nat (front b) < length (buf_values b)" using f len by simp
    ultimately show "ring_list b' (buf_values b') ! i = (ring_list b (buf_values b))[0 := Some v] ! i"
      using i by (simp add: ring_list_nth same nth_list_update) (auto simp: b'_def nth_list_update)
  qed (simp add: same)
  have "None \<notin> set (ring_list b' (buf_values b'))"
    using assms(1) set_update_subset_insert [of "ring_list b (buf_values b)" 0 "Some v"] unfolding vals buffer_ok_def by auto
  moreover have "ring_inv b'" using inv by (simp add: b'_def ring_inv_def)
  ultimately have "buffer_ok b'" using assms(1) times by (simp add: buffer_ok_def) (simp add: b'_def)
  moreover have "samples b' = (v, t) # ss"
    using assms(2) unfolding samples_def vals times
    by (cases "ring_list b (buf_values b)"; cases "ring_list b (buf_times b)") auto
  ultimately show ?thesis using set by (auto simp: b'_def)
qed

lemma convolve_defined:
  assumes "buffer_ok b" "i + k \<le> nat (bufferLength b)" "k \<le> length cs"
  shows "\<exists>v. convolve b cs i k acc = Inr v"
  using assms(2,3)
proof (induction k arbitrary: i acc)
  case (Suc k)
  then show ?case using getBufferValue_sample [OF assms(1), of i] by simp
qed simp

lemma savitsky_golay_defined:
  assumes "buffer_ok b" "samples b \<noteq> []" "n \<le> length cs"
  shows "\<exists>v. savitsky_golay_filter b n cs d = Inr v"
proof -
  have "0 < nat (bufferLength b)" using assms(2) length_samples [of b] by (metis length_greater_0_conv)
  then have "\<exists>v. getBufferValue b 0 = Inr v" using getBufferValue_sample [OF assms(1), of 0] by simp
  moreover have "\<exists>v. convolve b cs 0 n (dzero False) = Inr v" if "\<not> (bufferLength b < bufsize b \<or> bufsize b < int n)"
    using that assms(3) by (intro convolve_defined [OF assms(1)]) auto
  ultimately show ?thesis by (auto simp: savitsky_golay_filter_def)
qed

lemma slope_sums_cong:
  assumes "\<And>i. 0 < i \<Longrightarrow> i \<le> k \<Longrightarrow> getBufferValue b' (int i) = getBufferValue b (int i)"
    and "getBufferValue b' n = getBufferValue b n" "\<And>i. getTime b' i = getTime b i"
  shows "slope_sums b' n t0 k s = slope_sums b n t0 k s"
  using assms(1)
proof (induction k arbitrary: s)
  case (Suc k)
  have IH: "slope_sums b' n t0 k s = slope_sums b n t0 k s" for s
    using Suc by (metis le_SucI)
  show ?case
    using Suc.prems [of "Suc k"] by (cases s) (simp add: assms(2,3) IH del: of_nat_Suc)
qed simp

text \<open>A buffer of four cells and a few samples.\<close>

lemma example_buffer:
  assumes "length xs \<le> 4"
  obtains b b' where "createBuffer 4 = Some b" "timed_samples.append_all xs b = Inr b'" "buffer_ok b'"
    "samples b' = rev (map (\<lambda>(v, t). (v, to_u64 t)) xs)"
proof -
  obtain b where b: "createBuffer 4 = Some b" by (simp add: createBuffer_def)
  have "buffer_ok b" "samples b = []" "bufsize b = 4"
    using buffer_ok_createBuffer [OF _ _ b] by (simp_all add: INT_MAX_def)
  then show ?thesis
    using timed_samples.append_all_history [of b xs] assms that [OF b] by auto
qed

section \<open>Properties\<close>

text \<open>
  Claim C39. A buffer created for \<open>n\<close> samples accepts any sequence of samples and holds
  exactly the last \<open>n\<close> of them, newest first: the positions \<open>front\<close> and \<open>back\<close>, which wrap
  around, implement a bounded history.
\<close>

theorem buffer_remembers_last_samples:
  assumes "0 < n" "n \<le> INT_MAX" "createBuffer n = Some b"
  shows "\<exists>b'. timed_samples.append_all xs b = Inr b' \<and> buffer_ok b' \<and>
    samples b' = take (nat n) (rev (map (\<lambda>(v, t). (v, to_u64 t)) xs))"
  using buffer_ok_createBuffer [OF assms] timed_samples.append_all_history [of b xs] by auto

theorem buffer_remembers_last_samples_witness:
  "\<exists>b b'. createBuffer 2 = Some b \<and>
     timed_samples.append_all [(dbl_of_int 1, 10), (dbl_of_int 2, 20), (dbl_of_int 3, 30)] b = Inr b' \<and>
     samples b' = [(dbl_of_int 3, 30), (dbl_of_int 2, 20)]"
proof -
  obtain b where b: "createBuffer 2 = Some b" by (simp add: createBuffer_def)
  from buffer_remembers_last_samples [OF _ _ b, of "[(dbl_of_int 1, 10), (dbl_of_int 2, 20), (dbl_of_int 3, 30)]"] b
  show ?thesis by (auto simp: INT_MAX_def to_u64_def numeral_2_eq_2)
qed

text \<open>
  The sum, the average and the standard deviation are those of the newest \<open>n\<close>
  samples of the history (all of them when there are fewer), added from the oldest to the
  newest in floating point.
\<close>

lemma buffer_statistics:
  assumes "buffer_ok b" "1 < n"
  shows "let vs = rev (map fst (take (nat n) (samples b))); m = dbl_of_int (int (length vs));
             total = foldl dadd (dzero False) vs; avg = ddiv total m
    in bufferSum b n = Inr total \<and>
       bufferAverage b n = Inr (if vs = [] then dzero False else avg) \<and>
       bufferStddev b n = Inr (if length vs \<le> 1 then dzero False
         else dsqrt (ddiv (foldl (\<lambda>r v. dadd r (dmul (dsub v avg) (dsub v avg))) (dzero False) vs)
                (dbl_of_int (int (length vs) - 1))))"
proof -
  have len: "bufferLength b = int (length (samples b))"
    using ring_length_bounds [of b] assms(1) by (simp add: buffer_ok_def bufferLength_def)
  define m where "m = min n (bufferLength b)"
  define vs where "vs = rev (map fst (take (nat n) (samples b)))"
  have m: "nat m \<le> nat (bufferLength b)" "m = int (length vs)" "min m (bufferLength b) = m"
    using assms(2) by (auto simp: m_def len vs_def min_def simp del: length_samples)
  have vs: "rev (map fst (take (nat m) (samples b))) = vs" unfolding m_def len vs_def by (simp only: take_min_length)
  have avg: "bufferAverage b k = Inr (if vs = [] then dzero False else ddiv (foldl dadd (dzero False) vs) (dbl_of_int m))"
    if "min k (bufferLength b) = m" for k
    using that m(2) bufferSum_history [OF assms(1), of m] vs by (auto simp: bufferAverage_def Let_def)
  have sq: "squares_down b a (length vs) (dzero False) = Inr (foldl (\<lambda>r v. dadd r (dmul (dsub v a) (dsub v a))) (dzero False) vs)" for a
    using squares_down_history [OF assms(1) m(1)] vs m(2) by simp
  have "bufferStddev b n = (if m \<le> 1 then Inr (dzero False)
      else bindr (bufferAverage b m) (\<lambda>avg. mapr (\<lambda>r. dsqrt (ddiv r (dbl_of_int (m - 1)))) (squares_down b avg (nat m) (dzero False))))"
    by (simp add: bufferStddev_def m_def Let_def)
  then show ?thesis
    using avg [of n] avg [of m] bufferSum_history [OF assms(1), of n] m
    by (auto simp: Let_def sq vs_def [symmetric] m_def [symmetric])
qed

text \<open>
  \<open>findMovement\<close> returns the age of the newest sample that differs from the
  current one by the amount or more, within the given number of samples, or the age of the
  last sample looked at when there is none. It ends for every buffer that holds a sample.
\<close>

lemma findMovement_correct:
  assumes "buffer_ok b" "0 < bufferLength b"
  shows "findMovement b amount max_len =
    Inr (movement (fst (hd (samples b))) amount max_len 0 (map fst (tl (samples b))))"
proof -
  have f: "ring_slot b 0 = front b"
    using buffer_ok_front [OF assms(1), of 0] assms ring_slot_0 [of b] by (auto simp: buffer_ok_def)
  have "samples b \<noteq> []" using assms(2) by (metis length_samples list.size(3) nat_0_iff not_le)
  then have "hd (samples b) = samples b ! 0" "tl (samples b) = drop (Suc 0) (samples b)"
    by (simp_all add: hd_conv_nth drop_Suc)
  then show ?thesis
    using move_back_history [OF assms(1), of 0] read_sample(1) [OF assms(1), of 0] assms(2) f
    by (simp add: findMovement_def)
qed

text \<open>
  The estimate of the value at a time ends for every buffer that holds a sample,
  whatever the recorded times are: the search never runs past the newest sample. Before the
  oldest sample it is the oldest value, from the newest sample on the newest value.
\<close>

lemma getBufferValueAt_total:
  assumes "buffer_ok b" "0 < bufferLength b"
  shows "(\<exists>v. getBufferValueAt b t = Inr (Some v)) \<and>
    (t \<le> snd (last (samples b)) \<longrightarrow> getBufferValueAt b t = Inr (Some (fst (last (samples b))))) \<and>
    (snd (last (samples b)) < t \<and> snd (hd (samples b)) \<le> t \<longrightarrow> getBufferValueAt b t = Inr (Some (fst (hd (samples b)))))"
proof -
  define l where "l = nat (bufferLength b - 1)"
  have l: "l < nat (bufferLength b)" "int l = bufferLength b - 1" "Suc l = nat (bufferLength b)"
    using assms(2) by (auto simp: l_def)
  have ne: "samples b \<noteq> []" using assms(2) by (metis length_samples list.size(3) nat_0_iff not_le)
  have "length (samples b) - 1 = l" using l(3) by simp
  then have ends: "last (samples b) = samples b ! l" "hd (samples b) = samples b ! 0"
    using last_conv_nth [OF ne] hd_conv_nth [OF ne] by metis+
  have f: "ring_slot b 0 = front b"
    using buffer_ok_front [OF assms(1), of 0] assms ring_slot_0 [of b] by (auto simp: buffer_ok_def)
  have idx: "bufferIndexFor b (bufferLength b - 1) = Inr (ring_slot b (int l))"
    using assms(2) l by (simp add: bufferIndexFor_def Let_def)
  note read0 = read_sample [OF assms(1), of 0] and readl = read_sample [OF assms(1) l(1)]
  have start: "getBufferValueAt b t =
      (if t \<le> snd (samples b ! l) then Inr (Some (fst (samples b ! l)))
       else if snd (samples b ! 0) \<le> t then Inr (Some (fst (samples b ! 0)))
       else bindr (seek_time (nat (bufsize b)) b t (ring_slot b (int l)) (to_u32 (ring_slot b (int l) + 1) mod bufsize b))
         (\<lambda>r. case r of None \<Rightarrow> Inr None | Some (i, nxt) \<Rightarrow> mapr Some (interpolate b t i nxt)))"
    using read0 readl f assms(2) by (simp add: getBufferValueAt_def idx)
  have "\<exists>v. getBufferValueAt b t = Inr (Some v)" if between: "\<not> t \<le> snd (samples b ! l)" "\<not> snd (samples b ! 0) \<le> t"
  proof -
    obtain j where j: "l = Suc j" using between by (cases l) auto
    have "j < nat (bufsize b)" using buffer_ok_front [OF assms(1) l(1)] j by auto
    then obtain i where i: "Suc i < nat (bufferLength b)"
      "seek_time (nat (bufsize b)) b t (ring_slot b (int (Suc j))) (ring_slot b (int j)) =
         Inr (Some (ring_slot b (int (Suc i)), ring_slot b (int i)))"
      using seek_time_found [OF assms(1), of t j "nat (bufsize b)"] between j l by auto
    obtain v where "interpolate b t (ring_slot b (int (Suc i))) (ring_slot b (int i)) = Inr v"
      using interpolate_defined [OF assms(1) i(1)] by (auto simp: defined_iff)
    moreover have "to_u32 (ring_slot b (int l) + 1) mod bufsize b = ring_slot b (int j)"
      using older_slot(2) [OF assms(1), of j] l(1) j by simp
    ultimately show ?thesis unfolding start using between i(2) j by simp
  qed
  moreover have "getBufferValueAt b t = Inr (Some (fst (samples b ! l)))" if "t \<le> snd (samples b ! l)"
    unfolding start using that by simp
  moreover have "getBufferValueAt b t = Inr (Some (fst (samples b ! 0)))"
    if "\<not> t \<le> snd (samples b ! l)" "snd (samples b ! 0) \<le> t"
    unfolding start using that by simp
  ultimately show ?thesis unfolding ends by (metis not_le)
qed

text \<open>
  The least-squares slope leaves the newest sample out: replacing its value by any
  other does not change the slope of a buffer with two samples or more.
\<close>

lemma slope_ignores_newest:
  assumes "buffer_ok b" "1 < bufferLength b" "setBufferValue b v = Inr b'"
  shows "slope b' = slope b"
proof -
  have pos: "0 < bufferLength b" using assms(2) by simp
  obtain c where c: "setBufferValue b v = Inr c" "front c = front b" "back c = back b" "bufsize c = bufsize b"
    "buf_times c = buf_times b" "\<forall>i. 0 < i \<and> int i < bufferLength b \<longrightarrow> getBufferValue c (int i) = getBufferValue b (int i)"
    using setBufferValue_samples [OF assms(1) pos, of v] by metis
  have eq: "c = b'" using c(1) assms(3) by simp
  have len: "bufferLength b' = bufferLength b" using c(2-4) eq by (simp add: bufferLength_def ring_length_def)
  have time: "getTime b' i = getTime b i" for i using c(2-5) eq by (simp add: getTime_def ring_slot_def)
  have "slope_sums b' (bufferLength b - 1) t0 (nat (bufferLength b - 1 - 1)) s =
      slope_sums b (bufferLength b - 1) t0 (nat (bufferLength b - 1 - 1)) s" for t0 s
  proof (rule slope_sums_cong)
    show "getBufferValue b' (bufferLength b - 1) = getBufferValue b (bufferLength b - 1)"
      using c(6) [THEN spec, of "nat (bufferLength b - 1)"] eq assms(2) by simp
  qed (use c(6) eq time in auto)
  then show ?thesis by (simp add: slope_def len time)
qed

end
