(* ===== verification/Cw_Filtering.thy ===== *)
theory Cw_Filtering
  imports Cw_Ring
begin

text \<open>
  The sample buffers and the filter of \<open>src/iod/src/filtering.h\<close> and \<open>filtering.cpp\<close>. The
  classes \<open>LongBuffer\<close>, \<open>FloatBuffer\<close> and \<open>SampleBuffer\<close> share the base class
  \<open>Buffer\<close>; here they share the record of positions of \<open>Cw_Ring\<close>. The member \<open>total_\<close>
  is not initialised by the constructor and only ever read to be updated, so it is an option
  that stays unknown until \<open>reset\<close>. The mutex is left out.
\<close>

section \<open>The buffers\<close>

record 'v sample_ring = ring +
  cells :: "'v option list"
  running_total :: "double option"

type_synonym long_buffer = "int sample_ring"
type_synonym float_buffer = "double sample_ring"

definition new_buffer :: "int \<Rightarrow> 'v sample_ring" where
  "new_buffer n = \<lparr>bufsize = n, front = - 1, back = - 1, cells = replicate (nat n) None, running_total = None\<rparr>"

definition buffer_reset :: "'v sample_ring \<Rightarrow> 'v sample_ring" where
  "buffer_reset b = b\<lparr>front := - 1, back := - 1, running_total := Some (dzero False)\<rparr>"

definition total_add :: "double option \<Rightarrow> double \<Rightarrow> double option" where
  "total_add t x = map_option (\<lambda>t. dadd t x) t"

definition total_sub :: "double option \<Rightarrow> double \<Rightarrow> double option" where
  "total_sub t x = map_option (\<lambda>t. dsub t x) t"

text \<open>\<open>append\<close> of the buffers of one value; \<open>f\<close> is the conversion of a cell to \<open>double\<close>.\<close>

definition buffer_append :: "('v \<Rightarrow> double) \<Rightarrow> 'v \<Rightarrow> 'v sample_ring \<Rightarrow> 'v sample_ring res" where
  "buffer_append f val b =
     bindr (if next_front b = back b
            then mapr (\<lambda>v. total_sub (running_total b) (f v)) (read_cell (cells b) (next_front b))
            else Inr (running_total b)) (\<lambda>t.
     bindr (write_cell (cells b) (next_front b) val) (\<lambda>cs.
     Inr ((ring_advance b)\<lparr>cells := cs, running_total := total_add t (f val)\<rparr>)))"

definition LongBuffer_append :: "int \<Rightarrow> long_buffer \<Rightarrow> long_buffer res" where
  "LongBuffer_append = buffer_append dbl_of_int"

definition FloatBuffer_append :: "double \<Rightarrow> float_buffer \<Rightarrow> float_buffer res" where
  "FloatBuffer_append = buffer_append (\<lambda>x. x)"

definition buffer_get :: "'v sample_ring \<Rightarrow> int \<Rightarrow> 'v res" where
  "buffer_get b n = read_cell (cells b) (ring_slot b n)"

definition buffer_set :: "'v sample_ring \<Rightarrow> int \<Rightarrow> 'v \<Rightarrow> 'v sample_ring res" where
  "buffer_set b n v = mapr (\<lambda>cs. b\<lparr>cells := cs\<rparr>) (write_cell (cells b) (ring_slot b n) v)"

definition getFloatAtOffset :: "('v \<Rightarrow> double) \<Rightarrow> 'v sample_ring \<Rightarrow> int \<Rightarrow> double res" where
  "getFloatAtOffset f b offset = mapr f (buffer_get b offset)"

definition getFloatAtIndex :: "('v \<Rightarrow> double) \<Rightarrow> 'v sample_ring \<Rightarrow> int \<Rightarrow> double res" where
  "getFloatAtIndex f b idx = mapr f (read_cell (cells b) idx)"

section \<open>Statistics of the base class\<close>

definition difference :: "('v \<Rightarrow> double) \<Rightarrow> 'v sample_ring \<Rightarrow> int \<Rightarrow> int \<Rightarrow> double res" where
  "difference f b idx_a idx_b =
     bindr (getFloatAtOffset f b idx_a) (\<lambda>x. bindr (getFloatAtOffset f b idx_b) (\<lambda>y.
     let a = dsub x y in Inr (if dle (dlit 1 4) (dabs a) then a else dzero False)))"

definition distance :: "('v \<Rightarrow> double) \<Rightarrow> 'v sample_ring \<Rightarrow> int \<Rightarrow> int \<Rightarrow> double res" where
  "distance f b idx_a idx_b = mapr (\<lambda>d. let a = dabs d in if dlt a (dlit 1 4) then dzero False else a)
     (difference f b idx_a idx_b)"

text \<open>\<open>(front + BUFSIZE - n + 1) % BUFSIZE\<close> and \<open>(i + 1) % BUFSIZE\<close>.\<close>

definition first_of :: "'v sample_ring \<Rightarrow> int \<Rightarrow> int" where
  "first_of b n = remt (front b + bufsize b - n + 1) (bufsize b)"

definition following :: "'v sample_ring \<Rightarrow> int \<Rightarrow> int" where
  "following b i = remt (i + 1) (bufsize b)"

text \<open>The loops end at \<open>front\<close>; \<open>None\<close> when the fuel is used up before.\<close>

primrec walk_sum :: "nat \<Rightarrow> ('v \<Rightarrow> double) \<Rightarrow> 'v sample_ring \<Rightarrow> int \<Rightarrow> double \<Rightarrow> double option res" where
  "walk_sum 0 f b i acc = Inr None"
| "walk_sum (Suc k) f b i acc = bindr (getFloatAtIndex f b i) (\<lambda>v.
     if i \<noteq> front b then walk_sum k f b (following b i) (dadd acc v) else Inr (Some (dadd acc v)))"

definition buffer_average :: "('v \<Rightarrow> double) \<Rightarrow> 'v sample_ring \<Rightarrow> int \<Rightarrow> double option res" where
  "buffer_average f b n =
     (if front b = - 1 \<or> n = 0 \<or> ring_length b \<le> 0 then Inr (Some (dzero False))
      else let m = min n (ring_length b)
           in mapr (map_option (\<lambda>s. ddiv s (dbl_of_int m)))
                (walk_sum (nat (bufsize b)) f b (first_of b m) (dzero False)))"

primrec walk_squares :: "nat \<Rightarrow> ('v \<Rightarrow> double) \<Rightarrow> 'v sample_ring \<Rightarrow> double \<Rightarrow> int \<Rightarrow> double \<Rightarrow> double option res" where
  "walk_squares 0 f b avg i acc = Inr None"
| "walk_squares (Suc k) f b avg i acc = bindr (getFloatAtIndex f b i) (\<lambda>v.
     let val = dsub v avg; acc' = dadd acc (dmul val val); i' = following b i
     in if i' \<noteq> front b then walk_squares k f b avg i' acc' else Inr (Some acc'))"

definition buffer_stddev :: "('v \<Rightarrow> double) \<Rightarrow> 'v sample_ring \<Rightarrow> int \<Rightarrow> double option res" where
  "buffer_stddev f b n =
     bindr (buffer_average f b n) (\<lambda>r. case r of
       None \<Rightarrow> Inr None
     | Some avg \<Rightarrow>
         if front b = - 1 \<or> n = 0 \<or> ring_length b \<le> 1 then Inr (Some (dzero False))
         else let m = min n (ring_length b)
              in mapr (map_option (\<lambda>s. dsqrt (ddiv s (dbl_of_int (m - 1)))))
                   (walk_squares (nat (bufsize b)) f b avg (first_of b m) (dzero False)))"

section \<open>Functions of a buffer of floats\<close>

function float_move_back :: "float_buffer \<Rightarrow> double \<Rightarrow> double \<Rightarrow> int \<Rightarrow> int \<Rightarrow> int \<Rightarrow> int res" where
  "float_move_back b current amount max_len idx n =
     (if idx \<noteq> back b \<and> n < max_len
      then (let idx' = (if idx - 1 = - 1 then bufsize b - 1 else idx - 1); n' = n + 1
            in case read_cell (cells b) idx' of
                 Inl e \<Rightarrow> Inl e
               | Inr v \<Rightarrow> if dle amount (dabs (dsub current v)) then Inr n'
                         else float_move_back b current amount max_len idx' n')
      else Inr n)"
  by auto
termination
  by (relation "measure (\<lambda>(b, current, amount, max_len, idx, n). nat (max_len - n))") auto

declare float_move_back.simps [simp del]

definition FloatBuffer_findMovement :: "float_buffer \<Rightarrow> double \<Rightarrow> int \<Rightarrow> int res" where
  "FloatBuffer_findMovement b amount max_len =
     (if ring_length b = 0 then Inl AssertFailed
      else bindr (read_cell (cells b) (front b)) (\<lambda>current.
           float_move_back b current amount max_len (front b) 0))"

text \<open>The sum is kept in a \<open>float\<close>; a missing sample counts as zero.\<close>

fun inner_product_from :: "float_buffer \<Rightarrow> nat \<Rightarrow> double list \<Rightarrow> double \<Rightarrow> double res" where
  "inner_product_from b i [] acc = Inr acc"
| "inner_product_from b i (c # cs) acc =
     bindr (if int i < ring_length b then mapr to_float (buffer_get b (int i)) else Inr (dzero False)) (\<lambda>x.
     inner_product_from b (Suc i) cs (to_float (dadd acc (dmul x c))))"

definition inner_product :: "float_buffer \<Rightarrow> double list \<Rightarrow> double res" where
  "inner_product b coefficients = inner_product_from b 0 coefficients (dzero False)"

primrec slope_fit_sums :: "float_buffer \<Rightarrow> long_buffer \<Rightarrow> int \<Rightarrow> double \<Rightarrow> nat \<Rightarrow> double \<times> double \<times> double \<times> double \<Rightarrow>
    (double \<times> double \<times> double \<times> double) res" where
  "slope_fit_sums b tb n t0 0 sums = Inr sums"
| "slope_fit_sums b tb n t0 (Suc k) sums =
     (let (sx, sy, sxx, sxy) = sums
      in bindr (buffer_get b (int (Suc k))) (\<lambda>v. bindr (buffer_get b n) (\<lambda>vn.
         bindr (buffer_get tb (int (Suc k))) (\<lambda>t.
         let y = dsub v vn; x = dsub (dbl_of_int t) t0
         in slope_fit_sums b tb n t0 k (dadd sx x, dadd sy y, dadd sxx (dmul x x), dadd sxy (dmul x y))))))"

definition slopeFromLeastSquaresFit :: "float_buffer \<Rightarrow> long_buffer \<Rightarrow> double res" where
  "slopeFromLeastSquaresFit b tb =
     (let n = ring_length b - 1; z = dzero False
      in if n \<le> 0 then Inr z
         else bindr (buffer_get tb n) (\<lambda>t.
              bindr (slope_fit_sums b tb n (dbl_of_int t) (nat n) (z, z, z, z)) (\<lambda>(sx, sy, sxx, sxy).
              let dn = dbl_of_int n; denom = dsub (dmul dn sxx) (dmul sx sx)
              in Inr (if dlt (dabs denom) (to_float (dlit 1 5)) then z
                      else ddiv (dsub (dmul dn sxy) (dmul sx sy)) denom))))"

primrec sum_newest :: "float_buffer \<Rightarrow> nat \<Rightarrow> nat \<Rightarrow> double \<Rightarrow> double res" where
  "sum_newest b i 0 acc = Inr acc"
| "sum_newest b i (Suc k) acc = bindr (buffer_get b (int i)) (\<lambda>v. sum_newest b (Suc i) k (dadd acc v))"

definition movingAverage :: "float_buffer \<Rightarrow> nat \<Rightarrow> double res" where
  "movingAverage b n =
     (if n = 0 then Inr (dzero False)
      else let m = min n (nat (ring_length b))
           in mapr (\<lambda>s. ddiv s (dbl_of_int (int m))) (sum_newest b 0 m (dzero False)))"

section \<open>The Butterworth filter\<close>

record butterworth =
  c_coefficients :: "double list"
  signal_buf :: float_buffer
  d_coefficients :: "double list"
  filtered_buf :: float_buffer

definition new_butterworth :: "double list \<Rightarrow> double list \<Rightarrow> butterworth" where
  "new_butterworth c d = \<lparr>c_coefficients = c, signal_buf = new_buffer (int (length c) + 1),
     d_coefficients = d, filtered_buf = new_buffer (int (length d) + 1)\<rparr>"

definition butterworth_filter :: "double \<Rightarrow> butterworth \<Rightarrow> (double \<times> butterworth) res" where
  "butterworth_filter x w =
     bindr (FloatBuffer_append x (signal_buf w)) (\<lambda>sb.
     bindr (inner_product sb (c_coefficients w)) (\<lambda>s2.
     bindr (if d_coefficients w = [] then Inl OutOfRange
            else inner_product (filtered_buf w) (tl (d_coefficients w))) (\<lambda>s1.
     let filtered = to_float (dsub s2 s1)
     in bindr (FloatBuffer_append filtered (filtered_buf w)) (\<lambda>fb.
        Inr (filtered, w\<lparr>signal_buf := sb, filtered_buf := fb\<rparr>)))))"

section \<open>The buffer of timed samples\<close>

record timed_buffer = ring +
  tb_values :: "double option list"
  tb_times :: "int option list"
  tb_total :: "double option"

definition quickAppend :: "timed_buffer \<Rightarrow> double \<Rightarrow> int \<Rightarrow> timed_buffer res" where
  "quickAppend b val time =
     bindr (if next_front b = back b
            then mapr (total_sub (tb_total b)) (read_cell (tb_values b) (next_front b)) else Inr (tb_total b)) (\<lambda>t.
     bindr (write_cell (tb_values b) (next_front b) val) (\<lambda>vs.
     bindr (write_cell (tb_times b) (next_front b) time) (\<lambda>ts.
     Inr ((ring_advance b)\<lparr>tb_values := vs, tb_times := ts, tb_total := total_add t val\<rparr>))))"

primrec synthesize :: "double \<Rightarrow> int \<Rightarrow> double \<Rightarrow> int \<Rightarrow> int \<Rightarrow> nat \<Rightarrow> timed_buffer \<Rightarrow> timed_buffer res" where
  "synthesize val time mean_change last_time missing 0 b = Inr b"
| "synthesize val time mean_change last_time missing (Suc k) b =
     bindr (quickAppend b (dsub val (dmul (dbl_of_int (int (Suc k))) mean_change))
              (to_u64 (time - to_u64 (int (Suc k) * to_u64 (time - last_time)) div missing)))
       (synthesize val time mean_change last_time missing k)"

text \<open>The cast of a \<open>double\<close> to \<open>int\<close>.\<close>

definition int_of_dbl :: "double \<Rightarrow> int res" where
  "int_of_dbl x = bindr (long_of_dbl x) (\<lambda>i. if INT_MIN \<le> i \<and> i \<le> INT_MAX then Inr i else Inl ConversionRange)"

text \<open>Samples that were missed are made up from the mean change, in an emptied buffer.\<close>

definition make_up_missing :: "timed_buffer \<Rightarrow> double \<Rightarrow> int \<Rightarrow> timed_buffer res" where
  "make_up_missing b val time =
     (let n = dbl_of_int (ring_length b)
      in bindr (read_cell (tb_values b) (front b)) (\<lambda>vf. bindr (read_cell (tb_values b) (back b)) (\<lambda>vb.
         bindr (read_cell (tb_times b) (front b)) (\<lambda>tf. bindr (read_cell (tb_times b) (back b)) (\<lambda>t0.
         let mean_change = ddiv (dsub vf vb) n;
             period = ddiv (dbl_of_int (to_u64 (tf - t0))) n
         in bindr (int_of_dbl (ddiv (dbl_of_int (to_u64 (time - tf))) period)) (\<lambda>missing.
            if 3 \<le> missing
            then let m = min missing (bufsize b div 2)
                 in synthesize val time mean_change tf m (nat m)
                      (b\<lparr>front := - 1, back := - 1, tb_total := Some (dzero False)\<rparr>)
            else Inr b))))))"

definition SampleBuffer_append :: "timed_buffer \<Rightarrow> double \<Rightarrow> int \<Rightarrow> timed_buffer res" where
  "SampleBuffer_append b val time =
     bindr (if front b \<noteq> - 1 then mapr (\<lambda>t. time = t) (read_cell (tb_times b) (front b)) else Inr False) (\<lambda>same.
     if same then Inr b
     else bindr (if bufsize b div 2 < ring_length b then make_up_missing b val time else Inr b) (\<lambda>b'.
          quickAppend b' val time))"

definition SampleBuffer_rate :: "timed_buffer \<Rightarrow> double res" where
  "SampleBuffer_rate b =
     (if front b = back b \<or> back b = - 1 then Inr (dzero False)
      else bindr (read_cell (tb_values b) (back b)) (\<lambda>v1. bindr (read_cell (tb_values b) (front b)) (\<lambda>v2.
           bindr (read_cell (tb_times b) (back b)) (\<lambda>t1. bindr (read_cell (tb_times b) (front b)) (\<lambda>t2.
           Inr (ddiv (dsub v2 v1) (dsub (dbl_of_int t2) (dbl_of_int t1))))))))"

section \<open>The history\<close>

definition recorded :: "'v sample_ring \<Rightarrow> 'v list" where
  "recorded b = map the (ring_list b (cells b))"

definition sample_ring_ok :: "'v sample_ring \<Rightarrow> bool" where
  "sample_ring_ok b \<longleftrightarrow> ring_inv b \<and> int (length (cells b)) = bufsize b \<and> None \<notin> set (ring_list b (cells b))"

section \<open>Lemmas\<close>

lemma length_recorded [simp]: "length (recorded b) = nat (ring_length b)"
  by (simp add: recorded_def)

lemma read_recorded:
  assumes "sample_ring_ok b" "i < nat (ring_length b)"
  shows "read_cell (cells b) (ring_slot b (int i)) = Inr (recorded b ! i)"
proof -
  have inv: "ring_inv b" using assms(1) by (simp add: sample_ring_ok_def)
  have f: "0 \<le> front b" "int i < bufsize b"
    using ring_length_bounds [OF inv] assms(2) inv by (auto simp: ring_inv_def)
  have "0 \<le> ring_slot b (int i)" "ring_slot b (int i) < bufsize b"
    using ring_slot_range [OF inv f(1)] f(2) by auto
  moreover have "ring_list b (cells b) ! i \<in> set (ring_list b (cells b))"
    using assms(2) by (intro nth_mem) simp
  then have "ring_list b (cells b) ! i \<noteq> None" using assms(1) unfolding sample_ring_ok_def by metis
  ultimately show ?thesis
    using assms by (auto simp: read_cell_def sample_ring_ok_def recorded_def ring_list_nth)
qed

lemma buffer_append_history:
  assumes "sample_ring_ok b"
  shows "\<exists>b'. buffer_append f x b = Inr b' \<and> sample_ring_ok b' \<and> bufsize b' = bufsize b \<and>
    recorded b' = take (nat (bufsize b)) (x # recorded b)"
proof -
  have inv: "ring_inv b" and len: "int (length (cells b)) = bufsize b" and some: "None \<notin> set (ring_list b (cells b))"
    using assms by (simp_all add: sample_ring_ok_def)
  have nf: "0 \<le> next_front b" "next_front b < bufsize b" using next_front_range [OF inv] by auto
  have "\<exists>v. read_cell (cells b) (next_front b) = Inr v" if "next_front b = back b"
  proof -
    have fr: "0 \<le> front b" using that nf inv by (auto simp: ring_inv_def)
    have "nat (ring_length b - 1) < nat (ring_length b)" "0 \<le> ring_length b - 1"
      using ring_length_bounds [OF inv] fr by auto
    from read_recorded [OF assms this(1)] this(2) show ?thesis
      using ring_slot_last [OF inv fr] that by auto
  qed
  then obtain tot where tot: "(if next_front b = back b
      then mapr (\<lambda>v. total_sub (running_total b) (f v)) (read_cell (cells b) (next_front b)) else Inr (running_total b)) = Inr tot"
    by (cases "next_front b = back b") auto
  define b' where "b' = (ring_advance b)\<lparr>cells := (cells b)[nat (next_front b) := Some x], running_total := total_add tot (f x)\<rparr>"
  have add: "buffer_append f x b = Inr b'"
    using nf len unfolding buffer_append_def tot by (simp add: write_cell_in b'_def)
  have "ring_list b' (cells b') = ring_list (ring_advance b) (cells b')"
    by (rule ring_list_cong) (simp_all add: b'_def)
  then have l: "ring_list b' (cells b') = take (nat (bufsize b)) (Some x # ring_list b (cells b))"
    using ring_list_advance [OF inv len] by (simp add: b'_def)
  have "ring_inv b'" using ring_inv_advance [OF inv] by (simp add: b'_def ring_inv_def)
  then have "sample_ring_ok b'"
    using some ring_list_update_set [of _ x b "cells b"] len unfolding sample_ring_ok_def l by (auto simp: b'_def)
  moreover have "recorded b' = take (nat (bufsize b)) (x # recorded b)"
    unfolding recorded_def l by (simp add: take_map [symmetric])
  ultimately show ?thesis using add by (auto simp: b'_def)
qed

interpretation float_samples: sample_history FloatBuffer_append "\<lambda>x. x" recorded "\<lambda>b. nat (bufsize b)" sample_ring_ok
proof unfold_locales
  fix b :: float_buffer and x
  assume "sample_ring_ok b"
  then show "\<exists>b'. FloatBuffer_append x b = Inr b' \<and> sample_ring_ok b' \<and> nat (bufsize b') = nat (bufsize b) \<and>
      recorded b' = take (nat (bufsize b)) (x # recorded b)"
    using buffer_append_history [of b _ x] unfolding FloatBuffer_append_def by metis
qed

interpretation long_samples: sample_history LongBuffer_append "\<lambda>x. x" recorded "\<lambda>b. nat (bufsize b)" sample_ring_ok
proof unfold_locales
  fix b :: long_buffer and x
  assume "sample_ring_ok b"
  then show "\<exists>b'. LongBuffer_append x b = Inr b' \<and> sample_ring_ok b' \<and> nat (bufsize b') = nat (bufsize b) \<and>
      recorded b' = take (nat (bufsize b)) (x # recorded b)"
    using buffer_append_history [of b _ x] unfolding LongBuffer_append_def by metis
qed

lemma first_of_slot:
  assumes "ring_inv b" "0 < m" "m \<le> ring_length b"
  shows "first_of b m = ring_slot b (m - 1)"
proof -
  have f: "0 \<le> front b" "front b < bufsize b" "m \<le> bufsize b" "bufsize b \<le> 2147483647"
    using assms ring_length_bounds [OF assms(1)] ring_inv_size [OF assms(1)] by (auto simp: ring_inv_def)
  then have "0 \<le> front b + bufsize b - m + 1" "0 < bufsize b" using assms(2) by auto
  then show ?thesis
    using f assms(2) by (simp add: first_of_def remt_nonneg ring_slot_def to_u32_id algebra_simps)
qed

lemma following_slot:
  assumes "ring_inv b" "Suc j < nat (ring_length b)"
  shows "following b (ring_slot b (int (Suc j))) = ring_slot b (int j)"
  using ring_older_slot [OF assms] ring_inv_size [OF assms(1)] by (simp add: following_def remt_nonneg)

lemma getFloatAtIndex_slot:
  "sample_ring_ok b \<Longrightarrow> i < nat (ring_length b) \<Longrightarrow> getFloatAtIndex f b (ring_slot b (int i)) = Inr (f (recorded b ! i))"
  by (simp add: getFloatAtIndex_def read_recorded)

lemma walk_sum_history:
  assumes "sample_ring_ok b"
  shows "j < nat (ring_length b) \<Longrightarrow> j < k \<Longrightarrow>
    walk_sum k f b (ring_slot b (int j)) acc = Inr (Some (foldl dadd acc (rev (map f (take (Suc j) (recorded b))))))"
proof (induction j arbitrary: k acc)
  case 0
  have inv: "ring_inv b" using assms by (simp add: sample_ring_ok_def)
  then have "ring_slot b 0 = front b" using 0 ring_length_bounds [OF inv] by (intro ring_slot_0) (auto simp: ring_inv_def)
  then show ?case using 0 getFloatAtIndex_slot [OF assms, of 0 f] by (cases k) (simp_all add: take_Suc_conv_app_nth)
next
  case (Suc j)
  have inv: "ring_inv b" using assms by (simp add: sample_ring_ok_def)
  obtain k' where k: "k = Suc k'" using Suc.prems by (cases k) auto
  have "take (Suc (Suc j)) (recorded b) = take (Suc j) (recorded b) @ [recorded b ! Suc j]"
    using Suc.prems by (simp add: take_Suc_conv_app_nth)
  then show ?case
    using Suc k getFloatAtIndex_slot [OF assms Suc.prems(1), of f] ring_older_slot(4) [OF inv Suc.prems(1)]
      following_slot [OF inv Suc.prems(1)] by simp
qed

lemma walk_squares_history:
  assumes "sample_ring_ok b"
  shows "Suc j < nat (ring_length b) \<Longrightarrow> j < k \<Longrightarrow>
    walk_squares k f b avg (ring_slot b (int (Suc j))) acc =
      Inr (Some (foldl (\<lambda>r v. dadd r (dmul (dsub v avg) (dsub v avg))) acc (rev (map f (tl (take (Suc (Suc j)) (recorded b)))))))"
proof (induction j arbitrary: k acc)
  case 0
  have inv: "ring_inv b" using assms by (simp add: sample_ring_ok_def)
  have "ring_slot b 0 = front b" using 0 ring_length_bounds [OF inv] inv by (intro ring_slot_0) (auto simp: ring_inv_def)
  moreover have "tl (take (Suc (Suc 0)) (recorded b)) = [recorded b ! Suc 0]"
    using 0 length_recorded [of b] by (cases "recorded b"; cases "tl (recorded b)") auto
  ultimately show ?case
    using 0 getFloatAtIndex_slot [OF assms, of "Suc 0" f] following_slot [OF inv, of 0] by (cases k) (simp_all add: Let_def)
next
  case (Suc j)
  have inv: "ring_inv b" using assms by (simp add: sample_ring_ok_def)
  obtain k' where k: "k = Suc k'" using Suc.prems by (cases k) auto
  have "take (Suc (Suc (Suc j))) (recorded b) = take (Suc (Suc j)) (recorded b) @ [recorded b ! Suc (Suc j)]"
    using Suc.prems by (simp add: take_Suc_conv_app_nth)
  moreover have "take (Suc (Suc j)) (recorded b) \<noteq> []" using Suc.prems length_recorded [of b] by (cases "recorded b") auto
  ultimately have "tl (take (Suc (Suc (Suc j))) (recorded b)) = tl (take (Suc (Suc j)) (recorded b)) @ [recorded b ! Suc (Suc j)]"
    by simp
  moreover have "ring_slot b (int (Suc j)) \<noteq> front b" using ring_older_slot(4) [OF inv] Suc.prems by simp
  ultimately show ?case
    using Suc k getFloatAtIndex_slot [OF assms Suc.prems(1), of f] following_slot [OF inv Suc.prems(1)]
    by (simp add: Let_def del: of_nat_Suc)
qed

lemma buffer_average_history:
  assumes "sample_ring_ok b" "0 < n" "0 < ring_length b"
  shows "buffer_average f b n = Inr (Some (ddiv (foldl dadd (dzero False) (rev (map f (take (nat n) (recorded b)))))
    (dbl_of_int (min n (ring_length b)))))"
proof -
  have inv: "ring_inv b" using assms(1) by (simp add: sample_ring_ok_def)
  define m where "m = min n (ring_length b)"
  have m: "0 < m" "m \<le> ring_length b" "int (nat (m - 1)) = m - 1" using assms by (auto simp: m_def)
  have bounds: "nat (m - 1) < nat (ring_length b)" "nat (m - 1) < nat (bufsize b)"
    using m ring_length_bounds [OF inv] by auto
  have "take (Suc (nat (m - 1))) (recorded b) = take (nat n) (recorded b)"
  proof (cases "n \<le> ring_length b")
    case True
    then have "Suc (nat (m - 1)) = nat n" using assms by (auto simp: m_def)
    then show ?thesis by simp
  next
    case False
    then have "length (recorded b) \<le> Suc (nat (m - 1))" "length (recorded b) \<le> nat n" by (auto simp: m_def)
    then show ?thesis by simp
  qed
  moreover have "front b \<noteq> - 1" using assms(3) by (auto simp: ring_length_empty)
  ultimately show ?thesis
    using walk_sum_history [OF assms(1) bounds, of f "dzero False"] first_of_slot [OF inv m(1,2)] m assms
    by (simp add: buffer_average_def Let_def m_def [symmetric])
qed

section \<open>Properties\<close>

text \<open>
  The average over \<open>n\<close> samples returns, and is the mean of the newest \<open>n\<close>
  samples (all of them when there are fewer), added from the oldest to the newest: the loop
  that runs until it meets \<open>front\<close> visits exactly these cells.
\<close>

lemma average_of_newest_samples:
  assumes "sample_ring_ok b" "0 < n" "0 < ring_length b"
  shows "buffer_average f b n = Inr (Some (ddiv (foldl dadd (dzero False) (rev (map f (take (nat n) (recorded b)))))
    (dbl_of_int (min n (ring_length b)))))"
  using assms by (rule buffer_average_history)

text \<open>
  The standard deviation over \<open>n\<close> samples, with two samples or more, divides by
  one less than their number but adds up the squares of all of them except the newest: the loop
  stops when it reaches \<open>front\<close>, before looking at it.
\<close>

lemma stddev_omits_newest:
  assumes "sample_ring_ok b" "1 < n" "1 < ring_length b"
  shows "let m = min n (ring_length b); vs = map f (take (nat m) (recorded b));
             avg = ddiv (foldl dadd (dzero False) (rev vs)) (dbl_of_int m)
    in buffer_stddev f b n = Inr (Some (dsqrt (ddiv
         (foldl (\<lambda>r v. dadd r (dmul (dsub v avg) (dsub v avg))) (dzero False) (rev (tl vs))) (dbl_of_int (m - 1)))))"
proof -
  have inv: "ring_inv b" using assms(1) by (simp add: sample_ring_ok_def)
  define m where "m = min n (ring_length b)"
  have m: "1 < m" "m \<le> ring_length b" using assms by (auto simp: m_def)
  define j where "j = nat (m - 2)"
  have j: "nat m = Suc (Suc j)" using m by (simp add: j_def nat_eq_iff)
  then have slot: "first_of b m = ring_slot b (int (Suc j))"
    using first_of_slot [OF inv, of m] m by (simp add: nat_eq_iff)
  have bounds: "Suc j < nat (ring_length b)" "j < nat (bufsize b)"
    using j m ring_length_bounds [OF inv] by auto
  have "take (nat n) (recorded b) = take (nat m) (recorded b)"
    by (cases "n \<le> ring_length b") (auto simp: m_def)
  then have "buffer_average f b n = Inr (Some (ddiv (foldl dadd (dzero False) (rev (map f (take (nat m) (recorded b))))) (dbl_of_int m)))"
    using buffer_average_history [OF assms(1), of n f] assms by (simp add: m_def)
  moreover have "front b \<noteq> - 1" using assms(3) by (auto simp: ring_length_empty)
  ultimately show ?thesis
    using walk_squares_history [OF assms(1) bounds, of f _ "dzero False"] assms slot
    by (simp add: buffer_stddev_def Let_def m_def [symmetric] j map_tl [symmetric] del: of_nat_Suc)
qed

end
