(* ===== verification/Cw_Bits.thy ===== *)
theory Cw_Bits
  imports Cw_Double "HOL-Library.Word"
begin

unbundle bit_operations_syntax

text \<open>
  Three small components: the bit copying of process data in \<open>src/iod/src/bit_ops.cpp\<close>, the
  header of messages between sockets in \<open>src/iod/src/MessageHeader.cpp\<close>, and the rate limiter
  of \<open>src/iod/src/rate.cpp\<close>. Bytes and the fields of a header are machine words.
\<close>

section \<open>Bits\<close>

definition set_bit_byte :: "8 word \<Rightarrow> nat \<Rightarrow> bool \<Rightarrow> 8 word" where
  "set_bit_byte q bitpos val =
     (let bitmask = push_bit bitpos (1 :: 8 word)
      in if val then q OR bitmask else q AND (0xff - bitmask))"

text \<open>The loop over the bits of a byte, from the mask \<open>0x80\<close> down.\<close>

primrec copy_masked_byte :: "nat \<Rightarrow> 8 word \<Rightarrow> 8 word \<Rightarrow> 8 word \<Rightarrow> 8 word \<Rightarrow> 8 word" where
  "copy_masked_byte 0 bitmask dest src msk = dest"
| "copy_masked_byte (Suc i) bitmask dest src msk =
     copy_masked_byte i (drop_bit 1 bitmask)
       (if msk AND bitmask \<noteq> 0
        then if src AND bitmask \<noteq> 0 then dest OR bitmask else dest AND (0xff - bitmask)
        else dest) src msk"

fun copyMaskedBits :: "8 word list \<Rightarrow> 8 word list \<Rightarrow> 8 word list \<Rightarrow> nat \<Rightarrow> 8 word list res" where
  "copyMaskedBits dest src msk 0 = Inr dest"
| "copyMaskedBits (d # ds) (s # ss) (m # ms) (Suc n) =
     mapr (\<lambda>r. copy_masked_byte 8 0x80 d s m # r) (copyMaskedBits ds ss ms n)"
| "copyMaskedBits _ _ _ (Suc n) = Inl OutOfRange"

section \<open>Message headers\<close>

record message_header =
  msgid :: "32 word"
  dest :: "32 word"
  source :: "32 word"
  start_time :: "64 word"
  arrival_time :: "64 word"
  options :: "32 word"

definition NEED_REPLY :: "32 word" where
  "NEED_REPLY = 1"

text \<open>The constructor, with the static counter \<open>last_id\<close> before and after.\<close>

definition MessageHeader :: "32 word \<Rightarrow> 32 word \<Rightarrow> 32 word \<Rightarrow> bool \<Rightarrow> message_header \<times> 32 word" where
  "MessageHeader last_id dst src need_reply =
     (\<lparr>msgid = last_id + 1, dest = dst, source = src, start_time = 0, arrival_time = 0,
       options = (if need_reply then 0 OR NEED_REPLY else 0)\<rparr>, last_id + 1)"

definition needReply :: "bool \<Rightarrow> message_header \<Rightarrow> message_header" where
  "needReply needs h =
     (if needs then h\<lparr>options := options h OR NEED_REPLY\<rparr>
      else h\<lparr>options := options h AND ((- 1) XOR NEED_REPLY)\<rparr>)"

definition needsReply :: "message_header \<Rightarrow> bool" where
  "needsReply h \<longleftrightarrow> options h AND NEED_REPLY = NEED_REPLY"

definition header_reply :: "message_header \<Rightarrow> message_header" where
  "header_reply h = h\<lparr>dest := source h, source := dest h\<rparr>"

section \<open>The rate limiter\<close>

datatype back_off = boaNone | boaStep | boaGeometric

record rate_limiter =
  back_off :: back_off
  delay :: int
  start_delay :: int
  last_ready :: int
  delay_step :: int
  max_delay :: int
  scale :: double

definition default_limiter :: rate_limiter where
  "default_limiter = \<lparr>back_off = boaGeometric, delay = 100000, start_delay = 100000, last_ready = 0,
     delay_step = 20000, max_delay = 4000000, scale = dlit 105 2\<rparr>"

text \<open>\<open>msec * 1000\<close> is an \<open>int\<close> product.\<close>

definition RateLimiter :: "int \<Rightarrow> back_off \<Rightarrow> rate_limiter res" where
  "RateLimiter msec boa =
     (let d = msec * 1000
      in if INT_MIN \<le> d \<and> d \<le> INT_MAX
         then Inr \<lparr>back_off = boa, delay = to_u64 d, start_delay = to_u64 d, last_ready = 0,
                   delay_step = 20000, max_delay = 4000000, scale = dbl_of_int 1\<rparr>
         else Inl SignedOverflow)"

text \<open>The cast of a \<open>double\<close> to \<open>uint64_t\<close>.\<close>

definition u64_of_dbl :: "double \<Rightarrow> int res" where
  "u64_of_dbl x = (case x of
     Fin s m e \<Rightarrow> (let t = trunc_fin s m e in if 0 \<le> t \<and> t < 18446744073709551616 then Inr t else Inl ConversionRange)
   | _ \<Rightarrow> Inl ConversionRange)"

definition limiter_ready :: "int \<Rightarrow> rate_limiter \<Rightarrow> (bool \<times> rate_limiter) res" where
  "limiter_ready now r =
     (if delay r \<le> to_u64 (now - last_ready r)
      then bindr (case back_off r of
                    boaStep \<Rightarrow> Inr (to_u64 (delay r + delay_step r))
                  | boaGeometric \<Rightarrow> u64_of_dbl (dmul (dbl_of_int (delay r)) (scale r))
                  | boaNone \<Rightarrow> Inr (delay r)) (\<lambda>d.
           Inr (True, r\<lparr>last_ready := now, delay := (if max_delay r < d then max_delay r else d)\<rparr>))
      else Inr (False, r))"

definition limiter_reset :: "rate_limiter \<Rightarrow> rate_limiter" where
  "limiter_reset r = r\<lparr>delay := start_delay r\<rparr>"

definition setStep :: "int \<Rightarrow> rate_limiter \<Rightarrow> rate_limiter" where
  "setStep msecs r = r\<lparr>delay_step := to_u64 (msecs * 1000)\<rparr>"

definition setScale :: "double \<Rightarrow> rate_limiter \<Rightarrow> rate_limiter" where
  "setScale s r = r\<lparr>scale := s\<rparr>"

definition setMaxDelay :: "int \<Rightarrow> rate_limiter \<Rightarrow> rate_limiter" where
  "setMaxDelay msecs r = r\<lparr>max_delay := to_u64 (msecs * 1000)\<rparr>"

section \<open>Lemmas\<close>

text \<open>One turn of the loop over the bits of a byte.\<close>

lemma ff_minus: "(0xff :: 8 word) - m = NOT m"
proof -
  have "(0xff :: 8 word) = - 1" by simp
  then show ?thesis by (simp add: not_eq_complement)
qed

lemma bit_copy_step:
  "k < 8 \<Longrightarrow> bit (if m AND push_bit k 1 \<noteq> 0
     then if s AND push_bit k 1 \<noteq> 0 then d OR push_bit k 1 else d AND (0xff - push_bit k 1) else d) n =
     (if n = k \<and> bit m k then bit s k else bit d n)" for d s m :: "8 word"
  unfolding bit_iff_and_push_bit_not_eq_0 [symmetric] ff_minus
  by (auto simp: bit_simps dest: bit_imp_le_length)

lemma bit_copy_masked_byte:
  "k < 8 \<Longrightarrow> bit (copy_masked_byte (Suc k) (push_bit k 1) d s m) n =
     (if n \<le> k \<and> bit m n then bit s n else bit d n)" for d s m :: "8 word"
proof (induction k arbitrary: d)
  case 0
  show ?case unfolding copy_masked_byte.simps bit_copy_step [OF 0] by auto
next
  case (Suc k)
  have shift: "drop_bit 1 (push_bit (Suc k) (1 :: 8 word)) = push_bit k 1"
    using Suc.prems by (intro bit_word_eqI) (auto simp: bit_simps)
  have k: "k < 8" using Suc.prems by simp
  show ?case
    unfolding copy_masked_byte.simps(2) [of "Suc k" "push_bit (Suc k) 1"] shift Suc.IH [OF k] bit_copy_step [OF Suc.prems]
    by (auto simp: le_Suc_eq)
qed

lemma copy_masked_byte_eq: "copy_masked_byte 8 0x80 d s m = (s AND m) OR (d AND NOT m)"
proof (rule bit_word_eqI)
  fix n
  assume n: "n < LENGTH(8)"
  have "(0x80 :: 8 word) = push_bit 7 1" by simp
  moreover have "(8 :: nat) = Suc 7" by simp
  ultimately show "bit (copy_masked_byte 8 0x80 d s m) n = bit ((s AND m) OR (d AND NOT m)) n"
    using bit_copy_masked_byte [of 7 d s m n] n by (auto simp: bit_simps)
qed

lemma limiter_ready_bounds:
  assumes "limiter_ready now r = Inr (b, r')" "delay r \<le> max_delay r"
  shows "delay r' \<le> max_delay r' \<and> (b \<longrightarrow> delay r \<le> to_u64 (now - last_ready r) \<and> last_ready r' = now)"
proof (cases "delay r \<le> to_u64 (now - last_ready r)")
  case True
  then obtain d where "b" "r' = r\<lparr>last_ready := now, delay := (if max_delay r < d then max_delay r else d)\<rparr>"
    using assms(1) by (auto simp: limiter_ready_def bindr_Inr_iff)
  then show ?thesis using True by simp
qed (use assms in \<open>auto simp: limiter_ready_def\<close>)

lemma reply_twice: "header_reply (header_reply h) = h"
  by (simp add: header_reply_def)

lemma needsReply_needReply: "needsReply (needReply b h) = b"
proof (cases b)
  case True
  have "(options h OR 1) AND 1 = 1" by (intro bit_word_eqI) (auto simp: bit_simps)
  then show ?thesis using True by (simp add: needsReply_def needReply_def NEED_REPLY_def)
qed (simp add: needsReply_def needReply_def NEED_REPLY_def and.assoc)

section \<open>Properties\<close>

text \<open>
  Copying masked bits is, byte by byte, \<open>(src AND mask) OR (dest AND NOT mask)\<close>: the
  bits under the mask come from the source, every other bit of the destination is kept, and no
  byte beyond the length changes.
\<close>

lemma copyMaskedBits_selects:
  assumes "n \<le> length ds" "n \<le> length ss" "n \<le> length ms"
  shows "copyMaskedBits ds ss ms n =
    Inr (map (\<lambda>(d, s, m). (s AND m) OR (d AND NOT m)) (take n (zip ds (zip ss ms))) @ drop n ds)"
  using assms
proof (induction ds ss ms n rule: copyMaskedBits.induct)
  case (2 d ds s ss m ms n)
  then show ?case by (simp add: copy_masked_byte_eq)
qed auto

end
