(* ===== verification/Cw_Modbus.thy ===== *)
theory Cw_Modbus
  imports Cw_CLib "HOL-Library.Word"
begin

unbundle bit_operations_syntax

text \<open>
  The modbus client's helpers: the serial port settings of \<open>src/modbus/src/modbus_helpers.cpp\<close>,
  the decoding of PLC addresses of \<open>plc_interface.cpp\<close>, and the monitored values and the map
  of addresses of \<open>monitor.cpp\<close>. Reading files and the modbus library itself are left out.
\<close>

section \<open>Serial port settings\<close>

record serial_settings =
  baud :: int
  bits :: int
  parity :: char
  stop_bits :: int

datatype settings_state = cs_baud | cs_bits | cs_parity | cs_stop | cs_end

text \<open>The fields that \<open>strsep\<close> cuts at colons.\<close>

fun fields :: "string \<Rightarrow> string \<Rightarrow> string list" where
  "fields acc [] = [rev acc]"
| "fields acc (c # cs) = (if c = CHR '':'' then rev acc # fields [] cs else fields (c # acc) cs)"

definition to_uint :: "int \<Rightarrow> int" where
  "to_uint i = i mod 4294967296"

text \<open>The loop over the fields. The assignment \<open>state = cs_end\<close> follows a \<open>break\<close>.\<close>

fun read_settings :: "settings_state \<Rightarrow> string list \<Rightarrow> serial_settings \<Rightarrow> int \<times> serial_settings" where
  "read_settings state [] s = (0, s)"
| "read_settings state (fld # flds) s =
     (if state = cs_end then (0, s)
      else if fld = [] then read_settings state flds s
      else let (val, tmp) = (if state \<noteq> cs_parity then strtol 10 fld else (8, []))
           in if tmp \<noteq> [] then (1, s)
              else (case state of
                  cs_baud \<Rightarrow> read_settings cs_bits flds (s\<lparr>baud := to_uint val\<rparr>)
                | cs_bits \<Rightarrow> read_settings cs_parity flds
                    (if val = 8 then s\<lparr>bits := 8\<rparr> else if val = 7 then s\<lparr>bits := 7\<rparr> else s)
                | cs_parity \<Rightarrow> read_settings cs_stop flds (s\<lparr>parity := c_toupper (hd fld)\<rparr>)
                | cs_stop \<Rightarrow> read_settings cs_stop flds
                    (if val = 2 then s\<lparr>stop_bits := 2\<rparr> else if val = 1 then s\<lparr>stop_bits := 1\<rparr> else s)
                | cs_end \<Rightarrow> (0, s)))"

definition getSettings :: "string \<Rightarrow> serial_settings \<Rightarrow> int \<times> serial_settings" where
  "getSettings str s = read_settings cs_baud (fields [] str) s"

definition isPrintable :: "string \<Rightarrow> bool" where
  "isPrintable str \<longleftrightarrow> list_all c_isprint str"

section \<open>PLC addresses\<close>

record plc_mapping =
  plc_code :: string
  plc_start :: int
  plc_end :: int
  plc_group :: int
  plc_address :: int

text \<open>The letters before the address; the array \<open>code\<close> keeps at most nine of them.\<close>

definition address_code :: "string \<Rightarrow> string" where
  "address_code s = take 9 (takeWhile c_isalpha s)"

text \<open>The base, and the digits that \<open>strtol\<close> reads.\<close>

definition address_digits :: "string \<Rightarrow> nat \<times> string" where
  "address_digits s =
     (if 2 < length s \<and> s ! 0 = CHR ''0'' \<and> s ! 1 = CHR ''x'' then (16, drop 2 s)
      else if 1 < length s \<and> s ! 0 = CHR ''0'' then (8, drop 2 s)
      else (10, s))"

definition plc_decode :: "(string \<times> plc_mapping) list \<Rightarrow> string \<Rightarrow> int \<times> int" where
  "plc_decode mappings address =
     (let (base, ds) = address_digits (dropWhile c_isalpha address);
          addr = to_int32 (fst (strtol base ds))
      in case amap_find mappings (address_code address) of
           None \<Rightarrow> (- 1, - 1)
         | Some m \<Rightarrow> (to_int32 (plc_group m), to_int32 (plc_address m + addr)))"

definition fromOctal :: "string \<Rightarrow> int" where
  "fromOctal s = to_uint (fst (strtol 8 s))"

section \<open>Values of registers\<close>

text \<open>Binary coded decimals, the most significant word last.\<close>

definition bcd_word :: "16 word \<Rightarrow> int" where
  "bcd_word x =
     (let tmp = uint (drop_bit 12 (0xf000 AND x)) * 10 + uint (drop_bit 8 (0x0f00 AND x))
      in tmp * 100 + uint (drop_bit 4 (0xf0 AND x)) * 10 + uint (0x0f AND x))"

definition fromBCD :: "16 word list \<Rightarrow> int" where
  "fromBCD data = foldr (\<lambda>x r. r * 10000 + bcd_word x) data 0"

text \<open>Setting a value of bits from bytes, one byte for each bit.\<close>

definition bit_set_bytes :: "nat \<Rightarrow> 8 word list \<Rightarrow> 8 word list res" where
  "bit_set_bytes len data = (if len \<le> length data then Inr (take len data) else Inl OutOfRange)"

text \<open>Setting it from words writes two bytes for each of \<open>len\<close> words into an array of \<open>len\<close> bytes.\<close>

definition bit_set_words :: "nat \<Rightarrow> 16 word list \<Rightarrow> 8 word list res" where
  "bit_set_words len data =
     (if length data < len then Inl OutOfRange
      else let bytes = concat (map (\<lambda>x. [ucast (drop_bit 8 (x AND 0xff00)), ucast (x * 0x00ff)]) (take len data))
           in if length bytes \<le> len then Inr bytes else Inl OutOfRange)"

definition word_set_bytes :: "nat \<Rightarrow> 8 word list \<Rightarrow> 16 word list res" where
  "word_set_bytes len data =
     (if 2 * len \<le> length data
      then Inr (map (\<lambda>i. ucast (data ! (2 * i)) + push_bit 8 (ucast (data ! (2 * i + 1)))) [0..<len])
      else Inl OutOfRange)"

text \<open>A decimal value is stored as four bytes, whatever the length.\<close>

definition word_set_words :: "string \<Rightarrow> nat \<Rightarrow> 16 word list \<Rightarrow> 16 word list res" where
  "word_set_words fmt len data =
     (if length data < len then Inl OutOfRange
      else if fmt = ''BCD'' \<and> (len = 1 \<or> len = 2)
      then (let r = (word_of_int (fromBCD (take len data)) :: 32 word)
            in if 4 \<le> 2 * len then Inr [ucast r, ucast (drop_bit 16 r)] else Inl OutOfRange)
      else Inr (take len data))"

section \<open>Monitors\<close>

datatype modbus_value = BitValue "8 word list" | WordValue string "16 word list"

record modbus_monitor =
  mon_name :: string
  mon_group :: int
  mon_address :: int
  mon_len :: nat
  mon_format :: string
  mon_read_only :: bool

text \<open>Groups 0 and 1 hold bits, groups 3 and 4 words; the constructor refuses any other.\<close>

definition monitor_kind :: "int \<Rightarrow> bool option" where
  "monitor_kind g = (if g = 0 \<or> g = 1 then Some True else if g = 3 \<or> g = 4 then Some False else None)"

definition address_key :: "int \<Rightarrow> int \<Rightarrow> int" where
  "address_key grp adr = to_uint (to_uint (grp * 65536) + adr)"

text \<open>The map from addresses to monitors, which are identified by numbers.\<close>

definition lookupAddress :: "(int \<times> nat) list \<Rightarrow> int \<Rightarrow> nat option" where
  "lookupAddress addresses adr = amap_find addresses adr"

definition monitor_lookup :: "(int \<times> nat) list \<Rightarrow> int \<Rightarrow> int \<Rightarrow> nat option" where
  "monitor_lookup addresses grp adr = lookupAddress addresses (address_key grp adr)"

definition monitor_add :: "nat \<Rightarrow> modbus_monitor \<Rightarrow> (int \<times> nat) list \<Rightarrow> (int \<times> nat) list" where
  "monitor_add this m addresses =
     fold (\<lambda>i. amap_put (to_uint (address_key (mon_group m) (mon_address m) + int i)) this)
       [0..<mon_len m] addresses"

text \<open>Four decimal digits as a word.\<close>

definition to_bcd :: "nat \<Rightarrow> 16 word" where
  "to_bcd n = word_of_nat (n div 1000 * 4096 + n div 100 mod 10 * 256 + n div 10 mod 10 * 16 + n mod 10)"

section \<open>Lemmas\<close>

lemma nibble:
  "uint (drop_bit k (push_bit k 15 AND x)) = uint x div 2 ^ k mod 16" if "k \<le> 12" for x :: "16 word"
proof -
  have "(15 :: 16 word) = mask 4" by (simp add: mask_eq_exp_minus_1)
  then have "push_bit k (15 :: 16 word) = push_bit k (mask 4)" by (simp only:)
  moreover have "uint (drop_bit k (push_bit k (mask 4) AND x)) = take_bit 4 (drop_bit k (uint x))"
    using that by (intro bit_eqI) (auto simp: bit_simps dest: bit_imp_le_length)
  ultimately show ?thesis by (simp add: take_bit_eq_mod drop_bit_eq_div)
qed

lemma bcd_word_digits:
  "bcd_word x = uint x div 4096 mod 16 * 1000 + uint x div 256 mod 16 * 100 + uint x div 16 mod 16 * 10 + uint x mod 16"
proof -
  have masks: "(0xf000 :: 16 word) = push_bit 12 15" "(0x0f00 :: 16 word) = push_bit 8 15" "(0xf0 :: 16 word) = push_bit 4 15"
    by simp_all
  have "uint (0x0f AND x) = uint x mod 16" using nibble [of 0 x] by simp
  then have "bcd_word x = (uint x div 2 ^ 12 mod 16 * 10 + uint x div 2 ^ 8 mod 16) * 100 + uint x div 2 ^ 4 mod 16 * 10 + uint x mod 16"
    unfolding bcd_word_def Let_def masks by (simp only: nibble order.refl numeral_le_iff semiring_norm)
  moreover have "(2 :: int) ^ 12 = 4096" "(2 :: int) ^ 8 = 256" "(2 :: int) ^ 4 = 16" by simp_all
  moreover have "(a * 10 + b) * 100 + c * 10 + d = a * 1000 + b * 100 + c * 10 + d" for a b c d :: int by simp
  ultimately show ?thesis by (simp only:)
qed

lemma uint_to_bcd:
  assumes "n < 10000"
  shows "uint (to_bcd n) = int (n div 1000 * 4096 + n div 100 mod 10 * 256 + n div 10 mod 10 * 16 + n mod 10)"
proof -
  have word: "uint (word_of_nat k :: 16 word) = int k" if "k < 65536" for k
    using that by (simp add: unsigned_of_nat take_bit_nat_eq_self)
  have bound: "a * 4096 + b * 256 + c * 16 + d < 65536" if "a < 10" "b < 10" "c < 10" "d < 10" for a b c d :: nat
    using that by linarith
  have "n div 1000 < 10" using assms by (simp add: less_mult_imp_div_less)
  then show ?thesis unfolding to_bcd_def by (intro word bound) simp_all
qed

lemma bcd_word_to_bcd:
  assumes "n < 10000"
  shows "bcd_word (to_bcd n) = int n"
proof -
  define a b c d where "a = int (n div 1000)" and "b = int (n div 100 mod 10)"
    and "c = int (n div 10 mod 10)" and "d = int (n mod 10)"
  have r: "0 \<le> a" "a < 10" "0 \<le> b" "b < 10" "0 \<le> c" "c < 10" "0 \<le> d" "d < 10"
    using assms by (simp_all add: a_def b_def c_def d_def less_mult_imp_div_less)
  have u: "uint (to_bcd n) = a * 4096 + b * 256 + c * 16 + d"
    using uint_to_bcd [OF assms] by (simp add: a_def b_def c_def d_def)
  have "(a * 4096 + b * 256 + c * 16 + d) div 4096 = a"
    using r by (intro int_div_pos_eq [of _ _ _ "b * 256 + c * 16 + d"]) auto
  moreover have "(a * 4096 + b * 256 + c * 16 + d) div 256 = a * 16 + b"
    using r by (intro int_div_pos_eq [of _ _ _ "c * 16 + d"]) auto
  moreover have "(a * 4096 + b * 256 + c * 16 + d) div 16 = a * 256 + b * 16 + c"
    using r by (intro int_div_pos_eq [of _ _ _ d]) auto
  moreover have "(a * 4096 + b * 256 + c * 16 + d) mod 16 = d"
    using r by (intro int_mod_pos_eq [of _ _ "a * 256 + b * 16 + c"]) auto
  moreover have "a mod 16 = a" "(a * 16 + b) mod 16 = b" "(a * 256 + b * 16 + c) mod 16 = c"
    using r int_mod_pos_eq [of "a * 16 + b" 16 a b] int_mod_pos_eq [of "a * 256 + b * 16 + c" 16 "a * 16 + b" c] by auto
  ultimately have "bcd_word (to_bcd n) = a * 1000 + b * 100 + c * 10 + d"
    by (simp only: bcd_word_digits u)
  also have "\<dots> = int (n div 1000 * 1000 + n div 100 mod 10 * 100 + n div 10 mod 10 * 10 + n mod 10)"
    by (simp add: a_def b_def c_def d_def)
  also have "n div 1000 * 1000 + n div 100 mod 10 * 100 + n div 10 mod 10 * 10 + n mod 10 = n"
  proof -
    have "n div 1000 = n div 100 div 10" "n div 100 = n div 10 div 10" by (simp_all add: div_mult2_eq [symmetric])
    moreover have "q * 1000 + m2 * 100 + m1 * 10 + m0 = n"
      if "10 * q1 + m0 = n" "10 * q2 + m1 = q1" "10 * q + m2 = q2" for q q1 q2 m0 m1 m2
      using that by linarith
    ultimately show ?thesis by (metis mult_div_mod_eq)
  qed
  finally show ?thesis .
qed

lemma monitor_add_find:
  "amap_find (monitor_add this m addresses) a =
     (if \<exists>i < mon_len m. a = to_uint (address_key (mon_group m) (mon_address m) + int i)
      then Some this else amap_find addresses a)"
proof -
  have "amap_find (fold (\<lambda>i. amap_put (to_uint (k + int i)) this) [0..<n] addresses) a =
      (if \<exists>i < n. a = to_uint (k + int i) then Some this else amap_find addresses a)" for n k
    by (induction n) (auto simp: less_Suc_eq)
  then show ?thesis by (simp add: monitor_add_def)
qed

lemma address_digits_octal:
  assumes "d \<noteq> CHR ''x''"
  shows "address_digits (CHR ''0'' # d # rest) = (8, rest)"
  using assms by (simp add: address_digits_def)

lemma letters_prefix:
  assumes "list_all c_isalpha code"
  shows "takeWhile c_isalpha (code @ CHR ''0'' # rest) = code" "dropWhile c_isalpha (code @ CHR ''0'' # rest) = CHR ''0'' # rest"
proof -
  have "\<not> c_isalpha (CHR ''0'')" by (simp add: c_isalpha_def)
  then show "takeWhile c_isalpha (code @ CHR ''0'' # rest) = code" "dropWhile c_isalpha (code @ CHR ''0'' # rest) = CHR ''0'' # rest"
    using assms by (auto simp: list_all_iff)
qed

section \<open>Properties\<close>



text \<open>
  An address in octal notation, with a leading zero, loses its first octal digit: the
  decoder skips two characters where the prefix has one, so addresses that differ in that digit
  are decoded to the same register.
\<close>

lemma octal_address_skips_digit:
  assumes "list_all c_isalpha code" "d \<noteq> CHR ''x''" "e \<noteq> CHR ''x''"
  shows "plc_decode mappings (code @ CHR ''0'' # d # rest) = plc_decode mappings (code @ CHR ''0'' # e # rest)"
  using assms
  by (simp add: plc_decode_def address_code_def letters_prefix address_digits_octal)

end
