(* ===== verification/Cw_JSON.thy ===== *)
theory Cw_JSON
  imports Cw_CLib
begin

unbundle bit_operations_syntax

text \<open>
  The JSON library of the program, \<open>src/iod/src/cJSON.c\<close>: parsing a text into items, printing
  items, and building and searching them. A pointer into a text is the rest of the text, whose
  end is the terminating null byte; moving a pointer past that byte and reading there is out of
  range. An item is a value of the type \<open>json\<close>; the chain of its children is a list. The exponentiation \<open>pow(10.0, x)\<close> of the mathematical library is an argument of the
  functions that parse numbers. Allocation succeeds.
\<close>

section \<open>Items\<close>

datatype json_type =
    cJSON_False | cJSON_True | cJSON_NULL
  | cJSON_Int int
  | cJSON_Double double
  | cJSON_String string
  | cJSON_Array
  | cJSON_Object

text \<open>An item has a chain of children, each with the name it has in an object, or no name.\<close>

datatype json = Item (json_type: json_type) (child: "(string option \<times> json) list")

text \<open>
  The outcome of a parser: the bound on the recursion is reached, undefined behaviour, a null
  pointer for a text that is not accepted, or an item and the rest of the text.
\<close>

datatype 'a parsed = OutOfFuel | Undefined ub | Bad | Parsed 'a string

definition pbind :: "'a parsed \<Rightarrow> ('a \<Rightarrow> string \<Rightarrow> 'b parsed) \<Rightarrow> 'b parsed" where
  "pbind p f = (case p of OutOfFuel \<Rightarrow> OutOfFuel | Undefined e \<Rightarrow> Undefined e | Bad \<Rightarrow> Bad | Parsed x r \<Rightarrow> f x r)"

definition byte :: "char \<Rightarrow> nat" where
  "byte c = of_char c"

definition schar :: "char \<Rightarrow> int" where
  "schar c = (if byte c < 128 then int (byte c) else int (byte c) - 256)"

definition at :: "string \<Rightarrow> char" where
  "at s = (case s of [] \<Rightarrow> CHR 0x00 | c # _ \<Rightarrow> c)"

abbreviation quote :: char where "quote \<equiv> CHR 0x22"
abbreviation backslash :: char where "backslash \<equiv> CHR 0x5C"

text \<open>\<open>skip\<close> does not stop at the end of the text: a null byte counts as a blank.\<close>

fun json_skip :: "string \<Rightarrow> string res" where
  "json_skip [] = Inl OutOfRange"
| "json_skip (c # cs) = (if byte c \<le> 32 then json_skip cs else Inr (c # cs))"

section \<open>Numbers\<close>

fun int_digits :: "int \<Rightarrow> string \<Rightarrow> (int \<times> string) res" where
  "int_digits n [] = Inr (n, [])"
| "int_digits n (c # cs) =
     (if c_isdigit c
      then bindr (chk_long (n * 10)) (\<lambda>m. bindr (chk_long (m + (int (byte c) - 48))) (\<lambda>k. int_digits k cs))
      else Inr (n, c # cs))"

text \<open>The loop over the fraction takes a first character whatever it is.\<close>

fun frac_digits :: "double \<Rightarrow> int \<Rightarrow> string \<Rightarrow> (double \<times> int \<times> string) res" where
  "frac_digits x scale [] = Inl OutOfRange"
| "frac_digits x scale (c # cs) =
     (let x' = dadd (dmul x (dbl_of_int 10)) (dbl_of_int (schar c - 48))
      in if c_isdigit (at cs) then frac_digits x' (scale - 1) cs else Inr (x', scale - 1, cs))"

fun exp_digits :: "int \<Rightarrow> string \<Rightarrow> (int \<times> string) res" where
  "exp_digits n [] = Inr (n, [])"
| "exp_digits n (c # cs) =
     (if c_isdigit c
      then bindr (chk_int (n * 10)) (\<lambda>m. bindr (chk_int (m + (int (byte c) - 48))) (\<lambda>k. exp_digits k cs))
      else Inr (n, c # cs))"

definition of_res :: "('a \<times> string) res \<Rightarrow> 'a parsed" where
  "of_res r = (case r of Inl e \<Rightarrow> Undefined e | Inr (x, rest) \<Rightarrow> Parsed x rest)"

definition parse_fraction :: "int \<Rightarrow> string \<Rightarrow> (double option \<times> int \<times> string) res" where
  "parse_fraction n s =
     (if at s = CHR ''.'' then mapr (\<lambda>(x, scale, r). (Some x, scale, r)) (frac_digits (dbl_of_int n) 0 (tl s))
      else Inr (None, 0, s))"

definition parse_exponent :: "string \<Rightarrow> (int option \<times> string) res" where
  "parse_exponent s =
     (if at s = CHR ''e'' \<or> at s = CHR ''E''
      then let neg = (at (tl s) = CHR ''-''); r = (if neg \<or> at (tl s) = CHR ''+'' then tl (tl s) else tl s)
           in mapr (\<lambda>(n, rest). (Some (if neg then - n else n), rest)) (exp_digits 0 r)
      else Inr (None, s))"

definition parse_integer :: "string \<Rightarrow> (int \<times> string) res" where
  "parse_integer s =
     (let s2 = (if at s = CHR ''0'' then tl s else s)
      in if c_isdigit (at s2) \<and> at s2 \<noteq> CHR ''0'' then int_digits 0 s2 else Inr (0, s2))"

text \<open>
  The sign is a \<open>double\<close>, so an integer is multiplied as a \<open>double\<close> and converted back.
\<close>

definition parse_number :: "(double \<Rightarrow> double) \<Rightarrow> string \<Rightarrow> json_type parsed" where
  "parse_number pow10 text =
     (let neg = (at text = CHR ''-''); sign = dbl_of_int (if neg then - 1 else 1)
      in of_res (bindr (parse_integer (if neg then tl text else text)) (\<lambda>(n, s3).
         bindr (parse_fraction n s3) (\<lambda>(frac, scale, s4).
         bindr (parse_exponent s4) (\<lambda>(ex, s5).
         if frac = None \<and> ex = None
         then mapr (\<lambda>i. (cJSON_Int i, s5)) (long_of_dbl (dmul sign (dbl_of_int n)))
         else let x = (case frac of None \<Rightarrow> dbl_of_int n | Some x \<Rightarrow> x);
                  e = dadd (dbl_of_int scale) (dbl_of_int (case ex of None \<Rightarrow> 0 | Some k \<Rightarrow> k))
              in Inr (cJSON_Double (dmul (dmul sign x) (pow10 e)), s5))))))"

text \<open>The conversions \<open>%lf\<close> and \<open>%1.20e\<close>, from the exact binary value.\<close>

definition show_lf :: "double \<Rightarrow> string" where
  "show_lf x = (case x of
     NaN \<Rightarrow> ''nan''
   | Inf s \<Rightarrow> (if s then ''-inf'' else ''inf'')
   | Fin s m e \<Rightarrow>
       (let q = (if 0 \<le> e then m * 2 ^ nat e * 1000000 else div_rne (m * 1000000) (2 ^ nat (- e)))
        in (if s then ''-'' else []) @ show_nat (q div 1000000) @ ''.'' @ pad_left (CHR ''0'') 6 (show_nat (q mod 1000000))))"

fun neg_exponent :: "nat \<Rightarrow> nat \<Rightarrow> nat \<Rightarrow> nat" where
  "neg_exponent 0 n d = 0"
| "neg_exponent (Suc k) n d = (if d \<le> n then 0 else Suc (neg_exponent k (n * 10) d))"

definition show_e20 :: "double \<Rightarrow> string" where
  "show_e20 x = (case x of
     NaN \<Rightarrow> ''nan''
   | Inf s \<Rightarrow> (if s then ''-inf'' else ''inf'')
   | Fin s m e \<Rightarrow>
       (let n = (if 0 \<le> e then m * 2 ^ nat e else m); d = (if 0 \<le> e then 1 else 2 ^ nat (- e));
            k = (if d \<le> n then int (length (show_nat (n div d))) - 1 else - int (neg_exponent 400 n d));
            q0 = (if k \<le> 20 then div_rne (n * 10 ^ nat (20 - k)) d else div_rne n (d * 10 ^ nat (k - 20)));
            q = (if q0 = 10 ^ 21 then 10 ^ 20 else q0); k' = (if q0 = 10 ^ 21 then k + 1 else k);
            ds = pad_left (CHR ''0'') 21 (show_nat q)
        in (if s then ''-'' else []) @ take 1 ds @ ''.'' @ drop 1 ds @ ''e'' @ (if k' < 0 then ''-'' else ''+'')
           @ pad_left (CHR ''0'') 2 (show_nat (nat \<bar>k'\<bar>))))"

definition print_long :: "int \<Rightarrow> string" where
  "print_long i = snprintf_buf 21 (show_int i)"

definition print_double :: "double \<Rightarrow> string" where
  "print_double d = snprintf_buf 64
     (if dne d (dzero False) \<and> (dlt (dabs d) (dlit 1 6) \<or> dlt (dbl_of_int 1000000000) (dabs d)) then show_e20 d else show_lf d)"

section \<open>Strings\<close>

text \<open>
  The first pass over a string counts the bytes to allocate: an escape sequence counts one,
  whatever follows the character after the backslash.
\<close>

fun count_string :: "string \<Rightarrow> nat res" where
  "count_string [] = Inr 0"
| "count_string (c # cs) =
     (if c = quote \<or> byte c \<le> 31 then Inr 0
      else if c = backslash then (case cs of [] \<Rightarrow> Inl OutOfRange | _ # es \<Rightarrow> mapr Suc (count_string es))
      else mapr Suc (count_string cs))"

text \<open>
  \<open>sscanf("%4x")\<close>: blanks, then at most four characters of a hexadecimal number with an
  optional sign and prefix. \<open>None\<close> when there is no number and the variable keeps its value.
\<close>

definition scan_hex4 :: "string \<Rightarrow> nat option" where
  "scan_hex4 s =
     (let (neg, s1) = read_sign (take 4 (dropWhile c_isspace s));
          s2 = (if hex_prefix s1 then drop 2 s1 else s1);
          ds = takeWhile (is_digit_of 16) s2
      in if ds = [] \<or> (s1 = s2 \<and> take 1 s1 = ''0'' \<and> map c_tolower (take 1 (drop 1 s1)) = ''x'') then None
         else Some (if neg then nat ((- int (digits_value 16 ds)) mod 4294967296) else digits_value 16 ds))"

definition utf8 :: "nat \<Rightarrow> string" where
  "utf8 u =
     (if u < 128 then [char_of u]
      else if u < 2048 then [char_of (drop_bit 6 u OR 192), char_of ((u OR 128) AND 191)]
      else [char_of (drop_bit 12 u OR 224), char_of ((drop_bit 6 u OR 128) AND 191), char_of ((u OR 128) AND 191)])"

definition utf8_left :: "nat \<Rightarrow> nat" where
  "utf8_left u = (if u < 128 then u else if u < 2048 then drop_bit 6 u else drop_bit 12 u)"

definition unescape_char :: "char \<Rightarrow> char" where
  "unescape_char c =
     (if c = CHR ''b'' then CHR 0x08 else if c = CHR ''f'' then CHR 0x0C else if c = CHR ''n'' then CHR 0x0A
      else if c = CHR ''r'' then CHR 0x0D else if c = CHR ''t'' then CHR 0x09 else c)"

text \<open>The second pass, with the value of \<open>uc\<close>: no value before the first \<open>sscanf\<close>.\<close>

fun unescape :: "nat option \<Rightarrow> string \<Rightarrow> (string \<times> string) res" where
  "unescape uc [] = Inr ([], [])"
| "unescape uc (c # cs) =
     (if c = quote \<or> byte c \<le> 31 then Inr ([], c # cs)
      else if c \<noteq> backslash then mapr (apfst (Cons c)) (unescape uc cs)
      else (case cs of
          [] \<Rightarrow> Inl OutOfRange
        | e # es \<Rightarrow>
            if e = CHR ''u''
            then (case (case scan_hex4 es of None \<Rightarrow> uc | Some u \<Rightarrow> Some u) of
                    None \<Rightarrow> Inl Indeterminate
                  | Some u \<Rightarrow> if length es < 4 then Inl OutOfRange
                              else mapr (apfst (append (utf8 u))) (unescape (Some (utf8_left u)) (drop 4 es)))
            else mapr (apfst (Cons (unescape_char e))) (unescape uc es)))"

definition parse_string :: "string \<Rightarrow> string parsed" where
  "parse_string str =
     (if at str \<noteq> quote then Bad
      else of_res (bindr (count_string (tl str)) (\<lambda>len.
           bindr (unescape None (tl str)) (\<lambda>(out, rest).
           if len < length out then Inl OutOfRange
           else Inr (c_str out, if at rest = quote then tl rest else rest)))))"

text \<open>A buffer of \<open>room\<close> bytes that receives a text and its null byte.\<close>

definition fits :: "nat \<Rightarrow> string \<Rightarrow> string res" where
  "fits room out = (if length out < room then Inr out else Inl OutOfRange)"

fun count_print :: "string \<Rightarrow> nat" where
  "count_print [] = 0"
| "count_print (c # cs) =
     (if byte c < 32 \<or> c = quote \<or> c = backslash then 2 else 1) + count_print cs"

definition escape_char :: "char \<Rightarrow> string" where
  "escape_char c =
     (if byte c > 31 \<and> c \<noteq> quote \<and> c \<noteq> backslash then [c]
      else if c = backslash \<or> c = quote then [backslash, c]
      else if c = CHR 0x08 then [backslash, CHR ''b''] else if c = CHR 0x0C then [backslash, CHR ''f'']
      else if c = CHR 0x0A then [backslash, CHR ''n''] else if c = CHR 0x0D then [backslash, CHR ''r'']
      else if c = CHR 0x09 then [backslash, CHR ''t''] else [])"

definition print_string_ptr :: "string option \<Rightarrow> string res" where
  "print_string_ptr str = (case str of
     None \<Rightarrow> Inr []
   | Some s \<Rightarrow> fits (count_print (c_str s) + 3) (quote # concat (map escape_char (c_str s)) @ [quote]))"

section \<open>Values, arrays and objects\<close>

definition pskip :: "string \<Rightarrow> (string \<Rightarrow> 'a parsed) \<Rightarrow> 'a parsed" where
  "pskip s f = (case json_skip s of Inl e \<Rightarrow> Undefined e | Inr r \<Rightarrow> f r)"

text \<open>
  The loops over the children take the parser of values as an argument and a bound on the
  number of children. A text that is not accepted gives a null pointer, which \<open>skip\<close> passes on.
\<close>

fun parse_items :: "(string \<Rightarrow> json parsed) \<Rightarrow> nat \<Rightarrow> string \<Rightarrow> (string option \<times> json) list parsed" where
  "parse_items pv 0 s = OutOfFuel"
| "parse_items pv (Suc n) s =
     pskip s (\<lambda>v. pbind (pv v) (\<lambda>j r. pskip r (\<lambda>v.
       if at v = CHR '','' then pbind (parse_items pv n (tl v)) (\<lambda>js. Parsed ((None, j) # js))
       else if at v = CHR '']'' then Parsed [(None, j)] (tl v) else Bad)))"

definition parse_array :: "(string \<Rightarrow> json parsed) \<Rightarrow> nat \<Rightarrow> string \<Rightarrow> json parsed" where
  "parse_array pv n s =
     (if at s \<noteq> CHR ''['' then Bad
      else pskip (tl s) (\<lambda>v.
        if at v = CHR '']'' then Parsed (Item cJSON_Array []) (tl v)
        else pbind (parse_items pv n v) (\<lambda>js. Parsed (Item cJSON_Array js))))"

fun parse_members :: "(string \<Rightarrow> json parsed) \<Rightarrow> nat \<Rightarrow> string \<Rightarrow> (string option \<times> json) list parsed" where
  "parse_members pv 0 s = OutOfFuel"
| "parse_members pv (Suc n) s =
     pskip s (\<lambda>v. pbind (parse_string v) (\<lambda>name r. pskip r (\<lambda>v.
       if at v \<noteq> CHR '':'' then Bad
       else pskip (tl v) (\<lambda>v. pbind (pv v) (\<lambda>j r. pskip r (\<lambda>v.
         if at v = CHR '','' then pbind (parse_members pv n (tl v)) (\<lambda>js. Parsed ((Some name, j) # js))
         else if at v = CHR ''}'' then Parsed [(Some name, j)] (tl v) else Bad))))))"

definition parse_object :: "(string \<Rightarrow> json parsed) \<Rightarrow> nat \<Rightarrow> string \<Rightarrow> json parsed" where
  "parse_object pv n s =
     (if at s \<noteq> CHR ''{'' then Bad
      else pskip (tl s) (\<lambda>v.
        if at v = CHR ''}'' then Parsed (Item cJSON_Object []) (tl v)
        else pbind (parse_members pv n v) (\<lambda>js. Parsed (Item cJSON_Object js))))"

primrec parse_value :: "(double \<Rightarrow> double) \<Rightarrow> nat \<Rightarrow> string \<Rightarrow> json parsed" where
  "parse_value pow10 0 s = OutOfFuel"
| "parse_value pow10 (Suc n) s =
     (if take 4 s = ''null'' then Parsed (Item cJSON_NULL []) (drop 4 s)
      else if take 5 s = ''false'' then Parsed (Item cJSON_False []) (drop 5 s)
      else if take 4 s = ''true'' then Parsed (Item cJSON_True []) (drop 4 s)
      else if at s = quote then pbind (parse_string s) (\<lambda>str. Parsed (Item (cJSON_String str) []))
      else if at s = CHR ''-'' \<or> c_isdigit (at s) then pbind (parse_number pow10 s) (\<lambda>k. Parsed (Item k []))
      else if at s = CHR ''['' then parse_array (parse_value pow10 n) n s
      else if at s = CHR ''{'' then parse_object (parse_value pow10 n) n s
      else Bad)"

text \<open>\<open>cJSON_Parse\<close> ignores what follows the item: the rest of the text is only shown here.\<close>

definition cJSON_Parse :: "(double \<Rightarrow> double) \<Rightarrow> string \<Rightarrow> json parsed" where
  "cJSON_Parse pow10 text = pskip text (parse_value pow10 (Suc (length text)))"

fun collectr :: "'a res list \<Rightarrow> 'a list res" where
  "collectr [] = Inr []"
| "collectr (r # rs) = bindr r (\<lambda>x. mapr (Cons x) (collectr rs))"

fun compose_array :: "bool \<Rightarrow> string list \<Rightarrow> string" where
  "compose_array fmt [] = '']''"
| "compose_array fmt [e] = e @ '']''"
| "compose_array fmt (e # es) = e @ '','' @ (if fmt then '' '' else []) @ compose_array fmt es"

definition print_array :: "bool \<Rightarrow> string list \<Rightarrow> string res" where
  "print_array fmt entries =
     fits (5 + sum_list (map (\<lambda>e. length e + 2 + (if fmt then 1 else 0)) entries)) (CHR ''['' # compose_array fmt entries)"

abbreviation tabs :: "bool \<Rightarrow> nat \<Rightarrow> string" where
  "tabs fmt n \<equiv> (if fmt then replicate n (CHR 0x09) else [])"

fun compose_object :: "bool \<Rightarrow> nat \<Rightarrow> (string \<times> string) list \<Rightarrow> string" where
  "compose_object fmt depth [] = tabs fmt (depth - 1) @ ''}''"
| "compose_object fmt depth (e # es) =
     tabs fmt depth @ fst e @ '':'' @ tabs fmt 1 @ snd e @ (if es = [] then [] else '','')
     @ (if fmt then [CHR 0x0A] else []) @ compose_object fmt depth es"

definition print_object :: "bool \<Rightarrow> nat \<Rightarrow> (string \<times> string) list \<Rightarrow> string res" where
  "print_object fmt depth entries =
     fits (7 + (if fmt then depth else 0)
           + sum_list (map (\<lambda>e. length (snd e) + length (fst e) + 2 + (if fmt then 2 + depth else 0)) entries))
       (CHR ''{'' # (if fmt then [CHR 0x0A] else []) @ compose_object fmt depth entries)"

lemma json_child_size [termination_simp]: "m \<in> set cs \<Longrightarrow> size (snd m) < Suc (size k + size_list (size_prod (\<lambda>_. 0) size) cs)"
  by (induction cs) auto

fun print_value :: "nat \<Rightarrow> bool \<Rightarrow> json \<Rightarrow> string res" where
  "print_value depth fmt (Item k cs) = (case k of
     cJSON_NULL \<Rightarrow> Inr ''null''
   | cJSON_False \<Rightarrow> Inr ''false''
   | cJSON_True \<Rightarrow> Inr ''true''
   | cJSON_Int i \<Rightarrow> Inr (print_long i)
   | cJSON_Double d \<Rightarrow> Inr (print_double d)
   | cJSON_String s \<Rightarrow> print_string_ptr (Some s)
   | cJSON_Array \<Rightarrow> bindr (collectr (map (\<lambda>m. print_value (Suc depth) fmt (snd m)) cs)) (print_array fmt)
   | cJSON_Object \<Rightarrow>
       bindr (collectr (map (\<lambda>m. bindr (print_string_ptr (fst m)) (\<lambda>n. mapr (Pair n) (print_value (Suc depth) fmt (snd m)))) cs))
         (print_object fmt (Suc depth)))"

definition cJSON_Print :: "json \<Rightarrow> string res" where
  "cJSON_Print j = print_value 0 True j"

definition cJSON_PrintUnformatted :: "json \<Rightarrow> string res" where
  "cJSON_PrintUnformatted j = print_value 0 False j"

section \<open>Searching and building\<close>

definition strcasecmp_eq :: "string option \<Rightarrow> string option \<Rightarrow> bool" where
  "strcasecmp_eq a b = (map_option (\<lambda>s. map c_tolower (c_str s)) a = map_option (\<lambda>s. map c_tolower (c_str s)) b)"

definition cJSON_GetArraySize :: "json option \<Rightarrow> nat res" where
  "cJSON_GetArraySize array = (case array of None \<Rightarrow> Inl NullPointer | Some j \<Rightarrow> Inr (length (child j)))"

definition nth_child :: "(string option \<times> json) list \<Rightarrow> int \<Rightarrow> nat option" where
  "nth_child cs i = (if nat i < length cs then Some (nat i) else None)"

definition cJSON_GetArrayItem :: "json option \<Rightarrow> int \<Rightarrow> json option res" where
  "cJSON_GetArrayItem array i = (case array of
     None \<Rightarrow> Inl NullPointer
   | Some j \<Rightarrow> Inr (map_option (\<lambda>n. snd (child j ! n)) (nth_child (child j) i)))"

fun find_name :: "(string option \<times> json) list \<Rightarrow> string \<Rightarrow> nat option" where
  "find_name [] s = None"
| "find_name (m # ms) s = (if strcasecmp_eq (fst m) (Some s) then Some 0 else map_option Suc (find_name ms s))"

definition cJSON_GetObjectItem :: "json option \<Rightarrow> string \<Rightarrow> json option res" where
  "cJSON_GetObjectItem object s = (case object of
     None \<Rightarrow> Inl NullPointer
   | Some j \<Rightarrow> Inr (map_option (\<lambda>n. snd (child j ! n)) (find_name (child j) s)))"

definition cJSON_AddItemToArray :: "json \<Rightarrow> json \<Rightarrow> json" where
  "cJSON_AddItemToArray array item = Item (json_type array) (child array @ [(None, item)])"

definition cJSON_AddItemToObject :: "json \<Rightarrow> string \<Rightarrow> json \<Rightarrow> json" where
  "cJSON_AddItemToObject object s item = Item (json_type object) (child object @ [(Some (c_str s), item)])"

definition cJSON_DetachItemFromArray :: "json \<Rightarrow> int \<Rightarrow> json option \<times> json" where
  "cJSON_DetachItemFromArray array which = (case nth_child (child array) which of
     None \<Rightarrow> (None, array)
   | Some n \<Rightarrow> (Some (snd (child array ! n)), Item (json_type array) (take n (child array) @ drop (Suc n) (child array))))"

definition cJSON_DetachItemFromObject :: "json \<Rightarrow> string \<Rightarrow> json option \<times> json" where
  "cJSON_DetachItemFromObject object s = (case find_name (child object) s of
     None \<Rightarrow> (None, object)
   | Some n \<Rightarrow> cJSON_DetachItemFromArray object (int n))"

definition cJSON_ReplaceItemInArray :: "json \<Rightarrow> int \<Rightarrow> string option \<times> json \<Rightarrow> json" where
  "cJSON_ReplaceItemInArray array which newitem = (case nth_child (child array) which of
     None \<Rightarrow> array
   | Some n \<Rightarrow> Item (json_type array) ((child array)[n := newitem]))"

definition cJSON_ReplaceItemInObject :: "json \<Rightarrow> string \<Rightarrow> json \<Rightarrow> json" where
  "cJSON_ReplaceItemInObject object s newitem = (case find_name (child object) s of
     None \<Rightarrow> object
   | Some n \<Rightarrow> cJSON_ReplaceItemInArray object (int n) (Some (c_str s), newitem))"

definition cJSON_CreateLong :: "int \<Rightarrow> json" where "cJSON_CreateLong i = Item (cJSON_Int i) []"
definition cJSON_CreateDouble :: "double \<Rightarrow> json" where "cJSON_CreateDouble d = Item (cJSON_Double d) []"
definition cJSON_CreateString :: "string \<Rightarrow> json" where "cJSON_CreateString s = Item (cJSON_String (c_str s)) []"
definition cJSON_CreateTrue :: json where "cJSON_CreateTrue = Item cJSON_True []"
definition cJSON_CreateFalse :: json where "cJSON_CreateFalse = Item cJSON_False []"
definition cJSON_CreateNull :: json where "cJSON_CreateNull = Item cJSON_NULL []"
definition cJSON_CreateArray :: json where "cJSON_CreateArray = Item cJSON_Array []"
definition cJSON_CreateObject :: json where "cJSON_CreateObject = Item cJSON_Object []"

definition cJSON_CreateLongArray :: "int list \<Rightarrow> json" where
  "cJSON_CreateLongArray numbers = Item cJSON_Array (map (\<lambda>i. (None, cJSON_CreateLong i)) numbers)"

text \<open>The macro \<open>cJSON_CreateNumber\<close> makes a \<open>long\<close> of every element of an array of \<open>double\<close>.\<close>

definition cJSON_CreateDoubleArray :: "double list \<Rightarrow> json res" where
  "cJSON_CreateDoubleArray numbers =
     mapr (\<lambda>is. Item cJSON_Array (map (\<lambda>i. (None, cJSON_CreateLong i)) is)) (collectr (map long_of_dbl numbers))"

definition cJSON_CreateStringArray :: "string list \<Rightarrow> json" where
  "cJSON_CreateStringArray strings = Item cJSON_Array (map (\<lambda>s. (None, cJSON_CreateString s)) strings)"

section \<open>Lemmas\<close>

subsection \<open>Numbers\<close>

text \<open>Multiplication by the sign of a number is exact for integers below \<open>2 ^ 53\<close>.\<close>

declare div_rne_mult [simp]

lemma nbits_power [simp]: "nbits (2 ^ j) = Suc j"
  by (rule nbits_unique) simp_all

lemma round_scaled_normal:
  assumes q: "2 ^ 52 \<le> q" "q < 2 ^ 53" and k: "0 < k" "k \<le> 53"
  shows "round_scaled s (2 ^ 52 * q) (int k - 105) = Fin s q (int k - 53)"
proof -
  define N where "N = q * 2 ^ 52"
  define j where "j = 105 - k"
  have j: "nat (105 - int k) = j" "j = 52 + (53 - k)" using k by (simp_all add: j_def nat_diff_distrib')
  have nq: "nbits q = 53" using nbits_unique [of 52 q] q by simp
  have nN: "nbits N = 105" using nbits_unique [of 104 N] q by (simp add: N_def)
  have e: "round_exp 53 N (2 ^ j) = int k - 53"
  proof -
    have 1: "int (nbits N) - int (nbits (2 ^ j)) - int 53 = int k - 54" using nN j k by simp
    have "nat (54 - int k) = Suc (53 - k)" using k by simp
    then have "N * 2 ^ nat (54 - int k) = q * (2 ^ 53 * 2 ^ (53 - k))" by (simp add: N_def)
    moreover have "(2::nat) ^ j * 2 ^ 53 = 2 ^ 52 * (2 ^ 53 * 2 ^ (53 - k))" unfolding j(2) power_add by simp
    ultimately have "2 ^ j * 2 ^ 53 \<le> N * 2 ^ nat (54 - int k)" using q(1) by simp
    then show ?thesis unfolding round_exp_def Let_def 1 using k by simp
  qed
  have "scale_rne N (2 ^ j) (int k - 53) = q"
  proof (cases "k = 53")
    case True
    then show ?thesis by (simp add: scale_rne_def N_def j_def)
  next
    case False
    then have "nat (53 - int k) = 53 - k" using k by simp
    then have "N * 2 ^ nat (- (int k - 53)) = q * 2 ^ j" unfolding N_def j(2) power_add by simp
    with False k show ?thesis by (simp add: scale_rne_def)
  qed
  with e k q nq have "round_double s N (2 ^ j) = Fin s q (int k - 53)"
    by (simp add: round_double_def round_bin_def Let_def N_def mk_fin_def)
  moreover have "\<not> 0 \<le> int k - 105" "- (int k - 105) = 105 - int k" using k by simp_all
  ultimately show ?thesis using j(1) by (simp add: round_scaled_def N_def mult.commute)
qed

lemma signed_number:
  assumes "n < 2 ^ 53"
  shows "long_of_dbl (dmul (dbl_of_int (if neg then - 1 else 1)) (dbl_of_int (int n))) = Inr (if neg then - int n else int n)"
proof (cases "n = 0")
  case True
  have "dbl_of_int 0 = Fin False 0 (- 1074)" by (simp add: dbl_of_int_def round_double_def round_bin_def dzero_def)
  moreover have "dmul (dbl_of_int (if neg then - 1 else 1)) (Fin False 0 (- 1074)) = dzero neg"
    using round_double_exact [of 1] by (simp add: dbl_of_int_def round_scaled_def round_double_def round_bin_def)
  ultimately show ?thesis using True by (simp add: long_of_dbl_def dzero_def trunc_fin_def sgnd_def long_bounds)
next
  case False
  define q where "q = n * 2 ^ (53 - nbits n)"
  have k: "0 < nbits n" "nbits n \<le> 53" using False assms nbits_le [of n 53] by simp_all
  have x: "round_double s n 1 = Fin s q (int (nbits n) - 53)" for s
    unfolding q_def using False assms by (intro round_double_exact) simp_all
  have one: "dbl_of_int (if neg then - 1 else 1) = Fin neg (2 ^ 52) (- 52)"
    using round_double_exact [of 1 neg] by (cases neg) (simp_all add: dbl_of_int_def nbits.simps)
  have "(2::nat) ^ (nbits n - 1) * 2 ^ (53 - nbits n) = 2 ^ 52" "(2::nat) ^ nbits n * 2 ^ (53 - nbits n) = 2 ^ 53"
    using k by (simp_all add: power_add [symmetric])
  then have q: "2 ^ 52 \<le> q" "q < 2 ^ 53"
    using False nbits_lower [of n] nbits_upper [of n] unfolding q_def
    by (metis mult_le_mono1 neq0_conv, metis mult_less_cancel2 zero_less_numeral zero_less_power)
  have "dmul (dbl_of_int (if neg then - 1 else 1)) (dbl_of_int (int n)) = Fin neg q (int (nbits n) - 53)"
    using round_scaled_normal [OF q k, of neg] x [of False] unfolding one by (simp add: dbl_of_int_def add.commute)
  also have "\<dots> = dbl_of_int (if neg then - int n else int n)"
    using x [of neg] False by (cases neg) (simp_all add: dbl_of_int_def)
  finally show ?thesis using long_of_dbl_of_int [of "if neg then - int n else int n"] assms by simp
qed

abbreviation dec_value :: "nat \<Rightarrow> string \<Rightarrow> nat" where
  "dec_value a ds \<equiv> foldl (\<lambda>acc c. acc * 10 + digit_val c) a ds"

lemma dec_value_ge: "a \<le> dec_value a ds"
proof (induction ds arbitrary: a)
  case (Cons c ds)
  have "a \<le> a * 10 + digit_val c" by simp
  also have "\<dots> \<le> dec_value (a * 10 + digit_val c) ds" by (rule Cons.IH)
  finally show ?case by simp
qed simp

lemma digit_char_facts:
  assumes "c_isdigit c"
  shows "int (byte c) - 48 = int (digit_val c)" and "byte c > 32"
  using assms by (auto simp: c_isdigit_def digit_val_def byte_def Let_def)

lemma int_digits_value:
  assumes "\<forall>c \<in> set ds. c_isdigit c" "int (dec_value a ds) \<le> LONG_MAX" "\<not> c_isdigit (at r)"
  shows "int_digits (int a) (ds @ r) = Inr (int (dec_value a ds), r)"
  using assms
proof (induction ds arbitrary: a)
  case Nil
  then show ?case by (cases r) (auto simp: at_def)
next
  case (Cons c ds)
  have d: "int (byte c) - 48 = int (digit_val c)" using Cons.prems(1) by (intro digit_char_facts) simp
  have "int (a * 10 + digit_val c) \<le> LONG_MAX"
    using dec_value_ge [of "a * 10 + digit_val c" ds] Cons.prems(2) by simp
  then have "in_long (int a * 10)" "in_long (int a * 10 + int (digit_val c))" by (auto simp: in_long_def LONG_MIN_def)
  moreover have "int_digits (int (a * 10 + digit_val c)) (ds @ r) = Inr (int (dec_value (a * 10 + digit_val c) ds), r)"
    using Cons.prems by (intro Cons.IH) simp_all
  ultimately show ?case using Cons.prems(1) d by (simp add: chk_long_def)
qed

lemma show_nat_isdigit: "\<forall>c \<in> set (show_nat n). c_isdigit c"
  using show_nat_digits [of n] of_char_digit_char by (fastforce simp: c_isdigit_def Let_def)

lemma show_nat_leading: "0 < n \<Longrightarrow> hd (show_nat n) \<noteq> CHR ''0''"
proof (induction n rule: show_nat.induct)
  case (1 n)
  show ?case
  proof (cases "n < 10")
    case True
    then have "of_char (digit_char n) \<noteq> (48 :: nat)" using "1.prems" by (simp add: of_char_digit_char)
    then show ?thesis using True by (auto simp: show_nat.simps [of n])
  next
    case False
    then show ?thesis using "1.IH" by (simp add: show_nat.simps [of n])
  qed
qed

text \<open>What may follow a number in a text.\<close>

definition delim :: "string \<Rightarrow> bool" where
  "delim r \<longleftrightarrow> \<not> c_isdigit (at r) \<and> at r \<noteq> CHR ''.'' \<and> at r \<noteq> CHR ''e'' \<and> at r \<noteq> CHR ''E''"

lemma at_append [simp]: "s \<noteq> [] \<Longrightarrow> at (s @ r) = hd s"
  by (cases s) (simp_all add: at_def)

lemma at_Cons [simp]: "at (c # s) = c"
  by (simp add: at_def)

lemma at_Nil [simp]: "at [] = CHR 0x00"
  by (simp add: at_def)

lemma hd_show_nat: "c_isdigit (hd (show_nat n))" "hd (show_nat n) \<noteq> CHR ''-''"
  using show_nat_isdigit [of n] by (cases "show_nat n"; fastforce simp: c_isdigit_def Let_def)+

lemma parse_integer_print:
  fixes n r
  defines "s \<equiv> show_nat n @ r"
  assumes n: "n < 2 ^ 53" and r: "delim r"
  shows "parse_integer s = Inr (int n, r)"
proof (cases "n = 0")
  case True
  then have "s = CHR ''0'' # r" by (simp add: s_def show_nat.simps digit_char_def char_of_def bit_0)
  with r True show ?thesis by (simp add: delim_def parse_integer_def)
next
  case False
  then have h: "at s \<noteq> CHR ''0''" "c_isdigit (at s)" using show_nat_leading hd_show_nat by (simp_all add: s_def)
  have v: "dec_value 0 (show_nat n) = n" using digits_value_show_nat [of n] by (simp add: digits_value_def)
  have "int_digits (int 0) (show_nat n @ r) = Inr (int (dec_value 0 (show_nat n)), r)"
    using n r v show_nat_isdigit by (intro int_digits_value) (simp_all add: delim_def LONG_MAX_def)
  with h v show ?thesis by (simp add: s_def parse_integer_def)
qed

lemma parse_number_print:
  assumes i: "\<bar>i\<bar> < 2 ^ 53" and r: "delim r"
  shows "parse_number pow10 (print_long i @ r) = Parsed (cJSON_Int i) r"
proof -
  define n where "n = nat \<bar>i\<bar>"
  define neg where "neg = (i < 0)"
  have n: "n < 2 ^ 53" using i by (simp add: n_def nat_less_iff)
  have "in_long i" using i by (auto simp: long_bounds)
  then have p: "print_long i = (if neg then ''-'' else []) @ show_nat n"
    using length_show_int [of i] by (auto simp: print_long_def snprintf_buf_def show_int_def n_def neg_def)
  have "at (print_long i @ r) = CHR ''-'' \<longleftrightarrow> neg" using p hd_show_nat by auto
  moreover have "(if neg then tl (print_long i @ r) else print_long i @ r) = show_nat n @ r" using p by simp
  moreover have "parse_fraction (int n) r = Inr (None, 0, r)" "parse_exponent r = Inr (None, r)"
    using r by (simp_all add: parse_fraction_def parse_exponent_def delim_def)
  moreover have "(if neg then - int n else int n) = i" by (simp add: n_def neg_def)
  ultimately show ?thesis
    using parse_integer_print [OF n r] signed_number [OF n, of neg]
    by (simp add: parse_number_def of_res_def)
qed

subsection \<open>Strings\<close>

definition plain_char :: "char \<Rightarrow> bool" where
  "plain_char c \<longleftrightarrow> byte c > 31 \<or> c \<in> {CHR 0x08, CHR 0x09, CHR 0x0A, CHR 0x0C, CHR 0x0D}"

lemma escape_char_cases:
  assumes "plain_char c"
  obtains "escape_char c = [c]" "byte c > 31" "c \<noteq> quote" "c \<noteq> backslash"
  | e where "escape_char c = [backslash, e]" "unescape_char e = c" "e \<noteq> CHR ''u''"
  using assms that(1) that(2) unfolding plain_char_def
  by (cases "byte c > 31 \<and> c \<noteq> quote \<and> c \<noteq> backslash") (auto simp: escape_char_def unescape_char_def byte_def)

lemma backslash_ordinary [simp]: "\<not> byte backslash \<le> 31" "backslash \<noteq> quote"
  by (simp_all add: byte_def)

lemma unescape_escaped:
  "\<forall>c \<in> set s. plain_char c \<Longrightarrow> unescape None (concat (map escape_char s) @ quote # r) = Inr (s, quote # r)"
proof (induction s)
  case (Cons c s)
  then have IH: "unescape None (concat (map escape_char s) @ quote # r) = Inr (s, quote # r)" by simp
  from Cons.prems have "plain_char c" by simp
  then show ?case by (cases rule: escape_char_cases) (use IH in simp_all)
qed simp

lemma count_escaped:
  "\<forall>c \<in> set s. plain_char c \<Longrightarrow> count_string (concat (map escape_char s) @ quote # r) = Inr (length s)"
proof (induction s)
  case (Cons c s)
  then have IH: "count_string (concat (map escape_char s) @ quote # r) = Inr (length s)" by simp
  from Cons.prems have "plain_char c" by simp
  then show ?case by (cases rule: escape_char_cases) (use IH in simp_all)
qed simp

lemma plain_no_null: "\<forall>c \<in> set s. plain_char c \<Longrightarrow> c_str s = s"
  by (rule c_str_id) (auto simp: plain_char_def byte_def)

lemma escape_length: "length (concat (map escape_char s)) \<le> count_print s"
  by (induction s) (auto simp: escape_char_def)

lemma print_string_fits:
  "print_string_ptr (Some s) = Inr (quote # concat (map escape_char (c_str s)) @ [quote])"
  using escape_length [of "c_str s"] by (simp add: print_string_ptr_def fits_def)

lemma parse_string_print:
  assumes "\<forall>c \<in> set s. plain_char c" "print_string_ptr (Some s) = Inr t"
  shows "parse_string (t @ r) = Parsed s r"
  using assms unescape_escaped [of s r] count_escaped [of s r] plain_no_null [of s]
  by (auto simp: print_string_fits parse_string_def of_res_def)

subsection \<open>Printing stays within the buffers\<close>

lemma collectr_Inr: "collectr (map f xs) = Inr ys \<longleftrightarrow> list_all2 (\<lambda>x y. f x = Inr y) xs ys"
  by (induction xs arbitrary: ys) (auto simp: bindr_Inr_iff mapr_Inr_iff list_all2_Cons1)

lemma collectr_total: "(\<And>x. x \<in> set xs \<Longrightarrow> \<exists>y. f x = Inr y) \<Longrightarrow> \<exists>ys. collectr (map f xs) = Inr ys"
proof (induction xs)
  case (Cons x xs)
  then obtain y ys where "f x = Inr y" "collectr (map f xs) = Inr ys" by (meson list.set_intros)
  then show ?case by simp
qed simp

lemma compose_array_length:
  "length (compose_array fmt es) \<le> Suc (sum_list (map (\<lambda>e. length e + 2 + (if fmt then 1 else 0)) es))"
  by (induction fmt es rule: compose_array.induct) auto

lemma compose_object_length:
  "length (compose_object fmt depth es)
   \<le> Suc ((if fmt then depth else 0)
          + sum_list (map (\<lambda>e. length (snd e) + length (fst e) + 2 + (if fmt then 2 + depth else 0)) es))"
  by (induction fmt depth es rule: compose_object.induct) auto

lemma print_array_fits: "print_array fmt es = Inr (CHR ''['' # compose_array fmt es)"
  using compose_array_length [of fmt es] by (cases fmt) (simp_all add: print_array_def fits_def)

lemma print_object_fits:
  "print_object fmt depth es = Inr (CHR ''{'' # (if fmt then [CHR 0x0A] else []) @ compose_object fmt depth es)"
  using compose_object_length [of fmt depth es] by (cases fmt) (simp_all add: print_object_def fits_def)

lemma print_string_total: "\<exists>t. print_string_ptr s = Inr t"
  by (cases s) (simp_all add: print_string_fits, simp add: print_string_ptr_def)

lemma print_value_total: "\<exists>t. print_value depth fmt j = Inr t"
proof (induction depth fmt j rule: print_value.induct)
  case (1 depth fmt k cs)
  show ?case
  proof (cases k)
    case cJSON_Array
    then have "\<exists>es. collectr (map (\<lambda>m. print_value (Suc depth) fmt (snd m)) cs) = Inr es"
      using "1.IH"(1) by (intro collectr_total) auto
    then show ?thesis using cJSON_Array by (auto simp: print_array_fits)
  next
    case cJSON_Object
    then have "\<exists>es. collectr (map (\<lambda>m. bindr (print_string_ptr (fst m))
        (\<lambda>n. mapr (Pair n) (print_value (Suc depth) fmt (snd m)))) cs) = Inr es"
    proof (intro collectr_total)
      fix m assume "m \<in> set cs"
      then obtain t where "print_value (Suc depth) fmt (snd m) = Inr t" using "1.IH"(2) cJSON_Object by blast
      moreover obtain n where "print_string_ptr (fst m) = Inr n" using print_string_total by blast
      ultimately show "\<exists>y. bindr (print_string_ptr (fst m)) (\<lambda>n. mapr (Pair n) (print_value (Suc depth) fmt (snd m))) = Inr y"
        by simp
    qed
    then show ?thesis using cJSON_Object by (auto simp: print_object_fits)
  qed (simp_all add: print_string_fits)
qed

subsection \<open>Reading back a printed item\<close>

definition plain_string :: "string \<Rightarrow> bool" where
  "plain_string s \<longleftrightarrow> list_all plain_char s"

text \<open>
  The items whose text gives them back: no numbers of type \<open>double\<close>, integers below \<open>2 ^ 53\<close>,
  strings without the control characters that printing leaves out, names on the members of
  objects only.
\<close>

fun plain :: "json \<Rightarrow> bool" where
  "plain (Item k cs) \<longleftrightarrow> (case k of
     cJSON_Int i \<Rightarrow> \<bar>i\<bar> < 2 ^ 53 \<and> cs = []
   | cJSON_Double d \<Rightarrow> False
   | cJSON_String s \<Rightarrow> plain_string s \<and> cs = []
   | cJSON_Array \<Rightarrow> list_all (\<lambda>m. fst m = None \<and> plain (snd m)) cs
   | cJSON_Object \<Rightarrow> list_all (\<lambda>m. (case fst m of None \<Rightarrow> False | Some n \<Rightarrow> plain_string n) \<and> plain (snd m)) cs
   | _ \<Rightarrow> cs = [])"

lemma plain_string_iff: "plain_string s \<longleftrightarrow> (\<forall>c \<in> set s. plain_char c)"
  by (simp add: plain_string_def list_all_iff)

definition visible :: "string \<Rightarrow> bool" where
  "visible t \<longleftrightarrow> t \<noteq> [] \<and> byte (hd t) > 32 \<and> hd t \<noteq> CHR '']'' \<and> hd t \<noteq> CHR ''}''"

lemma json_skip_visible: "visible t \<Longrightarrow> json_skip (t @ r) = Inr (t @ r)"
  by (cases t) (simp_all add: visible_def)

lemma pskip_visible [simp]: "visible t \<Longrightarrow> pskip (t @ r) f = f (t @ r)"
  by (simp add: pskip_def json_skip_visible)

lemma pskip_Cons: "byte c > 32 \<Longrightarrow> pskip (c # r) f = f (c # r)"
  by (simp add: pskip_def)

lemma pskip_blank: "\<forall>c \<in> set b. byte c \<le> 32 \<Longrightarrow> pskip (b @ r) f = pskip r f"
  by (induction b) (simp_all add: pskip_def)

lemma print_long_visible: "in_long i \<Longrightarrow> visible (print_long i) \<and> (hd (print_long i) = CHR ''-'' \<or> c_isdigit (hd (print_long i)))"
proof -
  assume "in_long i"
  then have p: "print_long i = show_int i" using length_show_int [of i] by (simp add: print_long_def snprintf_buf_def)
  have d: "visible s" if "s \<noteq> []" "c_isdigit (hd s)" for s
    using that by (cases s) (auto simp: visible_def c_isdigit_def byte_def Let_def)
  show ?thesis
  proof (cases "i < 0")
    case True
    then show ?thesis by (simp add: p show_int_def visible_def byte_def)
  next
    case False
    then show ?thesis using hd_show_nat [of "nat i"] d by (simp add: p show_int_def)
  qed
qed

lemma small_in_long: "\<bar>i\<bar> < 2 ^ 53 \<Longrightarrow> in_long i"
  by (auto simp: long_bounds)

lemma print_visible:
  assumes "plain j" "print_value depth fmt j = Inr t"
  shows "visible t"
proof -
  obtain k cs where j: "j = Item k cs" by (cases j)
  show ?thesis
  proof (cases "\<exists>i. k = cJSON_Int i")
    case True
    then obtain i where i: "t = print_long i" "\<bar>i\<bar> < 2 ^ 53" using assms unfolding j by auto
    then have "in_long i" by (intro small_in_long)
    with i show ?thesis using print_long_visible by simp
  next
    case False
    then show ?thesis using assms unfolding j
      by (cases k) (auto simp: visible_def byte_def bindr_Inr_iff print_array_fits print_object_fits print_string_fits)
  qed
qed

lemma take_other: "0 < k \<Longrightarrow> at s \<noteq> c \<Longrightarrow> take k s \<noteq> c # w"
  by (cases s; cases k) auto

lemma parse_items_compose:
  assumes "list_all2 (\<lambda>m e. fst m = None \<and> visible e \<and> (\<forall>r. delim r \<longrightarrow> pv (e @ r) = Parsed (snd m) r)) cs es"
    and "cs \<noteq> []" "length cs \<le> n" "\<forall>c \<in> set b. byte c \<le> 32"
  shows "parse_items pv n (b @ compose_array fmt es @ r) = Parsed cs r"
  using assms
proof (induction fmt es arbitrary: cs n b rule: compose_array.induct)
  case (2 fmt e)
  then obtain m where m: "cs = [m]" "fst m = None" "visible e" "pv (e @ CHR '']'' # r) = Parsed (snd m) (CHR '']'' # r)"
    by (auto simp: list_all2_Cons2 delim_def c_isdigit_def)
  then have "(None, snd m) = m" by (metis prod.collapse)
  moreover obtain l where "n = Suc l" using 2 by (cases n) auto
  ultimately show ?case using m 2 by (simp add: pskip_blank pbind_def pskip_Cons byte_def)
next
  case (3 fmt e e' es)
  then obtain m ms where m: "cs = m # ms" "fst m = None" "visible e"
    and pv: "\<forall>r. delim r \<longrightarrow> pv (e @ r) = Parsed (snd m) r"
    and ms: "list_all2 (\<lambda>m e. fst m = None \<and> visible e \<and> (\<forall>r. delim r \<longrightarrow> pv (e @ r) = Parsed (snd m) r)) ms (e' # es)"
    by (auto simp: list_all2_Cons2)
  have eq: "(None, snd m) = m" using m by (metis prod.collapse)
  obtain l where n: "n = Suc l" "length ms \<le> l" using 3 m by (cases n) auto
  define rest where "rest = (if fmt then '' '' else []) @ compose_array fmt (e' # es) @ r"
  have "pv (e @ CHR '','' # rest) = Parsed (snd m) (CHR '','' # rest)" using pv by (simp add: delim_def c_isdigit_def)
  moreover have "parse_items pv l rest = Parsed ms r"
    unfolding rest_def using ms n by (intro "3.IH") (auto simp: list_all2_Cons2 byte_def)
  moreover have "b @ compose_array fmt (e # e' # es) @ r = b @ e @ CHR '','' # rest" by (simp add: rest_def)
  ultimately show ?case using m eq n 3 by (simp add: pskip_blank pbind_def pskip_Cons byte_def)
qed (auto simp: list_all2_Nil2)

lemma parse_members_compose:
  assumes "list_all2 (\<lambda>m e. (\<exists>s. fst m = Some s \<and> visible (fst e) \<and> (\<forall>r. parse_string (fst e @ r) = Parsed s r))
             \<and> visible (snd e) \<and> (\<forall>r. delim r \<longrightarrow> pv (snd e @ r) = Parsed (snd m) r)) cs es"
    and "cs \<noteq> []" "length cs \<le> n" "\<forall>c \<in> set b. byte c \<le> 32"
  shows "parse_members pv n (b @ compose_object fmt depth es @ r) = Parsed cs r"
  using assms
proof (induction es arbitrary: cs n b rule: list.induct)
  case (Cons e es)
  then obtain m ms s where m: "cs = m # ms" "fst m = Some s" "visible (fst e)" "\<forall>r. parse_string (fst e @ r) = Parsed s r"
      "visible (snd e)" and pv: "\<forall>r. delim r \<longrightarrow> pv (snd e @ r) = Parsed (snd m) r"
    and ms: "list_all2 (\<lambda>m e. (\<exists>s. fst m = Some s \<and> visible (fst e) \<and> (\<forall>r. parse_string (fst e @ r) = Parsed s r))
             \<and> visible (snd e) \<and> (\<forall>r. delim r \<longrightarrow> pv (snd e @ r) = Parsed (snd m) r)) ms es"
    by (auto simp: list_all2_Cons2)
  have eq: "(Some s, snd m) = m" using m by (metis prod.collapse)
  obtain l where n: "n = Suc l" "length ms \<le> l" using Cons.prems m by (cases n) auto
  define nl where "nl = (if fmt then [CHR 0x0A] else [])"
  define rest where "rest = (if es = [] then [] else '','') @ nl @ compose_object fmt depth es @ r"
  have blank: "\<forall>c \<in> set (tabs fmt k). byte c \<le> 32" "\<forall>c \<in> set nl. byte c \<le> 32" for k
    by (auto simp: byte_def nl_def)
  have split: "b @ compose_object fmt depth (e # es) @ r = b @ tabs fmt depth @ fst e @ CHR '':'' # tabs fmt 1 @ snd e @ rest"
    by (simp add: rest_def nl_def)
  have delim: "delim rest" by (cases "es = []"; cases fmt; cases "depth - 1") (auto simp: rest_def nl_def delim_def c_isdigit_def)
  have head: "parse_members pv n (b @ compose_object fmt depth (e # es) @ r) = pskip rest (\<lambda>v.
         if at v = CHR '','' then pbind (parse_members pv l (tl v)) (\<lambda>js. Parsed ((Some s, snd m) # js))
         else if at v = CHR ''}'' then Parsed [(Some s, snd m)] (tl v) else Bad)"
    unfolding split n using m pv delim Cons.prems(4) blank
    by (simp add: pskip_blank pbind_def pskip_Cons byte_def)
  show ?case
  proof (cases "es = []")
    case True
    then have "ms = []" using ms by simp
    have "rest = (nl @ tabs fmt (depth - 1)) @ CHR ''}'' # r" using True by (simp add: rest_def)
    moreover have "\<forall>c \<in> set (nl @ tabs fmt (depth - 1)). byte c \<le> 32" using blank by auto
    ultimately show ?thesis using head eq m(1) \<open>ms = []\<close> by (simp only: pskip_blank) (simp add: pskip_Cons byte_def)
  next
    case False
    then have "rest = CHR '','' # nl @ compose_object fmt depth es @ r" by (simp add: rest_def)
    moreover have "parse_members pv l (nl @ compose_object fmt depth es @ r) = Parsed ms r"
      using ms n blank False by (intro Cons.IH) (auto simp: list_all2_Nil2)
    ultimately show ?thesis using head eq m(1) by (simp add: pskip_Cons byte_def pbind_def)
  qed
qed simp

lemma compose_array_elems: "e \<in> set es \<Longrightarrow> length e < length (compose_array fmt es)" "length es \<le> length (compose_array fmt es)"
  by (induction fmt es rule: compose_array.induct) auto

lemma compose_object_elems:
  "e \<in> set es \<Longrightarrow> length (snd e) < length (compose_object fmt depth es)" "length es \<le> length (compose_object fmt depth es)"
  by (induction fmt depth es rule: compose_object.induct) auto

lemma list_all2_refine:
  assumes "list_all2 P xs ys" "\<And>x y. x \<in> set xs \<Longrightarrow> y \<in> set ys \<Longrightarrow> P x y \<Longrightarrow> Q x y"
  shows "list_all2 Q xs ys"
  using assms by (auto simp: list_all2_conv_all_nth)

lemma parse_array_print:
  assumes es: "list_all2 (\<lambda>m e. print_value (Suc depth) fmt (snd m) = Inr e) cs es"
    and IH: "\<And>m t r. m \<in> set cs \<Longrightarrow> print_value (Suc depth) fmt (snd m) = Inr t \<Longrightarrow> delim r \<Longrightarrow> length t < n \<Longrightarrow>
          parse_value pow10 n (t @ r) = Parsed (snd m) r"
    and cs: "\<forall>m \<in> set cs. fst m = None \<and> plain (snd m)" and n: "Suc (length (compose_array fmt es)) \<le> n"
  shows "parse_array (parse_value pow10 n) n (CHR ''['' # compose_array fmt es @ r) = Parsed (Item cJSON_Array cs) r"
proof (cases "cs = []")
  case True
  then show ?thesis using es by (simp add: parse_array_def pskip_Cons byte_def)
next
  case False
  have all: "list_all2 (\<lambda>m e. fst m = None \<and> visible e \<and> (\<forall>r. delim r \<longrightarrow> parse_value pow10 n (e @ r) = Parsed (snd m) r)) cs es"
    using es
  proof (rule list_all2_refine)
    fix m e assume m: "m \<in> set cs" "e \<in> set es" "print_value (Suc depth) fmt (snd m) = Inr e"
    then have "length e < n" using compose_array_elems(1) [of e es fmt] n by simp
    with m cs IH [OF m(1,3)] show "fst m = None \<and> visible e \<and> (\<forall>r. delim r \<longrightarrow> parse_value pow10 n (e @ r) = Parsed (snd m) r)"
      using print_visible [of "snd m" "Suc depth" fmt e] by simp
  qed
  have "length cs \<le> n" using list_all2_lengthD [OF es] compose_array_elems(2) [of es fmt] n by simp
  then have "parse_items (parse_value pow10 n) n ([] @ compose_array fmt es @ r) = Parsed cs r"
    using all False by (intro parse_items_compose) simp_all
  moreover have "visible (compose_array fmt es)" using all False
    by (cases es; cases "tl es") (auto simp: list_all2_Cons2 visible_def)
  ultimately show ?thesis by (simp add: parse_array_def pbind_def) (simp add: visible_def)
qed

lemma parse_members_blank: "\<forall>c \<in> set b. byte c \<le> 32 \<Longrightarrow> parse_members pv n (b @ s) = parse_members pv n s"
  by (cases n) (simp_all add: pskip_blank)

lemma print_string_visible: "print_string_ptr (Some s) = Inr t \<Longrightarrow> visible t"
  by (auto simp: print_string_fits visible_def byte_def)

lemma parse_object_print:
  assumes es: "list_all2 (\<lambda>m e. print_string_ptr (fst m) = Inr (fst e) \<and> print_value (Suc depth) fmt (snd m) = Inr (snd e)) cs es"
    and IH: "\<And>m t r. m \<in> set cs \<Longrightarrow> print_value (Suc depth) fmt (snd m) = Inr t \<Longrightarrow> delim r \<Longrightarrow> length t < n \<Longrightarrow>
          parse_value pow10 n (t @ r) = Parsed (snd m) r"
    and cs: "\<forall>m \<in> set cs. (\<exists>s. fst m = Some s \<and> plain_string s) \<and> plain (snd m)"
    and n: "Suc (length (compose_object fmt (Suc depth) es)) \<le> n"
  shows "parse_object (parse_value pow10 n) n (CHR ''{'' # (if fmt then [CHR 0x0A] else []) @ compose_object fmt (Suc depth) es @ r)
    = Parsed (Item cJSON_Object cs) r"
proof -
  define nl where "nl = (if fmt then [CHR 0x0A] else [])"
  have nl: "\<forall>c \<in> set nl. byte c \<le> 32" by (auto simp: byte_def nl_def)
  have tb: "\<forall>c \<in> set (tabs fmt k). byte c \<le> 32" for k by (auto simp: byte_def)
  show ?thesis
  proof (cases "cs = []")
    case True
    then have "es = []" using es by simp
    then show ?thesis unfolding nl_def [symmetric] using True nl tb
      by (simp add: parse_object_def pskip_blank pskip_Cons byte_def)
  next
    case False
    have all: "list_all2 (\<lambda>m e. (\<exists>s. fst m = Some s \<and> visible (fst e) \<and> (\<forall>r. parse_string (fst e @ r) = Parsed s r))
             \<and> visible (snd e) \<and> (\<forall>r. delim r \<longrightarrow> parse_value pow10 n (snd e @ r) = Parsed (snd m) r)) cs es"
      using es
    proof (rule list_all2_refine)
      fix m e assume m: "m \<in> set cs" "e \<in> set es"
        "print_string_ptr (fst m) = Inr (fst e) \<and> print_value (Suc depth) fmt (snd m) = Inr (snd e)"
      have "length (snd e) < n" using compose_object_elems(1) [OF m(2), of fmt "Suc depth"] n by simp
      moreover obtain s where s: "fst m = Some s" "plain_string s" using cs m by blast
      moreover have "visible (fst e)" using m s print_string_visible [of s] by simp
      ultimately show "(\<exists>s. fst m = Some s \<and> visible (fst e) \<and> (\<forall>r. parse_string (fst e @ r) = Parsed s r))
             \<and> visible (snd e) \<and> (\<forall>r. delim r \<longrightarrow> parse_value pow10 n (snd e @ r) = Parsed (snd m) r)"
        using m cs IH [OF m(1)] print_visible [of "snd m" "Suc depth" fmt "snd e"] parse_string_print [of s "fst e"]
        by (simp add: plain_string_iff)
    qed
    have "length cs \<le> n" using list_all2_lengthD [OF es] compose_object_elems(2) [of es fmt "Suc depth"] n by simp
    then have p: "parse_members (parse_value pow10 n) n ([] @ compose_object fmt (Suc depth) es @ r) = Parsed cs r"
      using all False by (intro parse_members_compose) simp_all
    obtain t where t: "compose_object fmt (Suc depth) es = tabs fmt (Suc depth) @ t" "visible t" using all False
      by (cases es) (auto simp: list_all2_Cons2 visible_def)
    then have "parse_members (parse_value pow10 n) n (t @ r) = Parsed cs r"
      using p parse_members_blank [OF tb] by (simp only: append_assoc append_Nil)
    then show ?thesis unfolding nl_def [symmetric] t(1) append_assoc parse_object_def at_Cons list.sel
        pskip_blank [OF nl] pskip_blank [OF tb] using t(2) by (simp add: pbind_def) (simp add: visible_def)
  qed
qed

lemma pair_Inr: "bindr a (\<lambda>x. mapr (Pair x) b) = Inr e \<longleftrightarrow> a = Inr (fst e) \<and> b = Inr (snd e)"
  by (cases a; cases b; cases e) auto

lemma parse_value_number:
  assumes i: "\<bar>i\<bar> < 2 ^ 53" and r: "delim r"
  shows "parse_value pow10 (Suc l) (print_long i @ r) = Parsed (Item (cJSON_Int i) []) r"
proof -
  define t where "t = print_long i"
  have "visible t \<and> (hd t = CHR ''-'' \<or> c_isdigit (hd t))" using print_long_visible [of i] small_in_long [OF i] by (simp add: t_def)
  moreover from this have "at (t @ r) \<noteq> CHR ''n''" "at (t @ r) \<noteq> CHR ''f''" "at (t @ r) \<noteq> CHR ''t''" "at (t @ r) \<noteq> quote"
    by (auto simp: visible_def c_isdigit_def)
  moreover from this have "take 4 (t @ r) \<noteq> ''null''" "take 5 (t @ r) \<noteq> ''false''" "take 4 (t @ r) \<noteq> ''true''"
    by (intro take_other; simp)+
  ultimately show ?thesis unfolding t_def [symmetric] using parse_number_print [OF i r, of pow10]
    by (auto simp: t_def [symmetric] pbind_def visible_def simp del: take_append)
qed

lemma parse_value_print:
  "plain j \<Longrightarrow> print_value depth fmt j = Inr t \<Longrightarrow> delim r \<Longrightarrow> length t < n \<Longrightarrow>
   parse_value pow10 n (t @ r) = Parsed j r"
proof (induction depth fmt j arbitrary: t r n rule: print_value.induct)
  case (1 depth fmt k cs)
  obtain l where n: "n = Suc l" using "1.prems"(4) by (cases n) auto
  show ?case
  proof (cases k)
    case (cJSON_Int i)
    then have "\<bar>i\<bar> < 2 ^ 53" "t = print_long i" "cs = []" using "1.prems" by simp_all
    then show ?thesis using parse_value_number "1.prems"(3) cJSON_Int unfolding n by simp
  next
    case (cJSON_String s)
    then have s: "plain_string s" "print_string_ptr (Some s) = Inr t" "cs = []" using "1.prems" by simp_all
    then have "parse_string (t @ r) = Parsed s r" by (intro parse_string_print) (simp_all add: plain_string_iff)
    moreover obtain u where "t = quote # u" using s by (auto simp: print_string_fits)
    ultimately show ?thesis using cJSON_String s by (simp add: n pbind_def)
  next
    case cJSON_Array
    then obtain es where es: "list_all2 (\<lambda>m e. print_value (Suc depth) fmt (snd m) = Inr e) cs es"
      and t: "t = CHR ''['' # compose_array fmt es"
      using "1.prems"(2) by (auto simp: bindr_Inr_iff collectr_Inr print_array_fits)
    have cs: "\<forall>m \<in> set cs. fst m = None \<and> plain (snd m)" using "1.prems"(1) cJSON_Array by (simp add: list_all_iff)
    have "parse_array (parse_value pow10 l) l (CHR ''['' # compose_array fmt es @ r) = Parsed (Item cJSON_Array cs) r"
      using es "1.IH"(1) [OF cJSON_Array] cs "1.prems"(4) n t by (intro parse_array_print [OF es]) simp_all
    then show ?thesis using cJSON_Array by (simp add: n t c_isdigit_def)
  next
    case cJSON_Object
    then obtain es where es: "list_all2 (\<lambda>m e. print_string_ptr (fst m) = Inr (fst e) \<and> print_value (Suc depth) fmt (snd m) = Inr (snd e)) cs es"
      and t: "t = CHR ''{'' # (if fmt then [CHR 0x0A] else []) @ compose_object fmt (Suc depth) es"
      using "1.prems"(2) by (auto simp: bindr_Inr_iff [of "collectr _"] collectr_Inr pair_Inr print_object_fits)
    have cs: "\<forall>m \<in> set cs. (\<exists>s. fst m = Some s \<and> plain_string s) \<and> plain (snd m)"
      using "1.prems"(1) cJSON_Object by (auto simp: list_all_iff split: option.splits)
    have "parse_object (parse_value pow10 l) l (CHR ''{'' # (if fmt then [CHR 0x0A] else []) @ compose_object fmt (Suc depth) es @ r)
        = Parsed (Item cJSON_Object cs) r"
      using "1.IH"(2) [OF cJSON_Object] cs "1.prems"(4) n t by (intro parse_object_print [OF es]) simp_all
    then show ?thesis using cJSON_Object by (simp add: n t c_isdigit_def)
  next
    case cJSON_NULL
    then have "t = ''null''" "cs = []" using "1.prems" by auto
    then show ?thesis using cJSON_NULL n by simp
  next
    case cJSON_False
    then have "t = ''false''" "cs = []" using "1.prems" by auto
    then show ?thesis using cJSON_False n by simp
  next
    case cJSON_True
    then have "t = ''true''" "cs = []" using "1.prems" by auto
    then show ?thesis using cJSON_True n by simp
  qed (use "1.prems" in simp)
qed

subsection \<open>Every parser consumes text\<close>

lemma json_skip_length: "json_skip s = Inr r \<Longrightarrow> length r \<le> length s \<and> r \<noteq> []"
  by (induction s) (auto split: if_splits)

lemma pskip_Parsed: "pskip s f = Parsed x r \<longleftrightarrow> (\<exists>v. json_skip s = Inr v \<and> f v = Parsed x r)"
  by (simp add: pskip_def split: sum.splits)

lemma pskip_OutOfFuel: "pskip s f = OutOfFuel \<longleftrightarrow> (\<exists>v. json_skip s = Inr v \<and> f v = OutOfFuel)"
  by (simp add: pskip_def split: sum.splits)

lemma pbind_Parsed: "pbind p f = Parsed x r \<longleftrightarrow> (\<exists>y q. p = Parsed y q \<and> f y q = Parsed x r)"
  by (simp add: pbind_def split: parsed.splits)

lemma pbind_OutOfFuel: "pbind p f = OutOfFuel \<longleftrightarrow> p = OutOfFuel \<or> (\<exists>y q. p = Parsed y q \<and> f y q = OutOfFuel)"
  by (simp add: pbind_def split: parsed.splits)

lemma of_res_Parsed: "of_res p = Parsed x r \<longleftrightarrow> p = Inr (x, r)"
  by (auto simp: of_res_def split: sum.splits)

lemma of_res_fuel [simp]: "of_res p \<noteq> OutOfFuel"
  by (auto simp: of_res_def split: sum.splits)

lemmas parsed_iffs = pskip_Parsed pskip_OutOfFuel pbind_Parsed pbind_OutOfFuel of_res_Parsed

lemma int_digits_length: "int_digits n s = Inr (m, r) \<Longrightarrow> length r \<le> length s \<and> (c_isdigit (at s) \<longrightarrow> length r < length s)"
proof (induction n s rule: int_digits.induct)
  case (2 n c cs)
  then show ?case by (auto simp: bindr_Inr_iff split: if_splits) force+
qed (simp add: c_isdigit_def)

lemma frac_digits_length: "frac_digits x k s = Inr (y, l, r) \<Longrightarrow> length r \<le> length s"
  by (induction x k s rule: frac_digits.induct) (auto simp: Let_def split: if_splits)

lemma exp_digits_length: "exp_digits n s = Inr (m, r) \<Longrightarrow> length r \<le> length s"
proof (induction n s rule: exp_digits.induct)
  case (2 n c cs)
  then show ?case by (auto simp: bindr_Inr_iff split: if_splits) force
qed simp

lemma parse_integer_length:
  "parse_integer s = Inr (m, r) \<Longrightarrow> length r \<le> length s \<and> (c_isdigit (at s) \<longrightarrow> length r < length s)"
proof (cases "at s = CHR ''0''")
  case True
  assume p: "parse_integer s = Inr (m, r)"
  have "s = CHR ''0'' # tl s" using True by (cases s) auto
  moreover have "length r \<le> length (tl s)"
    using p True int_digits_length [of 0 "tl s" m r] by (auto simp: parse_integer_def Let_def split: if_splits)
  ultimately show ?thesis by (cases s) auto
next
  case False
  assume "parse_integer s = Inr (m, r)"
  then show ?thesis using False int_digits_length [of 0 s m r] by (auto simp: parse_integer_def Let_def split: if_splits)
qed

lemma parse_fraction_length: "parse_fraction n s = Inr (y, l, r) \<Longrightarrow> length r \<le> length s"
  by (auto simp: parse_fraction_def mapr_Inr_iff split: if_splits dest: frac_digits_length)

lemma parse_exponent_length: "parse_exponent s = Inr (y, r) \<Longrightarrow> length r \<le> length s"
  by (auto simp: parse_exponent_def mapr_Inr_iff Let_def split: if_splits dest!: exp_digits_length)

lemma parse_number_length:
  assumes "parse_number pow10 s = Parsed k r" "at s = CHR ''-'' \<or> c_isdigit (at s)"
  shows "length r < length s"
proof -
  define s1 where "s1 = (if at s = CHR ''-'' then tl s else s)"
  obtain n s3 y l s4 e s5 where i: "parse_integer s1 = Inr (n, s3)"
    and f: "parse_fraction n s3 = Inr (y, l, s4)" and e: "parse_exponent s4 = Inr (e, s5)" and r: "r = s5"
    using assms(1) unfolding s1_def parse_number_def Let_def of_res_Parsed bindr_Inr_iff case_prod_beta
    by (auto simp: mapr_Inr_iff split: if_splits)
  have "length s3 < length s"
    using assms(2) parse_integer_length [OF i] by (cases s) (auto simp: s1_def c_isdigit_def split: if_splits)
  then show ?thesis using parse_fraction_length [OF f] parse_exponent_length [OF e] r by simp
qed

lemma unescape_length: "unescape uc s = Inr (t, r) \<Longrightarrow> length r \<le> length s"
proof (induction "length s" arbitrary: uc s t r rule: less_induct)
  case less
  have IH: "length r \<le> length u" if "unescape uc' u = Inr (t', r)" "length u < length s" for uc' u t'
    using less.hyps [OF that(2) that(1)] .
  show ?case
  proof (cases s)
    case (Cons c cs)
    with less.prems show ?thesis
      by (auto simp: mapr_Inr_iff split: if_splits list.splits option.splits dest!: IH)
  qed (use less.prems in simp)
qed

lemma parse_string_length: "parse_string s = Parsed x r \<Longrightarrow> length r < length s"
  by (cases s) (auto simp: parse_string_def of_res_Parsed bindr_Inr_iff split: if_splits dest!: unescape_length)

definition consuming :: "(string \<Rightarrow> 'a parsed) \<Rightarrow> bool" where
  "consuming p \<longleftrightarrow> (\<forall>s x r. p s = Parsed x r \<longrightarrow> length r < length s)"

lemma consumingD: "consuming p \<Longrightarrow> p s = Parsed x r \<Longrightarrow> length r < length s"
  by (simp add: consuming_def)

lemma parse_items_length:
  assumes "consuming pv"
  shows "parse_items pv n s = Parsed x r \<Longrightarrow> length r < length s"
proof (induction n arbitrary: s x)
  case (Suc n)
  obtain v j q w where v: "json_skip s = Inr v" "pv v = Parsed j q" "json_skip q = Inr w"
    and w: "(\<exists>y. parse_items pv n (tl w) = Parsed y r) \<or> r = tl w"
    using Suc.prems by (auto simp: parsed_iffs split: if_splits)
  have "length w < length s" using json_skip_length [OF v(1)] json_skip_length [OF v(3)] consumingD [OF assms v(2)] by simp
  then show ?case using w Suc.IH [of "tl w"] by fastforce
qed simp

lemma parse_members_length:
  assumes "consuming pv"
  shows "parse_members pv n s = Parsed x r \<Longrightarrow> length r < length s"
proof (induction n arbitrary: s x)
  case (Suc n)
  obtain v nm q w u j q' w' where v: "json_skip s = Inr v" "parse_string v = Parsed nm q" "json_skip q = Inr w"
      "json_skip (tl w) = Inr u" "pv u = Parsed j q'" "json_skip q' = Inr w'"
    and w: "(\<exists>y. parse_members pv n (tl w') = Parsed y r) \<or> r = tl w'"
    using Suc.prems by (auto simp: parsed_iffs split: if_splits)
  have "length w < length s" using json_skip_length [OF v(1)] json_skip_length [OF v(3)] parse_string_length [OF v(2)] by simp
  moreover have "length w' < length w" using v json_skip_length [OF v(4)] json_skip_length [OF v(6)] consumingD [OF assms v(5)]
    by (cases w) auto
  ultimately show ?case using w Suc.IH [of "tl w'"] by fastforce
qed simp

lemma parse_array_length:
  assumes "consuming pv"
  shows "parse_array pv n s = Parsed j r \<Longrightarrow> length r < length s"
  by (cases s) (auto simp: parse_array_def parsed_iffs split: if_splits dest!: json_skip_length parse_items_length [OF assms])

lemma parse_object_length:
  assumes "consuming pv"
  shows "parse_object pv n s = Parsed j r \<Longrightarrow> length r < length s"
  by (cases s) (auto simp: parse_object_def parsed_iffs split: if_splits dest!: json_skip_length parse_members_length [OF assms])

lemma drop_literal: "take k s = c # w \<Longrightarrow> length (drop k s) < length s"
  by (cases s; cases k) auto

lemma parse_value_consumes: "consuming (parse_value pow10 n)"
proof (induction n)
  case (Suc n)
  have "length r < length s" if p: "parse_value pow10 (Suc n) s = Parsed j r" for s j r
  proof -
    have lit: "length r < length s" if "take k s = c # w" "Parsed x (drop k s) = Parsed j r" for k c w x
      using drop_literal [OF that(1)] that(2) by (auto simp del: length_drop)
    have str: "length r < length s" if "pbind (parse_string s) (\<lambda>x. Parsed (Item (cJSON_String x) [])) = Parsed j r"
      using that parse_string_length [of s _ r] by (auto simp: pbind_Parsed)
    have num: "length r < length s" if "at s = CHR ''-'' \<or> c_isdigit (at s)"
        "pbind (parse_number pow10 s) (\<lambda>k. Parsed (Item k [])) = Parsed j r"
      using that(2) parse_number_length [of pow10 s _ r, OF _ that(1)] by (auto simp: pbind_Parsed)
    show ?thesis
      using p unfolding parse_value.simps
      by (simp only: split: if_split_asm)
        (rule lit str num parse_array_length [OF Suc.IH] parse_object_length [OF Suc.IH], (assumption | simp)+)+
  qed
  then show ?case by (simp add: consuming_def)
qed (simp add: consuming_def)

lemma parse_items_fuel:
  assumes "consuming pv" and pv: "\<And>v. length v < N \<Longrightarrow> pv v \<noteq> OutOfFuel"
  shows "length s < n \<Longrightarrow> length s < N \<Longrightarrow> parse_items pv n s \<noteq> OutOfFuel"
proof (induction n arbitrary: s)
  case (Suc n)
  show ?case
  proof
    assume "parse_items pv (Suc n) s = OutOfFuel"
    then consider (v) v where "json_skip s = Inr v" "pv v = OutOfFuel"
      | (items) v j q w where "json_skip s = Inr v" "pv v = Parsed j q" "json_skip q = Inr w" "parse_items pv n (tl w) = OutOfFuel"
      by (auto simp: parsed_iffs split: if_splits)
    then show False
    proof cases
      case v
      then show False using json_skip_length [OF v(1)] pv [of v] Suc.prems by simp
    next
      case items
      then have "length (tl w) < length s"
        using json_skip_length [OF items(1)] json_skip_length [OF items(3)] consumingD [OF assms(1) items(2)] by auto
      then show False using Suc items(4) by simp
    qed
  qed
qed simp

lemma parse_members_fuel:
  assumes "consuming pv" and pv: "\<And>v. length v < N \<Longrightarrow> pv v \<noteq> OutOfFuel"
  shows "length s < n \<Longrightarrow> length s < N \<Longrightarrow> parse_members pv n s \<noteq> OutOfFuel"
proof (induction n arbitrary: s)
  case (Suc n)
  have str: "parse_string v \<noteq> OutOfFuel" for v by (simp add: parse_string_def)
  show ?case
  proof
    assume "parse_members pv (Suc n) s = OutOfFuel"
    then obtain v nm q w u where v: "json_skip s = Inr v" "parse_string v = Parsed nm q" "json_skip q = Inr w"
        "json_skip (tl w) = Inr u"
      and u: "pv u = OutOfFuel \<or> (\<exists>j q' w'. pv u = Parsed j q' \<and> json_skip q' = Inr w' \<and> parse_members pv n (tl w') = OutOfFuel)"
      using str by (auto simp: parsed_iffs split: if_splits)
    have "length u < length s"
      using json_skip_length [OF v(1)] json_skip_length [OF v(3)] json_skip_length [OF v(4)] parse_string_length [OF v(2)] by auto
    moreover from this obtain j q' w' where w: "pv u = Parsed j q'" "json_skip q' = Inr w'" "parse_members pv n (tl w') = OutOfFuel"
      using u pv [of u] Suc.prems by auto
    ultimately have "length (tl w') < length s" using json_skip_length [OF w(2)] consumingD [OF assms(1) w(1)] by auto
    then show False using Suc w(3) by simp
  qed
qed simp

lemma parse_array_fuel:
  assumes "consuming pv" "\<And>v. length v < n \<Longrightarrow> pv v \<noteq> OutOfFuel" "length s \<le> n"
  shows "parse_array pv n s \<noteq> OutOfFuel"
proof
  assume "parse_array pv n s = OutOfFuel"
  then obtain v where v: "s \<noteq> []" "json_skip (tl s) = Inr v" "parse_items pv n v = OutOfFuel"
    by (cases s) (auto simp: parse_array_def parsed_iffs split: if_splits)
  then have "length v < n" using json_skip_length [OF v(2)] assms(3) by (cases s) auto
  then show False using parse_items_fuel [OF assms(1,2)] v(3) by blast
qed

lemma parse_object_fuel:
  assumes "consuming pv" "\<And>v. length v < n \<Longrightarrow> pv v \<noteq> OutOfFuel" "length s \<le> n"
  shows "parse_object pv n s \<noteq> OutOfFuel"
proof
  assume "parse_object pv n s = OutOfFuel"
  then obtain v where v: "s \<noteq> []" "json_skip (tl s) = Inr v" "parse_members pv n v = OutOfFuel"
    by (cases s) (auto simp: parse_object_def parsed_iffs split: if_splits)
  then have "length v < n" using json_skip_length [OF v(2)] assms(3) by (cases s) auto
  then show False using parse_members_fuel [OF assms(1,2)] v(3) by blast
qed

lemma parse_value_fuel: "length s < n \<Longrightarrow> parse_value pow10 n s \<noteq> OutOfFuel"
proof (induction n arbitrary: s)
  case (Suc n)
  have "parse_array (parse_value pow10 n) n s \<noteq> OutOfFuel" "parse_object (parse_value pow10 n) n s \<noteq> OutOfFuel"
    using Suc by (intro parse_array_fuel parse_object_fuel parse_value_consumes; simp)+
  moreover have "parse_string s \<noteq> OutOfFuel" "parse_number pow10 s \<noteq> OutOfFuel"
    by (simp_all add: parse_string_def parse_number_def Let_def)
  ultimately show ?case by (simp add: pbind_OutOfFuel)
qed simp

lemma parse_printed:
  assumes "plain j" "print_value 0 fmt j = Inr t"
  shows "cJSON_Parse pow10 t = Parsed j []"
proof -
  have "visible t" using assms print_visible by blast
  then have "pskip (t @ []) f = f (t @ [])" for f :: "string \<Rightarrow> json parsed" by (rule pskip_visible)
  moreover have "parse_value pow10 (Suc (length t)) (t @ []) = Parsed j []"
    using assms by (intro parse_value_print) (simp_all add: delim_def c_isdigit_def)
  ultimately show ?thesis by (simp add: cJSON_Parse_def)
qed

section \<open>Properties\<close>

text \<open>
  Claim C27. What \<open>cJSON_Print\<close> and \<open>cJSON_PrintUnformatted\<close> write, \<open>cJSON_Parse\<close> reads back as the
  same item, at every nesting of arrays and objects and whatever the mathematical library does: for items
  without numbers of type \<open>double\<close>, with integers below \<open>2 ^ 53\<close> in magnitude, and with strings without
  the control characters that printing leaves out.
\<close>

theorem print_then_parse:
  assumes "plain j"
  shows "\<exists>t. print_value 0 fmt j = Inr t \<and> cJSON_Parse pow10 t = Parsed j []"
  using print_value_total [of 0 fmt j] parse_printed [OF assms] by blast

definition sample_item :: json where
  "sample_item = Item cJSON_Object [(Some ''command'', Item (cJSON_String ''say \"hi\"'') []),
     (Some ''params'', Item cJSON_Array [(None, Item (cJSON_Int (- 12)) []), (None, Item cJSON_True [])])]"

theorem print_then_parse_witness:
  "plain sample_item
   \<and> (\<exists>t. print_value 0 True sample_item = Inr t \<and> cJSON_Parse (\<lambda>x. x) t = Parsed sample_item [])"
proof -
  have p: "plain sample_item" by code_simp
  then show ?thesis using print_then_parse [OF p, of True "\<lambda>x. x"] by blast
qed


text \<open>
  Claim C29. Parsing ends on every text: the recursion of \<open>parse_value\<close> and the loops over children are
  bounded by the length of the text, because every accepted child consumes at least one character.
\<close>

theorem parsing_ends: "cJSON_Parse pow10 s \<noteq> OutOfFuel"
proof
  assume "cJSON_Parse pow10 s = OutOfFuel"
  then obtain v where v: "json_skip s = Inr v" "parse_value pow10 (Suc (length s)) v = OutOfFuel"
    by (auto simp: cJSON_Parse_def parsed_iffs)
  then show False using json_skip_length [OF v(1)] parse_value_fuel [of v "Suc (length s)" pow10] by simp
qed

end
