(* ===== verification/Cw_Messages.thy ===== *)
theory Cw_Messages
  imports Cw_JSON Cw_Value
begin

text \<open>
  The texts that Clockwork processes exchange, \<open>src/iod/src/MessageEncoding.cpp\<close>: commands with
  their parameters, notices of state changes and errors, and how the receiver reads them. The
  table of names is passed along because a symbol that is read takes a number. Dynamic values are
  sent as the program is built, without the macro \<open>DYNAMIC_VALUES\<close>: they have no type and no value.
\<close>

section \<open>Sending\<close>

definition valueType :: "cw_value \<Rightarrow> string" where
  "valueType v = (case kind v of
     t_symbol \<Rightarrow> ''NAME'' | t_string \<Rightarrow> ''STRING'' | t_integer \<Rightarrow> ''INTEGER''
   | t_float \<Rightarrow> ''FLOAT'' | t_bool \<Rightarrow> ''BOOL'' | _ \<Rightarrow> [])"

definition addValueToJSONObject :: "json \<Rightarrow> string \<Rightarrow> cw_value \<Rightarrow> json res" where
  "addValueToJSONObject obj name val = (case kind val of
     t_symbol \<Rightarrow> Inr (cJSON_AddItemToObject obj name (cJSON_CreateString (sValue val)))
   | t_string \<Rightarrow> Inr (cJSON_AddItemToObject obj name (cJSON_CreateString (sValue val)))
   | t_integer \<Rightarrow> mapr (\<lambda>i. cJSON_AddItemToObject obj name (cJSON_CreateLong i)) (read_field (iValue val))
   | t_float \<Rightarrow> mapr (\<lambda>x. cJSON_AddItemToObject obj name (cJSON_CreateDouble x)) (read_field (fValue val))
   | t_bool \<Rightarrow> mapr (\<lambda>b. cJSON_AddItemToObject obj name (if b then cJSON_CreateTrue else cJSON_CreateFalse)) (read_field (bValue val))
   | _ \<Rightarrow> Inr obj)"

definition addValueToJSONArray :: "json \<Rightarrow> cw_value \<Rightarrow> json res" where
  "addValueToJSONArray obj val = (case kind val of
     t_symbol \<Rightarrow> Inr (cJSON_AddItemToArray obj (cJSON_CreateString (sValue val)))
   | t_string \<Rightarrow> Inr (cJSON_AddItemToArray obj (cJSON_CreateString (sValue val)))
   | t_integer \<Rightarrow> mapr (\<lambda>i. cJSON_AddItemToArray obj (cJSON_CreateLong i)) (read_field (iValue val))
   | t_float \<Rightarrow> mapr (\<lambda>x. cJSON_AddItemToArray obj (cJSON_CreateDouble x)) (read_field (fValue val))
   | t_bool \<Rightarrow> mapr (\<lambda>b. cJSON_AddItemToArray obj (if b then cJSON_CreateTrue else cJSON_CreateFalse)) (read_field (bValue val))
   | _ \<Rightarrow> Inr obj)"

definition encode_param :: "cw_value \<Rightarrow> json res" where
  "encode_param val =
     addValueToJSONObject (cJSON_AddItemToObject cJSON_CreateObject ''type'' (cJSON_CreateString (valueType val))) ''value'' val"

fun encode_params :: "json \<Rightarrow> cw_value list \<Rightarrow> json res" where
  "encode_params cjParams [] = Inr cjParams"
| "encode_params cjParams (val # vals) =
     bindr (value_ne val Value_empty) (\<lambda>send.
     if send then bindr (encode_param val) (\<lambda>cjItem. encode_params (cJSON_AddItemToArray cjParams cjItem) vals)
     else encode_params cjParams vals)"

definition encodeCommand :: "string \<Rightarrow> cw_value list option \<Rightarrow> string res" where
  "encodeCommand cmd params =
     (let msg = cJSON_AddItemToObject cJSON_CreateObject ''command'' (cJSON_CreateString cmd)
      in bindr (encode_params cJSON_CreateArray (case params of None \<Rightarrow> [] | Some ps \<Rightarrow> ps)) (\<lambda>cjParams.
         cJSON_PrintUnformatted (cJSON_AddItemToObject msg ''params'' cjParams)))"

fun drop_nulls :: "cw_value list \<Rightarrow> cw_value list res" where
  "drop_nulls [] = Inr []"
| "drop_nulls (p # ps) = bindr (value_ne p Value_empty) (\<lambda>b. mapr (\<lambda>qs. if b then p # qs else qs) (drop_nulls ps))"

definition encodeCommand4 :: "string \<Rightarrow> cw_value \<Rightarrow> cw_value \<Rightarrow> cw_value \<Rightarrow> cw_value \<Rightarrow> string res" where
  "encodeCommand4 cmd p1 p2 p3 p4 = bindr (drop_nulls [p1, p2, p3, p4]) (\<lambda>ps. encodeCommand cmd (Some ps))"

text \<open>The two texts for a state are written directly, without escapes.\<close>

definition state_prefix :: "string \<Rightarrow> string \<Rightarrow> string" where
  "state_prefix machine state =
     ''{\"command\":\"STATE\", \"params\":[\"'' @ c_str machine @ ''\", \"'' @ c_str state @ ''\"''"

definition encodeState_authority :: "string \<Rightarrow> string \<Rightarrow> int \<Rightarrow> string" where
  "encodeState_authority machine state authority =
     snprintf_buf (length machine + length state + 80)
       (state_prefix machine state @ '', '' @ show_int (to_long authority) @ '']} '')"

definition encodeState :: "string \<Rightarrow> string \<Rightarrow> string" where
  "encodeState machine state =
     snprintf_buf (length machine + length state + 50) (state_prefix machine state @ '']}'')"

definition encodeError :: "string \<Rightarrow> string res" where
  "encodeError error =
     cJSON_PrintUnformatted (cJSON_AddItemToObject cJSON_CreateObject ''error'' (cJSON_CreateString error))"

section \<open>Receiving\<close>

definition json_type_name :: "json option \<Rightarrow> string res" where
  "json_type_name cjType = (case cjType of
     None \<Rightarrow> Inr ''STRING''
   | Some j \<Rightarrow> (case json_type j of cJSON_String s \<Rightarrow> Inr s | _ \<Rightarrow> Inl AssertFailed))"

definition valueFromJSONObject :: "tokeniser \<Rightarrow> json option \<Rightarrow> json option \<Rightarrow> (cw_value \<times> tokeniser) res" where
  "valueFromJSONObject t obj cjType = (case obj of
     None \<Rightarrow> Inr (Value_empty, t)
   | Some j \<Rightarrow> mapr (\<lambda>ty.
       apfst (value_assign Value_empty) (case json_type j of
         cJSON_String s \<Rightarrow> if ty = ''STRING'' then Value_cstr t s t_string else Value_cstr t s t_symbol
       | cJSON_NULL \<Rightarrow> (Value_empty, t)
       | cJSON_True \<Rightarrow> (Value_bool True, t)
       | cJSON_False \<Rightarrow> (Value_bool False, t)
       | cJSON_Int i \<Rightarrow> (Value_long i, t)
       | cJSON_Double x \<Rightarrow> (Value_double x, t)
       | _ \<Rightarrow> (Value_empty, t))) (json_type_name cjType))"

text \<open>The loops over the parameters; \<open>keep\<close> keeps the null values as the vector of a state does.\<close>

fun state_params :: "bool \<Rightarrow> tokeniser \<Rightarrow> json list \<Rightarrow> (cw_value list \<times> tokeniser) res" where
  "state_params keep t [] = Inr ([], t)"
| "state_params keep t (item # items) =
     bindr (valueFromJSONObject t (Some item) None) (\<lambda>(v, t).
     bindr (if keep then Inr True else value_ne v Value_empty) (\<lambda>b.
     mapr (apfst (if b then Cons v else id)) (state_params keep t items)))"

fun command_params :: "tokeniser \<Rightarrow> json list \<Rightarrow> (cw_value list \<times> tokeniser) res" where
  "command_params t [] = Inr ([], t)"
| "command_params t (item # items) =
     bindr (cJSON_GetObjectItem (Some item) ''type'') (\<lambda>type.
     bindr (cJSON_GetObjectItem (Some item) ''value'') (\<lambda>value.
     bindr (valueFromJSONObject t value type) (\<lambda>(v, t).
     bindr (value_ne v Value_empty) (\<lambda>b.
     mapr (apfst (if b then Cons v else id)) (command_params t items)))))"

text \<open>A message that is accepted: the command, the parameters or no list of them.\<close>

type_synonym received = "(string \<times> cw_value list option) option \<times> tokeniser"

definition read_message ::
  "(double \<Rightarrow> double) \<Rightarrow> (string \<Rightarrow> json list \<Rightarrow> (cw_value list \<times> tokeniser) res) \<Rightarrow> tokeniser \<Rightarrow> string \<Rightarrow> received res" where
  "read_message pow10 reader t msg = (case cJSON_Parse pow10 msg of
     OutOfFuel \<Rightarrow> Inr (None, t)
   | Undefined e \<Rightarrow> Inl e
   | Bad \<Rightarrow> Inr (None, t)
   | Parsed obj _ \<Rightarrow>
       bindr (cJSON_GetObjectItem (Some obj) ''command'') (\<lambda>command. case command of
         None \<Rightarrow> Inr (None, t)
       | Some c \<Rightarrow> (case json_type c of
           cJSON_String cmd \<Rightarrow>
             bindr (cJSON_GetObjectItem (Some obj) ''params'') (\<lambda>cjParams.
             bindr (cJSON_GetArraySize cjParams) (\<lambda>num_params.
             if num_params = 0 then Inr (Some (cmd, None), t)
             else mapr (\<lambda>(vs, t). (Some (cmd, Some vs), t)) (reader cmd (map snd (child (the cjParams))))))
         | _ \<Rightarrow> Inr (None, t))))"

definition getCommand_vector :: "(double \<Rightarrow> double) \<Rightarrow> tokeniser \<Rightarrow> string \<Rightarrow> received res" where
  "getCommand_vector pow10 t msg =
     read_message pow10 (\<lambda>cmd. if cmd = ''STATE'' then state_params True t else command_params t) t msg"

definition getCommand :: "(double \<Rightarrow> double) \<Rightarrow> tokeniser \<Rightarrow> string \<Rightarrow> received res" where
  "getCommand pow10 t msg =
     read_message pow10 (\<lambda>cmd. if cmd = ''STATE'' then state_params False t else command_params t) t msg"

definition getState :: "(double \<Rightarrow> double) \<Rightarrow> tokeniser \<Rightarrow> string \<Rightarrow> received res" where
  "getState pow10 t msg = read_message pow10 (\<lambda>cmd. state_params False t) t msg"

section \<open>What can be sent and read back\<close>

definition sendable :: "tokeniser \<Rightarrow> cw_value \<Rightarrow> bool" where
  "sendable t v \<longleftrightarrow> value_ok v \<and> (case kind v of
     t_symbol \<Rightarrow> plain_string (sValue v) \<and> plain_name (sValue v) \<and> tokenised t v
   | t_string \<Rightarrow> plain_string (sValue v)
   | t_integer \<Rightarrow> (case iValue v of None \<Rightarrow> False | Some i \<Rightarrow> \<bar>i\<bar> < 2 ^ 53)
   | t_bool \<Rightarrow> True
   | _ \<Rightarrow> False)"

text \<open>Equal kind and equal content, whatever the other fields hold.\<close>

definition same_content :: "cw_value \<Rightarrow> cw_value \<Rightarrow> bool" where
  "same_content v w \<longleftrightarrow> kind v = kind w \<and> (case kind v of
     t_symbol \<Rightarrow> sValue v = sValue w \<and> token_id v = token_id w
   | t_string \<Rightarrow> sValue v = sValue w
   | t_integer \<Rightarrow> iValue v = iValue w
   | t_float \<Rightarrow> fValue v = fValue w
   | t_bool \<Rightarrow> bValue v = bValue w
   | t_dynamic \<Rightarrow> dyn_value v = dyn_value w
   | t_empty \<Rightarrow> True)"

section \<open>Lemmas\<close>

lemmas json_builders = cJSON_AddItemToObject_def cJSON_AddItemToArray_def cJSON_CreateObject_def cJSON_CreateArray_def
  cJSON_CreateString_def cJSON_CreateLong_def cJSON_CreateTrue_def cJSON_CreateFalse_def

lemma plain_string_c_str: "plain_string s \<Longrightarrow> c_str s = s"
  by (rule plain_no_null) (simp add: plain_string_iff)

lemma plain_ascii [simp]:
  "plain_string ''type''" "plain_string ''value''" "plain_string ''command''" "plain_string ''params''"
  "plain_string ''NAME''" "plain_string ''STRING''" "plain_string ''INTEGER''" "plain_string ''BOOL''"
  by code_simp+

text \<open>A name that has its number already takes no new one.\<close>

lemma known_token: "token_of t s = Some n \<Longrightarrow> getTokenId t s = (n, t)"
  by (simp add: getTokenId_def token_of_def)

lemma find_member:
  "cJSON_GetObjectItem (Some (Item k [(Some ''type'', a), (Some ''value'', b)])) ''type'' = Inr (Some a)"
  "cJSON_GetObjectItem (Some (Item k [(Some ''type'', a), (Some ''value'', b)])) ''value'' = Inr (Some b)"
  "cJSON_GetObjectItem (Some (Item k [(Some ''command'', a), (Some ''params'', b)])) ''command'' = Inr (Some a)"
  "cJSON_GetObjectItem (Some (Item k [(Some ''command'', a), (Some ''params'', b)])) ''params'' = Inr (Some b)"
  by (simp_all add: cJSON_GetObjectItem_def strcasecmp_eq_def c_str_def c_tolower_def Let_def)

lemma encode_param_shape:
  assumes "sendable t v"
  obtains j w where "encode_param v = Inr (Item cJSON_Object [(Some ''type'', Item (cJSON_String (valueType v)) []), (Some ''value'', j)])"
    "plain j" "plain_string (valueType v)" "value_ne v Value_empty = Inr True"
    "valueFromJSONObject t (Some j) (Some (Item (cJSON_String (valueType v)) [])) = Inr (w, t)"
    "same_content v w" "value_ne w Value_empty = Inr True"
proof -
  note defs = encode_param_def addValueToJSONObject_def json_builders valueType_def valueFromJSONObject_def json_type_name_def
    value_ne_def compare_numbers_def string_kind_def numeric_types_def same_content_def value_assign_def Value_cstr_def
  have "value_ok v" using assms by (simp add: sendable_def)
  then show thesis
  proof (cases rule: value_ok_cases)
    case (bool b i x s tok)
    show thesis
      by (rule that [of "Item (if b then cJSON_True else cJSON_False) []" "value_assign Value_empty (Value_bool b)"])
        (simp_all add: bool defs value_simps c_str_def)
  next
    case (integer b i x s tok)
    then have "\<bar>i\<bar> < 2 ^ 53" using assms by (simp add: sendable_def)
    then show thesis
      by (intro that [of "Item (cJSON_Int i) []" "value_assign Value_empty (Value_long i)"])
        (simp_all add: integer defs value_simps c_str_def)
  next
    case (string b i x s tok)
    then have "plain_string s" using assms by (simp add: sendable_def)
    then show thesis
      by (intro that [of "Item (cJSON_String s) []" "value_assign Value_empty (fst (Value_cstr t s t_string))"])
        (simp_all add: string defs value_simps plain_string_c_str)
  next
    case (symbol b i x s tok)
    then have s: "plain_string s" "plain_name s" "token_of t s = Some tok"
      using assms by (simp_all add: sendable_def tokenised_def)
    then show thesis
      by (intro that [of "Item (cJSON_String s) []" "value_assign Value_empty (fst (Value_cstr t s t_symbol))"])
        (simp_all add: symbol defs value_simps plain_string_c_str plain_name_def known_token)
  qed (use assms in \<open>simp_all add: sendable_def\<close>)
qed

lemma encode_params_shape:
  assumes "list_all (sendable t) vs"
  shows "\<exists>js ws. encode_params (Item cJSON_Array cs) vs = Inr (Item cJSON_Array (cs @ map (Pair None) js))
           \<and> list_all plain js \<and> command_params t js = Inr (ws, t) \<and> list_all2 same_content vs ws \<and> length js = length vs"
  using assms
proof (induction vs arbitrary: cs)
  case Nil
  then show ?case by (intro exI [of _ "[]"]) simp
next
  case (Cons v vs)
  then have "sendable t v" by simp
  then obtain j w where e: "encode_param v = Inr (Item cJSON_Object [(Some ''type'', Item (cJSON_String (valueType v)) []), (Some ''value'', j)])"
    and j: "plain j" "plain_string (valueType v)" "value_ne v Value_empty = Inr True"
    and w: "valueFromJSONObject t (Some j) (Some (Item (cJSON_String (valueType v)) [])) = Inr (w, t)"
      "same_content v w" "value_ne w Value_empty = Inr True"
    by (rule encode_param_shape)
  define it where "it = Item cJSON_Object [(Some ''type'', Item (cJSON_String (valueType v)) []), (Some ''value'', j)]"
  have "list_all (sendable t) vs" using Cons.prems by simp
  from Cons.IH [OF this, of "cs @ [(None, it)]"] obtain js ws where
    IH: "encode_params (Item cJSON_Array (cs @ [(None, it)])) vs = Inr (Item cJSON_Array ((cs @ [(None, it)]) @ map (Pair None) js))"
      "list_all plain js" "command_params t js = Inr (ws, t)" "list_all2 same_content vs ws" "length js = length vs"
    by (elim exE conjE)
  have "encode_params (Item cJSON_Array cs) (v # vs) = Inr (Item cJSON_Array (cs @ map (Pair None) (it # js)))"
    using e j(3) IH(1) by (simp add: it_def [symmetric] cJSON_AddItemToArray_def)
  moreover have "plain it" using j(1,2) by (simp add: it_def)
  moreover have "command_params t (it # js) = Inr (w # ws, t)" using w IH(3) by (simp add: it_def find_member)
  ultimately show ?case using IH(2,4,5) w(2) by (intro exI [of _ "it # js"] exI [of _ "w # ws"]) simp
qed

subsection \<open>Texts of states\<close>

definition safe_name :: "string \<Rightarrow> bool" where
  "safe_name s \<longleftrightarrow> list_all (\<lambda>c. byte c > 31 \<and> c \<noteq> quote \<and> c \<noteq> backslash) s"

lemma safe_name_plain: "safe_name s \<Longrightarrow> plain_string s \<and> concat (map escape_char s) = s"
  by (induction s) (auto simp: safe_name_def plain_string_def plain_char_def escape_char_def)

lemma parse_quoted:
  assumes "safe_name s"
  shows "parse_string (quote # s @ quote # r) = Parsed s r"
proof -
  have "print_string_ptr (Some s) = Inr (quote # s @ [quote])"
    using safe_name_plain [OF assms] by (simp add: print_string_fits plain_string_c_str)
  then show ?thesis using safe_name_plain [OF assms] parse_string_print [of s _ r] by (simp add: plain_string_iff)
qed

lemma parse_quoted_value: "safe_name s \<Longrightarrow> parse_value pow10 (Suc n) (quote # s @ quote # r) = Parsed (Item (cJSON_String s) []) r"
  by (simp add: parse_quoted pbind_def)

lemma safe_literals: "safe_name ''command''" "safe_name ''STATE''" "safe_name ''params''"
  by code_simp+

lemmas parse_literals = parse_quoted [OF safe_literals(1), simplified] parse_quoted [OF safe_literals(2), simplified]
  parse_quoted [OF safe_literals(3), simplified]

lemma pskip_char: "32 < byte c \<Longrightarrow> pskip (c # r) f = f (c # r)" "pskip (CHR '' '' # r) f = pskip r f"
  by (simp_all add: pskip_def byte_def)

lemma parse_state_value:
  assumes "parse_items (parse_value pow10 (Suc n)) (Suc n) (quote # machine @ quote # CHR '','' # CHR '' '' # quote # state @ quote # tail)
          = Parsed js (CHR ''}'' # r)"
    and "c_str machine = machine" "c_str state = state"
  shows "parse_value pow10 (Suc (Suc (Suc n))) (state_prefix machine state @ tail)
    = Parsed (Item cJSON_Object [(Some ''command'', Item (cJSON_String ''STATE'') []), (Some ''params'', Item cJSON_Array js)]) r"
  using assms
  by (simp add: state_prefix_def pskip_char byte_def parse_object_def parse_array_def c_isdigit_def parse_literals pbind_def)

lemma parse_state_text:
  assumes "safe_name machine" "safe_name state"
    and items: "\<And>n. parse_items (parse_value pow10 (Suc (Suc (Suc n)))) (Suc (Suc (Suc n))) (quote # machine @ quote # CHR '','' # CHR '' '' # quote # state @ quote # tail)
          = Parsed js (CHR ''}'' # r)"
  shows "cJSON_Parse pow10 (state_prefix machine state @ tail)
    = Parsed (Item cJSON_Object [(Some ''command'', Item (cJSON_String ''STATE'') []), (Some ''params'', Item cJSON_Array js)]) r"
proof -
  have c: "c_str machine = machine" "c_str state = state"
    using assms(1,2) safe_name_plain plain_string_c_str by simp_all
  obtain n where n: "length (state_prefix machine state @ tail) = Suc (Suc (Suc (Suc n)))" by (simp add: state_prefix_def)
  have "pskip (state_prefix machine state @ tail) f = f (state_prefix machine state @ tail)" for f :: "string \<Rightarrow> json parsed"
    by (simp add: state_prefix_def pskip_char byte_def)
  then show ?thesis unfolding cJSON_Parse_def n using parse_state_value [OF items c] by simp
qed

lemma string_param: "valueFromJSONObject t (Some (Item (cJSON_String s) [])) None = Inr (Value t_string None None None s (Some 0) None, t)"
  by (simp add: valueFromJSONObject_def json_type_name_def Value_cstr_def value_assign_def value_simps)

lemma number_param: "valueFromJSONObject t (Some (Item (cJSON_Int i) [])) None = Inr (Value t_integer None (Some i) None [] (Some 0) None, t)"
  by (simp add: valueFromJSONObject_def json_type_name_def value_assign_def value_simps)

lemma not_null: "value_ne (Value t_string b i x s tok d) Value_empty = Inr True" "value_ne (Value t_integer b i x s tok d) Value_empty = Inr True"
  by (simp_all add: value_ne_def compare_numbers_def string_kind_def numeric_types_def value_simps)

lemma parse_small_number:
  assumes "\<bar>i\<bar> < 2 ^ 53" "delim r"
  shows "parse_value pow10 (Suc n) (show_int i @ r) = Parsed (Item (cJSON_Int i) []) r" "pskip (show_int i @ r) f = f (show_int i @ r)"
proof -
  have p: "show_int i = print_long i"
    using length_show_int [of i] small_in_long [OF assms(1)] by (simp add: print_long_def snprintf_buf_def)
  show "parse_value pow10 (Suc n) (show_int i @ r) = Parsed (Item (cJSON_Int i) []) r"
    unfolding p using assms by (rule parse_value_number)
  show "pskip (show_int i @ r) f = f (show_int i @ r)"
    unfolding p using print_long_visible [OF small_in_long [OF assms(1)]] by (intro pskip_visible) simp
qed

text \<open>
  Claim C30. A command that one process encodes is decoded by another as the same command with the same parameters,
  for texts without the control characters that JSON printing leaves out, integers below \<open>2 ^ 53\<close>, booleans, and
  symbols that the receiver's table of names knows. The command \<open>STATE\<close>, which has a form of its own, is excluded.
\<close>

theorem command_round_trip:
  assumes "plain_string cmd" "cmd \<noteq> ''STATE''" "list_all (sendable t) vs"
  shows "\<exists>msg ws. encodeCommand cmd (Some vs) = Inr msg
           \<and> getCommand pow10 t msg = Inr (Some (cmd, if vs = [] then None else Some ws), t)
           \<and> list_all2 same_content vs ws"
proof -
  obtain js ws where js: "encode_params (Item cJSON_Array []) vs = Inr (Item cJSON_Array (map (Pair None) js))"
      "list_all plain js" "command_params t js = Inr (ws, t)" "list_all2 same_content vs ws" "length js = length vs"
    using encode_params_shape [OF assms(3), of "[]"] by (elim exE conjE) simp
  define obj where "obj = Item cJSON_Object [(Some ''command'', Item (cJSON_String cmd) []),
    (Some ''params'', Item cJSON_Array (map (Pair None) js))]"
  have plain: "plain obj" using assms(1) js(2) by (simp add: obj_def list_all_iff)
  obtain msg where msg: "print_value 0 False obj = Inr msg" using print_value_total by blast
  have parse: "cJSON_Parse pow10 msg = Parsed obj []" using parse_printed [OF plain msg] .
  have enc: "encodeCommand cmd (Some vs) = Inr msg"
    using js(1) msg assms(1) by (simp add: encodeCommand_def json_builders cJSON_PrintUnformatted_def obj_def plain_string_c_str)
  have "getCommand pow10 t msg = Inr (Some (cmd, if vs = [] then None else Some ws), t)"
    using parse js(3,5) assms(2) by (simp add: getCommand_def read_message_def obj_def find_member cJSON_GetArraySize_def comp_def)
  with enc js(4) show ?thesis by blast
qed

definition sample_params :: "tokeniser \<Rightarrow> cw_value list" where
  "sample_params t = [fst (Value_cstr t ''pump'' t_symbol), Value_long (- 7), Value_bool True]"

theorem command_round_trip_witness:
  "list_all (sendable (snd (getTokenId tokeniser_instance ''pump''))) (sample_params (snd (getTokenId tokeniser_instance ''pump'')))
   \<and> (\<exists>msg ws. encodeCommand ''SET'' (Some (sample_params (snd (getTokenId tokeniser_instance ''pump'')))) = Inr msg
       \<and> getCommand (\<lambda>x. x) (snd (getTokenId tokeniser_instance ''pump'')) msg
           = Inr (Some (''SET'', Some ws), snd (getTokenId tokeniser_instance ''pump''))
       \<and> list_all2 same_content (sample_params (snd (getTokenId tokeniser_instance ''pump''))) ws)"
proof -
  define t where "t = snd (getTokenId tokeniser_instance ''pump'')"
  have s: "list_all (sendable t) (sample_params t)" unfolding t_def by code_simp
  have "plain_string ''SET''" by code_simp
  from command_round_trip [OF this _ s, of "\<lambda>x. x"] s show ?thesis
    unfolding t_def [symmetric] by (simp add: sample_params_def)
qed

text \<open>
  Claim C31. A notice of a state change carries the name of the machine, the name of the state and the number of the
  authority to the receiver, for names without quotes, backslashes and control characters: the text fits its buffer,
  is accepted, and both ways of reading it give the two names as strings and the number as an integer.
\<close>

theorem state_round_trip:
  assumes "safe_name machine" "safe_name state" "0 \<le> authority" "authority < 2 ^ 53"
  shows "\<exists>m s a. getState pow10 t (encodeState_authority machine state authority) = Inr (Some (''STATE'', Some [m, s, a]), t)
           \<and> getCommand pow10 t (encodeState_authority machine state authority) = Inr (Some (''STATE'', Some [m, s, a]), t)
           \<and> kind m = t_string \<and> sValue m = machine \<and> kind s = t_string \<and> sValue s = state
           \<and> kind a = t_integer \<and> iValue a = Some authority"
proof -
  define tail where "tail = '', '' @ show_int authority @ '']} ''"
  define js where "js = map (Pair (None :: string option)) [Item (cJSON_String machine) [], Item (cJSON_String state) [], Item (cJSON_Int authority) []]"
  have a: "to_long authority = authority" "\<bar>authority\<bar> < 2 ^ 53" using assms(3,4) by (auto simp: to_long_def to_u64_def LONG_MAX_def)
  have c: "c_str machine = machine" "c_str state = state"
    using assms(1,2) safe_name_plain plain_string_c_str by simp_all
  have "length (show_int authority) \<le> 20" using length_show_int small_in_long [OF a(2)] by simp
  then have enc: "encodeState_authority machine state authority = state_prefix machine state @ tail"
    by (simp add: encodeState_authority_def tail_def a snprintf_buf_def state_prefix_def c)
  have "parse_items (parse_value pow10 (Suc (Suc (Suc n)))) (Suc (Suc (Suc n)))
      (quote # machine @ quote # CHR '','' # CHR '' '' # quote # state @ quote # tail) = Parsed js (CHR ''}'' # '' '')" for n
    using assms(1,2) by (simp add: parse_small_number [OF a(2)] tail_def js_def pskip_char byte_def parse_quoted_value pbind_def delim_def c_isdigit_def del: parse_value.simps)
  then have "cJSON_Parse pow10 (state_prefix machine state @ tail)
    = Parsed (Item cJSON_Object [(Some ''command'', Item (cJSON_String ''STATE'') []), (Some ''params'', Item cJSON_Array js)]) '' ''"
    using assms(1,2) by (intro parse_state_text)
  then show ?thesis unfolding enc
    by (simp add: getState_def getCommand_def read_message_def find_member cJSON_GetArraySize_def js_def string_param number_param not_null)
qed

theorem state_round_trip_witness:
  "safe_name ''valve'' \<and> safe_name ''open''
   \<and> (\<exists>m s a. getState (\<lambda>x. x) tokeniser_instance (encodeState_authority ''valve'' ''open'' 42)
         = Inr (Some (''STATE'', Some [m, s, a]), tokeniser_instance)
       \<and> sValue m = ''valve'' \<and> sValue s = ''open'' \<and> iValue a = Some 42)"
proof -
  have n: "safe_name ''valve''" "safe_name ''open''" by code_simp+
  show ?thesis using state_round_trip [OF n, of 42 "\<lambda>x. x" tokeniser_instance] n by auto
qed

end
