(* ===== verification/Cw_States.thy ===== *)
theory Cw_States
  imports Cw_Timers Cw_Actions Cw_Scheduler
begin

text \<open>
  How a machine changes its state (\<open>src/iod/src/MachineInstance.cpp\<close>, \<open>StableState.cpp\<close>,
  \<open>ConditionHandler.cpp\<close>): \<open>setState\<close> with its announcements and timers, and \<open>setStableState\<close>,
  which looks for the first stable state whose condition holds. Conditions and timer clauses are
  those of the theories on expressions and timers, triggers and the action stack those of the
  theory on actions. What other objects do when they are called, the handlers of messages, flags
  and the names a condition can see, is the argument \<open>env\<close>. Tracing is off.
\<close>

section \<open>Data\<close>

record handler =
  h_condition :: cond
  h_timer_val :: cw_value
  h_trigger :: "nat option"
  h_uses_timer :: bool
  h_triggered :: bool
  h_command :: string
  h_flag :: string

record stable_state =
  state_name :: string
  condition :: cond
  uses_timer :: bool
  timer_val :: cw_value
  ss_trigger :: "nat option"
  handlers :: "handler list option"
  timer_predicates :: "predicate list"

datatype modbus_source = Src_Unknown | Src_Machine | Src_State | Src_Command | Src_Property

record modbus_address =
  ma_source :: modbus_source
  ma_grouped :: bool          \<comment> \<open>the group is not \<open>none\<close>\<close>

datatype call =
    Request_Change string
  | Modbus_Update string int
  | Mqtt_Publish string
  | State_Published string int

record sm =
  ex :: exec
  cur :: string                      \<comment> \<open>\<open>current_state\<close>\<close>
  states :: "string list"
  default_state :: string
  initial_state :: string
  stable_states :: "stable_state list"
  expected_authority :: int
  is_shadow :: bool
  channel_active :: bool
  io_state :: "string option"        \<comment> \<open>the state of the \<open>io_interface\<close>, if there is one\<close>
  item_count :: nat                  \<comment> \<open>the sizes of \<open>parameters\<close> and \<open>locals\<close>\<close>
  local_count :: nat
  property :: "string \<Rightarrow> cw_value"
  state_property :: string           \<comment> \<open>the property \<open>STATE\<close>\<close>
  published :: bool
  modbus_io :: bool                  \<comment> \<open>exported as a discrete or a coil\<close>
  exports :: "string \<Rightarrow> modbus_address option"
  mqtt_output :: bool
  tok :: tokeniser
  now :: int
  poll_delay :: int
  start_time :: int
  timers :: "scheduled_item list"
  flags :: "string \<Rightarrow> (string \<times> bool) option"   \<comment> \<open>a machine's state, and whether it is active\<close>
  set_actions :: "(nat \<times> string) list"        \<comment> \<open>the states that enqueued actions are to set\<close>
  calls :: "call list"

record env =
  scope_of :: "sm \<Rightarrow> scope"
  receives :: "nat \<Rightarrow> string \<Rightarrow> sm \<Rightarrow> (bool \<times> sm) res"
  execute_self :: "string \<Rightarrow> sm \<Rightarrow> (status \<times> sm) res"
  execute_other :: "nat \<Rightarrow> string \<Rightarrow> sm \<Rightarrow> sm res"
  resume_other :: "nat \<Rightarrow> sm \<Rightarrow> sm res"
  responsive :: "nat \<Rightarrow> bool"                \<comment> \<open>active, or with an \<open>io_interface\<close>\<close>
  enter_function :: "string \<Rightarrow> sm \<Rightarrow> sm res"
  set_flag :: "string \<Rightarrow> string \<Rightarrow> sm \<Rightarrow> sm res"
  enqueue_flag :: "string \<Rightarrow> string \<Rightarrow> sm \<Rightarrow> sm res"

definition on_exec :: "(exec \<Rightarrow> exec res) \<Rightarrow> sm \<Rightarrow> sm res" where
  "on_exec f m = mapr (\<lambda>e. m\<lparr>ex := e\<rparr>) (f (ex m))"

definition log_call :: "call \<Rightarrow> sm \<Rightarrow> sm" where
  "log_call c m = m\<lparr>calls := calls m @ [c]\<rparr>"

abbreviation me :: "sm \<Rightarrow> mach" where
  "me m \<equiv> machine (ex m)"

abbreviation mname :: "sm \<Rightarrow> string" where
  "mname m \<equiv> exec.machine_name (ex m)"

section \<open>Stable states and their handlers\<close>

definition StableState_new :: "string \<Rightarrow> predicate \<Rightarrow> stable_state res" where
  "StableState_new s p = mapr (\<lambda>(u, v). \<lparr>state_name = s, condition = Condition_predicate (Some p), uses_timer = u,
     timer_val = v, ss_trigger = None, handlers = None, timer_predicates = []\<rparr>) (usesTimer p (Value_long 0))"

fun retain_triggers :: "nat option list \<Rightarrow> exec \<Rightarrow> exec res" where
  "retain_triggers [] e = Inr e"
| "retain_triggers (t # ts) e = (case t of None \<Rightarrow> retain_triggers ts e | Some k \<Rightarrow> bindr (trigger_retain k e) (retain_triggers ts))"

fun release_triggers :: "nat option list \<Rightarrow> exec \<Rightarrow> exec res" where
  "release_triggers [] e = Inr e"
| "release_triggers (t # ts) e = (case t of None \<Rightarrow> release_triggers ts e | Some k \<Rightarrow> bindr (trigger_release k e) (release_triggers ts))"

definition handler_triggers :: "stable_state \<Rightarrow> nat option list" where
  "handler_triggers s = (case handlers s of None \<Rightarrow> [] | Some hs \<Rightarrow> map h_trigger hs)"

text \<open>The copy keeps no time to wait for and no trigger of its own; its handlers share their triggers.\<close>

definition StableState_copy :: "stable_state \<Rightarrow> exec \<Rightarrow> (stable_state \<times> exec) res" where
  "StableState_copy s e = mapr (\<lambda>e'. (s\<lparr>condition := Condition_copy (condition s), timer_val := Value_long 0,
       ss_trigger := None, timer_predicates := (if handlers s = None then [] else timer_predicates s),
       handlers := map_option (map (\<lambda>h. h\<lparr>h_condition := Condition_copy (h_condition h)\<rparr>)) (handlers s)\<rparr>, e'))
     (retain_triggers (handler_triggers s) e)"

definition drop_trigger :: "nat option \<Rightarrow> exec \<Rightarrow> exec res" where
  "drop_trigger t e = (case t of
     None \<Rightarrow> Inr e
   | Some k \<Rightarrow> bindr (get_trigger e k) (\<lambda>y. bindr (if is_active y then trigger_disable k e else Inr e) (trigger_release k)))"

definition StableState_destroy :: "stable_state \<Rightarrow> exec \<Rightarrow> exec res" where
  "StableState_destroy s e = bindr (drop_trigger (ss_trigger s) e) (release_triggers (handler_triggers s))"

definition collectTimerPredicates :: "stable_state \<Rightarrow> stable_state res" where
  "collectTimerPredicates s = (case handlers s of
     None \<Rightarrow> Inr s
   | Some hs \<Rightarrow> bindr (guardr AssertFailed (timer_predicates s = [])) (\<lambda>_.
       bindr (guardr NullPointer (list_all (\<lambda>h. predicate_of (h_condition h) \<noteq> None) hs)) (\<lambda>_.
       Inr (s\<lparr>timer_predicates := concat (map (\<lambda>h. findTimerClauses (the (predicate_of (h_condition h)))) hs)\<rparr>))))"

definition handler_reset :: "handler \<Rightarrow> exec \<Rightarrow> (handler \<times> exec) res" where
  "handler_reset h e = mapr (\<lambda>e'. (h\<lparr>h_trigger := None, h_triggered := False\<rparr>, e')) (drop_trigger (h_trigger h) e)"

definition call_condition :: "env \<Rightarrow> cond \<Rightarrow> sm \<Rightarrow> (bool \<times> cond \<times> sm) res option" where
  "call_condition env c m = bindo (Condition_call (scope_of env m) (tok m) c) (\<lambda>(b, t, c'). Some (Inr (b, c', m\<lparr>tok := t\<rparr>)))"

definition change_flag :: "env \<Rightarrow> string \<Rightarrow> bool \<Rightarrow> string \<Rightarrow> sm \<Rightarrow> sm res" where
  "change_flag env flag active sta m = (if active then enqueue_flag env flag sta m else set_flag env flag sta m)"

text \<open>
  \<open>ConditionHandler::check\<close>. A flag follows its condition. Any other command is executed once; a
  handler that does not execute its command evaluates the condition for the log.
\<close>

definition handler_ready :: "handler \<Rightarrow> sm \<Rightarrow> bool res" where
  "handler_ready h m = (if h_triggered h then Inr False
     else case h_trigger h of None \<Rightarrow> Inr True | Some t \<Rightarrow> mapr seen (get_trigger (ex m) t))"

definition handler_execute :: "env \<Rightarrow> handler \<Rightarrow> sm \<Rightarrow> (handler \<times> sm) res" where
  "handler_execute env h m = bindr (execute_self env (h_command h) m) (\<lambda>(sta, m').
     mapr (Pair (h\<lparr>h_triggered := True\<rparr>)) (case h_trigger h of None \<Rightarrow> Inr m' | Some t \<Rightarrow> on_exec (trigger_disable t) m'))"

definition handler_check :: "env \<Rightarrow> handler \<Rightarrow> sm \<Rightarrow> (bool \<times> handler \<times> sm) res option" where
  "handler_check env h m =
     (if h_command h = ''FLAG''
      then (case flags m (h_flag h) of
              None \<Rightarrow> Some (Inr (h_triggered h, h, m))
            | Some (sta, active) \<Rightarrow> bindo (call_condition env (h_condition h) m) (\<lambda>(b, c, m').
                let target = (if b then ''on'' else ''off''); h' = h\<lparr>h_condition := c\<rparr>
                in if sta = target then Some (Inr (h_triggered h, h', m'))
                   else Some (mapr (\<lambda>m''. (h_triggered h, h', m'')) (change_flag env (h_flag h) active target m'))))
      else bindo (Some (handler_ready h m)) (\<lambda>ready.
           bindo (if ready then call_condition env (h_condition h) m else Some (Inr (False, h_condition h, m))) (\<lambda>(b, c, m').
           let h' = h\<lparr>h_condition := c\<rparr>
           in if b then Some (mapr (\<lambda>(h'', m''). (True, h'', m'')) (handler_execute env h' m'))
              else bindo (call_condition env c m') (\<lambda>(_, c', m'').
                   Some (Inr (h_triggered h, h'\<lparr>h_condition := c'\<rparr>, m''))))))"

section \<open>Setting a state\<close>

definition is_on :: "string \<Rightarrow> bool" where
  "is_on s \<longleftrightarrow> s = ''on'' \<or> s = ''true''"

fun tell_leaving :: "env \<Rightarrow> string \<Rightarrow> nat list \<Rightarrow> sm \<Rightarrow> sm res" where
  "tell_leaving env msg [] m = Inr m"
| "tell_leaving env msg (d # ds) m =
     (if d = self (ex m) then tell_leaving env msg ds m
      else bindr (receives env d msg m) (\<lambda>(r, m1).
        if r then bindr (resume_other env d m1) (\<lambda>m2. bindr (execute_other env d msg m2) (tell_leaving env msg ds))
        else tell_leaving env msg ds m1))"

definition leave_state :: "env \<Rightarrow> string \<Rightarrow> sm \<Rightarrow> sm res" where
  "leave_state env new m =
     (if is_enabled (me m) \<and> cur m \<noteq> new \<and> cur m \<noteq> ''undefined''
      then bindr (receives env (self (ex m)) (cur m @ ''_leave'') m) (\<lambda>(r, m1).
           bindr (if r then mapr snd (execute_self env (cur m @ ''_leave'') m1) else Inr m1) (\<lambda>m2.
           tell_leaving env (mname m2 @ ''.'' @ cur m2 @ ''_leave'') (depends (net (ex m2)) (self (ex m2))) m2))
      else Inr m)"

definition modbus_machine :: "string \<Rightarrow> sm \<Rightarrow> sm" where
  "modbus_machine new m =
     (if published m \<and> modbus_io m
      then (case exports m (mname m) of
              None \<Rightarrow> m
            | Some ma \<Rightarrow>
                if ma_source ma = Src_Machine \<and> ma_grouped ma
                then if is_on new then log_call (Modbus_Update (mname m) 1) m
                     else if is_on (cur m) then log_call (Modbus_Update (mname m) 0) m else m
                else m)
      else m)"

definition modbus_state :: "string \<Rightarrow> int \<Rightarrow> sm \<Rightarrow> sm res" where
  "modbus_state s v m = (case exports m (mname m @ ''.'' @ s) of
     None \<Rightarrow> Inr m
   | Some ma \<Rightarrow> bindr (guardr AssertFailed (ma_source ma = Src_State)) (\<lambda>_.
       Inr (log_call (Modbus_Update (mname m @ ''.'' @ s) v) m)))"

text \<open>The new state is in place before anybody hears of it.\<close>

definition enter_state :: "env \<Rightarrow> string \<Rightarrow> sm \<Rightarrow> sm res" where
  "enter_state env new m =
     (let old = cur m; m1 = m\<lparr>start_time := now m, cur := new\<rparr>
      in bindr (enter_function env new m1) (\<lambda>m2.
         let m3 = m2\<lparr>state_property := cur m2\<rparr>; m4 = (if mqtt_output m3 then log_call (Mqtt_Publish new) m3 else m3)
         in if published m4 then bindr (modbus_state old 0 m4) (\<lambda>m5. modbus_state (cur m5) 1 m5) else Inr m4))"

subsection \<open>Timers of the stable states\<close>

definition adjust_timer :: "pred_op \<Rightarrow> int \<Rightarrow> int res" where
  "adjust_timer opr v = (if opr = opGT then chk_long (v + 1) else if opr = opLT then chk_long (v - 1) else Inr v)"

definition state_timer :: "sm \<Rightarrow> stable_state \<Rightarrow> int option res" where
  "state_timer m s = (case predicate_of (condition s) of
     None \<Rightarrow> Inl NullPointer
   | Some p \<Rightarrow>
       (let adjusted = (\<lambda>r. bindr r (\<lambda>v. mapr Some (adjust_timer (pop p) v)))
        in case kind (timer_val s) of
             t_symbol \<Rightarrow> (let v = property m (sValue (timer_val s)) in if kind v = t_integer then adjusted (read_field (iValue v)) else Inr None)
           | t_string \<Rightarrow> (let v = property m (sValue (timer_val s)) in if kind v = t_integer then adjusted (read_field (iValue v)) else Inr None)
           | t_integer \<Rightarrow> adjusted (read_field (iValue (timer_val s)))
           | t_float \<Rightarrow> adjusted (bindr (read_field (fValue (timer_val s))) long_of_dbl)
           | _ \<Rightarrow> Inr None))"

definition clause_timer :: "sm \<Rightarrow> int \<Rightarrow> predicate \<Rightarrow> int res" where
  "clause_timer m t node =
     (let earlier = (\<lambda>i. if i < t then if pop node = opGT then chk_long (i + 1) else Inr i else Inr t)
      in bindr (getTimerValue node) (\<lambda>tv. bindr (value_eq tv Value_empty) (\<lambda>null.
         if null then Inr t
         else if kind tv = t_symbol \<or> kind tv = t_string
         then let v = property m (sValue tv)
              in if kind v = t_integer then bindr (read_field (iValue v)) (\<lambda>i. if 0 \<le> i then earlier i else Inr t) else Inr t
         else if kind tv = t_integer then bindr (read_field (iValue tv)) earlier
         else Inr t)))"

fun clause_timers :: "sm \<Rightarrow> int \<Rightarrow> predicate list \<Rightarrow> int res" where
  "clause_timers m t [] = Inr t"
| "clause_timers m t (p # ps) = bindr (clause_timer m t p) (\<lambda>t'. clause_timers m t' ps)"

text \<open>
  \<open>setupSubconditionTriggers\<close>: every handler is compared with the time that was given, not with
  the earliest of the handlers before it.
\<close>

fun subcondition_timers :: "sm \<Rightarrow> string \<Rightarrow> int \<Rightarrow> int \<Rightarrow> handler list \<Rightarrow> exec \<Rightarrow> (handler list \<times> int \<times> exec) res" where
  "subcondition_timers m s earliest result [] e = Inr ([], result, e)"
| "subcondition_timers m s earliest result (h # hs) e =
     (if h_uses_timer h
      then bindr (handler_reset h e) (\<lambda>(h', e').
           bindr (if s = cur m
                  then (case predicate_of (h_condition h) of
                          None \<Rightarrow> Inl NullPointer
                        | Some p \<Rightarrow> clause_timers m LONG_MAX (findTimerClauses p))
                  else Inr LONG_MAX) (\<lambda>v.
           mapr (apfst (Cons h'))
             (subcondition_timers m s earliest (if v < LONG_MAX \<and> v < earliest then v else result) hs e')))
      else mapr (apfst (Cons h)) (subcondition_timers m s earliest result hs e))"

text \<open>
  The earliest time over all stable states, with the index of its state; a state whose time is
  no number is left at once.
\<close>

type_synonym earliest = "nat option \<times> int"

definition scan_handlers :: "sm \<Rightarrow> nat \<Rightarrow> stable_state \<Rightarrow> earliest \<Rightarrow> exec \<Rightarrow> (stable_state \<times> earliest \<times> exec) res" where
  "scan_handlers m i s best e = (case handlers s of
     None \<Rightarrow> Inr (s, best, e)
   | Some hs \<Rightarrow> mapr (\<lambda>(hs', v, e'). (s\<lparr>handlers := Some hs'\<rparr>, if v < snd best then (Some i, v) else best, e'))
       (subcondition_timers m (state_name s) (snd best) (snd best) hs e))"

definition scan_state :: "sm \<Rightarrow> nat \<Rightarrow> stable_state \<Rightarrow> earliest \<Rightarrow> exec \<Rightarrow> (stable_state \<times> earliest \<times> exec) res" where
  "scan_state m i s best e =
     (if uses_timer s
      then bindr (drop_trigger (ss_trigger s) e) (\<lambda>e1. let s1 = s\<lparr>ss_trigger := None\<rparr>
           in bindr (state_timer m s1) (\<lambda>t. case t of
                None \<Rightarrow> Inr (s1, best, e1)
              | Some v \<Rightarrow> scan_handlers m i s1 (if v < snd best \<or> fst best = None then (Some i, v) else best) e1))
      else scan_handlers m i s best e)"

fun scan_states :: "sm \<Rightarrow> nat \<Rightarrow> stable_state list \<Rightarrow> earliest \<Rightarrow> exec \<Rightarrow> (stable_state list \<times> earliest \<times> exec) res" where
  "scan_states m i [] best e = Inr ([], best, e)"
| "scan_states m i (s # ss) best e = bindr (scan_state m i s best e) (\<lambda>(s', best', e').
     mapr (apfst (Cons s')) (scan_states m (Suc i) ss best' e'))"

definition owned_trigger :: "string \<Rightarrow> exec \<Rightarrow> (nat \<times> exec) res" where
  "owned_trigger n e = (case new_trigger n e of (t, e1) \<Rightarrow> mapr (Pair t) (setOwner Machine_Owner t e1))"

text \<open>The trigger is put into a local copy of the stable state, which is destroyed at the end of the block.\<close>

definition schedule_state_timer :: "int \<Rightarrow> earliest \<Rightarrow> sm \<Rightarrow> sm res" where
  "schedule_state_timer base best m = (case fst best of
     None \<Rightarrow> Inr m
   | Some i \<Rightarrow> bindr (StableState_copy (stable_states m ! i) (ex m)) (\<lambda>(s, e).
       if 0 < snd best
       then bindr (owned_trigger (''SSTimer '' @ mname m @ '' '' @ state_name s) e) (\<lambda>(t, e1).
            bindr (chk_long (snd best * 1000)) (\<lambda>delay.
            bindr (trigger_retain t e1) (\<lambda>e2.
            mapr (\<lambda>e3. m\<lparr>ex := e3, timers := timers m @ [trigger_item base delay t]\<rparr>)
              (StableState_destroy (s\<lparr>ss_trigger := Some t\<rparr>) e2))))
       else mapr (\<lambda>e1. m\<lparr>ex := e1\<rparr>) (StableState_destroy s (if - 2 \<le> snd best then activate_self e else e))))"

definition state_timers :: "sm \<Rightarrow> sm res" where
  "state_timers m = bindr (scan_states m 0 (stable_states m) (None, LONG_MAX) (ex m)) (\<lambda>(ss, best, e).
     schedule_state_timer (now m) best (m\<lparr>stable_states := ss, ex := e\<rparr>))"

subsection \<open>The whole change\<close>

fun notifyDependents :: "env \<Rightarrow> string \<Rightarrow> nat list \<Rightarrow> sm \<Rightarrow> sm res" where
  "notifyDependents env msg [] m = Inr m"
| "notifyDependents env msg (d # ds) m =
     (if d = self (ex m) \<or> \<not> is_enabled (machines (net (ex m)) d) \<or> \<not> responsive env d then notifyDependents env msg ds m
      else bindr (receives env d msg m) (\<lambda>(r, m1).
           bindr (if r then execute_other env d msg m1 else Inr m1) (notifyDependents env msg ds)))"

definition change_state :: "env \<Rightarrow> string \<Rightarrow> int \<Rightarrow> sm \<Rightarrow> (status \<times> sm) res" where
  "change_state env new authority m =
     bindr (leave_state env new m) (\<lambda>m1.
     bindr (enter_state env new (modbus_machine new m1)) (\<lambda>m2.
     bindr (state_timers m2) (\<lambda>m3.
     let m4 = (if published m3 then log_call (State_Published new authority) m3 else m3); msg = mname m4 @ ''.'' @ new @ ''_enter''
     in bindr (execute_self env msg m4) (\<lambda>(sta, m5).
        mapr (Pair sta) (notifyDependents env msg (depends (net (ex m5)) (self (ex m5))) m5)))))"

definition setState :: "env \<Rightarrow> string \<Rightarrow> int \<Rightarrow> bool \<Rightarrow> sm \<Rightarrow> (status \<times> sm) res" where
  "setState env new authority resuming m =
     (if expected_authority m \<noteq> 0 \<and> authority = 0
      then if is_shadow m then Inr (Running, if channel_active m then log_call (Request_Change new) m else m)
           else Inr (Failed, m)
      else if expected_authority m = 0 \<and> authority \<noteq> 0 then Inr (Failed, m)
      else if \<not> resuming \<and> cur m = new then Inr (Complete, m)
      else if \<not> has_class (me m) then Inl NullPointer
      else if new \<in> set (states m) then change_state env new authority m
      else bindr (asString (property m new)) (\<lambda>s.
           if c_str s \<notin> set (states m) then Inr (Failed, m)
           else if \<not> resuming \<and> cur m = c_str s then Inr (Complete, m)
           else change_state env (c_str s) authority m))"

definition setState_name :: "env \<Rightarrow> string \<Rightarrow> int \<Rightarrow> bool \<Rightarrow> sm \<Rightarrow> (status \<times> sm) res" where
  "setState_name env sn authority resuming m =
     (if \<not> has_class (me m) \<or> sn \<notin> set (states m) then Inr (Failed, m) else setState env sn authority resuming m)"

section \<open>Looking for a stable state\<close>

definition isStableState :: "string \<Rightarrow> sm \<Rightarrow> bool" where
  "isStableState s m \<longleftrightarrow> list_ex (\<lambda>x. state_name x = s) (stable_states m)"

fun first_valid :: "env \<Rightarrow> sm \<Rightarrow> stable_state list \<Rightarrow> (string option \<times> stable_state list \<times> sm) res option" where
  "first_valid env m [] = Some (Inr (None, [], m))"
| "first_valid env m (s # ss) = bindo (call_condition env (condition s) m) (\<lambda>(b, c, m').
     if b then Some (Inr (Some (state_name s), s\<lparr>condition := c\<rparr> # ss, m'))
     else map_option (mapr (\<lambda>(f, ss', m''). (f, s\<lparr>condition := c\<rparr> # ss', m''))) (first_valid env m' ss))"

text \<open>\<open>firstValidStableState\<close>: an empty name counts as not found.\<close>

definition firstValidStableState :: "env \<Rightarrow> sm \<Rightarrow> (string \<times> sm) res option" where
  "firstValidStableState env m = map_option (mapr (\<lambda>(f, ss, m').
     (case f of None \<Rightarrow> default_state m | Some s \<Rightarrow> if s = [] then default_state m else s, m'\<lparr>stable_states := ss\<rparr>)))
     (first_valid env m (stable_states m))"

definition enqueue_setState :: "string \<Rightarrow> sm \<Rightarrow> sm" where
  "enqueue_setState s m = (case new_action Other_Action False (ex m) of (a, e) \<Rightarrow>
     m\<lparr>ex := enqueueAction a e, set_actions := set_actions m @ [(a, s)]\<rparr>)"

definition schedule_events :: "env \<Rightarrow> cond \<Rightarrow> timer_details option \<Rightarrow> sm \<Rightarrow> (timer_details option \<times> cond \<times> sm) res option" where
  "schedule_events env c ptd m = (case predicate_of c of
     None \<Rightarrow> Some (Inl NullPointer)
   | Some p \<Rightarrow> bindo (scheduleTimerEvents (scope_of env m) (tok m) p ptd False) (\<lambda>(ptd', check, t, p').
       let m' = m\<lparr>tok := t\<rparr>; c' = c\<lparr>predicate_of := Some p'\<rparr>
       in Some (mapr (\<lambda>m''. (ptd', c', m'')) (if check then on_exec request_self m' else Inr m'))))"

fun check_handlers :: "env \<Rightarrow> handler list \<Rightarrow> timer_details option \<Rightarrow> sm \<Rightarrow> (handler list \<times> timer_details option \<times> sm) res option" where
  "check_handlers env [] ptd m = Some (Inr ([], ptd, m))"
| "check_handlers env (h # hs) ptd m =
     bindo (handler_check env h m) (\<lambda>(done, h', m1).
     bindo (if done then Some (Inr (ptd, h_condition h', m1)) else schedule_events env (h_condition h') ptd m1) (\<lambda>(ptd', c, m2).
     bindo (check_handlers env hs ptd' m2) (\<lambda>(hs', ptd'', m3).
     Some (Inr (h'\<lparr>h_condition := c\<rparr> # hs', ptd'', m3)))))"

definition with_timer :: "env \<Rightarrow> stable_state \<Rightarrow> timer_details option \<Rightarrow> sm \<Rightarrow> (stable_state \<times> timer_details option \<times> sm) res option" where
  "with_timer env s ptd m =
     (if uses_timer s then bindo (schedule_events env (condition s) ptd m) (\<lambda>(ptd', c, m'). Some (Inr (s\<lparr>condition := c\<rparr>, ptd', m')))
      else Some (Inr (s, ptd, m)))"

definition stay :: "env \<Rightarrow> stable_state \<Rightarrow> timer_details option \<Rightarrow> sm \<Rightarrow> (stable_state \<times> timer_details option \<times> sm) res option" where
  "stay env s ptd m = (case handlers s of
     None \<Rightarrow> with_timer env s ptd m
   | Some hs \<Rightarrow> bindo (check_handlers env hs ptd m) (\<lambda>(hs', ptd', m'). with_timer env (s\<lparr>handlers := Some hs'\<rparr>) ptd' m'))"

definition rearm :: "stable_state \<Rightarrow> stable_state" where
  "rearm s = s\<lparr>handlers := map_option (map (\<lambda>h. h\<lparr>h_triggered := False\<rparr>)) (handlers s)\<rparr>"

record search =
  found :: "nat option"              \<comment> \<open>the index of the active state\<close>
  changed :: bool
  next_event :: "timer_details option"

text \<open>The states are tried in order; the search ends at the first condition that holds.\<close>

fun find_stable :: "env \<Rightarrow> nat \<Rightarrow> stable_state list \<Rightarrow> timer_details option \<Rightarrow> sm \<Rightarrow> (search \<times> stable_state list \<times> sm) res option" where
  "find_stable env i [] ptd m = Some (Inr (\<lparr>found = None, changed = False, next_event = ptd\<rparr>, [], m))"
| "find_stable env i (s # ss) ptd m = bindo (call_condition env (condition s) m) (\<lambda>(b, c, m1).
     let s1 = s\<lparr>condition := c\<rparr>
     in if b
        then if cur m1 \<noteq> state_name s
             then Some (Inr (\<lparr>found = Some i, changed = True, next_event = ptd\<rparr>, rearm s1 # ss, enqueue_setState (state_name s) m1))
             else bindo (stay env s1 ptd m1) (\<lambda>(s2, ptd', m2).
                  Some (Inr (\<lparr>found = Some i, changed = False, next_event = ptd'\<rparr>, s2 # ss, m2)))
        else bindo (with_timer env s1 ptd m1) (\<lambda>(s2, ptd', m2).
             bindo (find_stable env (Suc i) ss ptd' m2) (\<lambda>(r, ss', m3). Some (Inr (r, s2 # ss', m3)))))"

fun flags_off :: "env \<Rightarrow> handler list \<Rightarrow> sm \<Rightarrow> sm res" where
  "flags_off env [] m = Inr m"
| "flags_off env (h # hs) m =
     bindr (case (if h_command h = ''FLAG'' then flags m (h_flag h) else None) of
              None \<Rightarrow> Inr m
            | Some (sta, _) \<Rightarrow> if sta = ''off'' then Inr m else set_flag env (h_flag h) ''off'' m) (flags_off env hs)"

fun inactive_flags_off :: "env \<Rightarrow> nat option \<Rightarrow> nat \<Rightarrow> stable_state list \<Rightarrow> sm \<Rightarrow> sm res" where
  "inactive_flags_off env active i [] m = Inr m"
| "inactive_flags_off env active i (s # ss) m =
     bindr (if active = Some i then Inr m else flags_off env (case handlers s of None \<Rightarrow> [] | Some hs \<Rightarrow> hs) m)
       (inactive_flags_off env active (Suc i) ss)"

definition schedule_check :: "timer_details option \<Rightarrow> sm \<Rightarrow> sm res" where
  "schedule_check ptd m = (case ptd of
     None \<Rightarrow> Inr m
   | Some (delay, label) \<Rightarrow>
       bindr (owned_trigger label (ex m)) (\<lambda>(t, e1).
       bindr (trigger_retain t e1) (\<lambda>e2.
       mapr (\<lambda>e3. m\<lparr>ex := e3, timers := timers m @ [trigger_item (now m) delay t]\<rparr>) (trigger_release t e2))))"

definition search_states :: "env \<Rightarrow> sm \<Rightarrow> (bool \<times> sm) res option" where
  "search_states env m = bindo (find_stable env 0 (stable_states m) None m) (\<lambda>(r, ss, m1).
     let m2 = m1\<lparr>stable_states := ss\<rparr>
     in Some (bindr (if changed r then inactive_flags_off env (found r) 0 ss m2 else Inr m2) (\<lambda>m3.
              mapr (Pair (changed r)) (schedule_check (next_event r) m3))))"

text \<open>The states of machines that stand for hardware, lists and references are not searched for.\<close>

definition known_state :: "env \<Rightarrow> string \<Rightarrow> sm \<Rightarrow> (bool \<times> sm) res" where
  "known_state env s m = bindr (guardr AssertFailed (s \<in> set (states m))) (\<lambda>_.
     mapr (\<lambda>(_, m'). (False, m')) (setState env s 0 False m))"

definition fixListState :: "env \<Rightarrow> sm \<Rightarrow> (bool \<times> sm) res" where
  "fixListState env m = known_state env (if item_count m = 0 then ''empty'' else ''nonempty'') m"

definition updateLastEvaluationTime :: "sm \<Rightarrow> sm" where
  "updateLastEvaluationTime m = m\<lparr>ex := change_machine (\<lambda>x. x\<lparr>next_poll := now m + poll_delay m\<rparr>) (ex m)\<rparr>"

definition setStableState :: "env \<Rightarrow> sm \<Rightarrow> (bool \<times> sm) res option" where
  "setStableState env m =
     (let m0 = m\<lparr>ex := (ex m)\<lparr>net := deactivate (self (ex m)) (net (ex m))\<rparr>\<rparr>
      in if \<not> has_class (me m0) \<or> \<not> allow_auto_states (me m0) then Some (Inr (False, m0))
         else if executingCommand (ex m0) \<noteq> None \<or> mail_queue (me m0) \<noteq> [] then Some (Inr (False, m0))
         else let m1 = updateLastEvaluationTime (m0\<lparr>ex := change_machine (\<lambda>x. x\<lparr>needs_check := 0\<rparr>) (ex m0)\<rparr>)
              in case io_state m1 of
                   Some s \<Rightarrow> Some (if s \<in> set (states m1) then mapr (\<lambda>(_, m'). (False, m')) (setState env s 0 False m1) else Inr (False, m1))
                 | None \<Rightarrow> (case class_kind (me m1) of
                     List_Class \<Rightarrow> Some (fixListState env m1)
                   | Reference_Class \<Rightarrow> Some (known_state env (if local_count m1 \<noteq> 0 then ''ASSIGNED'' else ''EMPTY'') m1)
                   | Other_Class \<Rightarrow> search_states env m1))"

definition setInitialState :: "env \<Rightarrow> bool \<Rightarrow> sm \<Rightarrow> sm res" where
  "setInitialState env resuming m =
     (if \<not> has_class (me m) then Inr m
      else case io_state m of
        Some s \<Rightarrow> if s \<in> set (states m) then mapr snd (setState env s (expected_authority m) False m) else Inr m
      | None \<Rightarrow> bindr (if class_kind (me m) = List_Class then fixListState env m
                      else mapr (\<lambda>(_, m'). (False, m')) (setState env (initial_state m) (expected_authority m) resuming m)) (\<lambda>(_, m').
                on_exec request_self m'))"

end
