(* ===== verification/Cw_AutoStates.thy ===== *)
theory Cw_AutoStates
  imports Cw_States Cw_Ownership
begin

text \<open>
  What \<open>setStableState\<close> and \<open>setState\<close> achieve: the automatic state of a machine is the first stable
  state whose condition holds, and the timers that the two functions schedule.
\<close>

section \<open>Reference notions\<close>

text \<open>
  A stable state whose condition is decided in the scope \<open>sc\<close>, without a timer and without
  subconditions.
\<close>

definition decided :: "scope \<Rightarrow> cond \<Rightarrow> bool" where
  "decided sc c \<longleftrightarrow> (case predicate_of c of
     None \<Rightarrow> False | Some p \<Rightarrow> boolean_form p \<and> needs_reevaluation p \<and> all_values sound sc p)"

definition simple_state :: "scope \<Rightarrow> stable_state \<Rightarrow> bool" where
  "simple_state sc s \<longleftrightarrow> decided sc (condition s) \<and> \<not> uses_timer s \<and> handlers s = None"

definition valid :: "scope \<Rightarrow> stable_state \<Rightarrow> bool" where
  "valid sc s \<longleftrightarrow> (case predicate_of (condition s) of None \<Rightarrow> False | Some p \<Rightarrow> holds sc p)"

text \<open>A machine whose stable states are searched for: it has a class, rests, and stands for no hardware, list or reference.\<close>

definition searching :: "sm \<Rightarrow> bool" where
  "searching m \<longleftrightarrow> has_class (me m) \<and> allow_auto_states (me m) \<and> class_kind (me m) = Other_Class
     \<and> stack (ex m) = [] \<and> mail_queue (me m) = [] \<and> io_state m = None"

text \<open>The names that conditions see depend on the state and the properties of the machine only.\<close>

definition sees :: "env \<Rightarrow> sm \<Rightarrow> scope \<Rightarrow> bool" where
  "sees env m sc \<longleftrightarrow> (\<forall>m'. cur m' = cur m \<and> property m' = property m \<longrightarrow> scope_of env m' = sc)"

section \<open>The search\<close>

lemma valid_call:
  assumes "decided sc (condition s)" "scope_of env m = sc"
  obtains c' where "call_condition env (condition s) m = Some (Inr (valid sc s, c', m))"
proof -
  obtain p where p: "predicate_of (condition s) = Some p" "boolean_form p" "needs_reevaluation p" "all_values sound sc p"
    using assms(1) by (auto simp: decided_def split: option.splits)
  obtain c' where "Condition_call sc (tok m) (condition s) = Some (Inr (holds sc p, tok m, c'))"
    using condition_decided [OF p] by blast
  then show thesis using assms(2) p(1) by (intro that [of c']) (simp add: call_condition_def bindo_def valid_def)
qed

lemma find_stable_simple:
  assumes "list_all (simple_state sc) ss" "scope_of env m = sc"
  shows "\<exists>ss' i. find_stable env k ss None m = Some (Inr (case find (valid sc) ss of
      None \<Rightarrow> (\<lparr>found = None, changed = False, next_event = None\<rparr>, ss', m)
    | Some s \<Rightarrow> if state_name s = cur m then (\<lparr>found = Some i, changed = False, next_event = None\<rparr>, ss', m)
               else (\<lparr>found = Some i, changed = True, next_event = None\<rparr>, ss', enqueue_setState (state_name s) m)))
    \<and> list_all (\<lambda>s. handlers s = None) ss'"
  using assms(1)
proof (induction ss arbitrary: k)
  case Nil
  show ?case by simp
next
  case (Cons s ss)
  then have "simple_state sc s" and ss: "list_all (simple_state sc) ss" by simp_all
  then have s: "decided sc (condition s)" "\<not> uses_timer s" "handlers s = None" by (simp_all add: simple_state_def)
  have hn: "list_all (\<lambda>s. handlers s = None) ss" using ss by (simp add: list_all_iff simple_state_def)
  obtain c' where c: "call_condition env (condition s) m = Some (Inr (valid sc s, c', m))"
    using valid_call [OF s(1) assms(2)] by blast
  show ?case
  proof (cases "valid sc s")
    case True
    then show ?thesis using c s hn
      by (auto simp: bindo_def stay_def with_timer_def rearm_def intro!: exI [of _ "_ # ss"])
  next
    case False
    obtain ss' i where IH: "find_stable env (Suc k) ss None m = Some (Inr (case find (valid sc) ss of
        None \<Rightarrow> (\<lparr>found = None, changed = False, next_event = None\<rparr>, ss', m)
      | Some s \<Rightarrow> if state_name s = cur m then (\<lparr>found = Some i, changed = False, next_event = None\<rparr>, ss', m)
                 else (\<lparr>found = Some i, changed = True, next_event = None\<rparr>, ss', enqueue_setState (state_name s) m)))"
      "list_all (\<lambda>s. handlers s = None) ss'"
      using Cons.IH [OF ss] by blast
    show ?thesis
      using c s False IH
      by (intro exI [of _ "s\<lparr>condition := c'\<rparr> # ss'"] exI [of _ i]) (auto simp: bindo_def with_timer_def split: option.splits)
  qed
qed

lemma no_flags: "list_all (\<lambda>s. handlers s = None) ss \<Longrightarrow> inactive_flags_off env active i ss m = Inr m"
  by (induction ss arbitrary: i) auto

lemma first_valid_simple:
  assumes "list_all (simple_state sc) ss" "scope_of env m = sc"
  shows "\<exists>ss'. first_valid env m ss = Some (Inr (map_option state_name (find (valid sc) ss), ss', m))"
  using assms(1)
proof (induction ss)
  case (Cons s ss)
  then have "simple_state sc s" "list_all (simple_state sc) ss" by simp_all
  then have "decided sc (condition s)" "list_all (simple_state sc) ss" by (auto simp: simple_state_def)
  then show ?case using Cons.IH valid_call [of sc s env m] assms(2) by (fastforce simp: bindo_def)
qed simp

text \<open>The machine when the search begins.\<close>

definition at_search :: "sm \<Rightarrow> sm" where
  "at_search m = updateLastEvaluationTime (m\<lparr>ex := change_machine (\<lambda>x. x\<lparr>needs_check := 0\<rparr>)
     ((ex m)\<lparr>net := deactivate (self (ex m)) (net (ex m))\<rparr>)\<rparr>)"

lemma at_search_frame [simp]:
  "cur (at_search m) = cur m" "property (at_search m) = property m" "stable_states (at_search m) = stable_states m"
  "set_actions (at_search m) = set_actions m" "stack (ex (at_search m)) = stack (ex m)"
  "next_action (ex (at_search m)) = next_action (ex m)" "needs_check (me (at_search m)) = 0"
  "class_kind (me (at_search m)) = class_kind (me m)" "io_state (at_search m) = io_state m" "timers (at_search m) = timers m"
  by (simp_all add: at_search_def updateLastEvaluationTime_def deactivate_def change_machine_def stack_def machine_def)

lemma machine_deactivated: "machine (e\<lparr>net := deactivate i (net e)\<rparr>) = machine e" "stack (e\<lparr>net := deactivate i (net e)\<rparr>) = stack e"
  by (simp_all add: machine_def stack_def deactivate_def)

lemma searching_searches: "searching m \<Longrightarrow> setStableState env m = search_states env (at_search m)"
  using at_search_frame(8,9) [of m]
  by (simp add: searching_def setStableState_def Let_def at_search_def [symmetric] executingCommand_def machine_deactivated
      del: machine_net)

lemma enqueue_setState_frame [simp]:
  "cur (enqueue_setState s m) = cur m" "set_actions (enqueue_setState s m) = set_actions m @ [(next_action (ex m), s)]"
  "stack (ex (enqueue_setState s m)) = next_action (ex m) # stack (ex m)"
  "needs_check (me (enqueue_setState s m)) = needs_check (me m)" "timers (enqueue_setState s m) = timers m"
  by (simp_all add: enqueue_setState_def new_action_def enqueueAction_def add_work_def checkActions_def activate_def work_add_def
      set_stack_def change_machine_def stack_def machine_def put_action_def)


definition example_env :: "scope \<Rightarrow> env" where
  "example_env sc = \<lparr>scope_of = (\<lambda>_. sc), receives = (\<lambda>d msg m. Inr (True, m)), execute_self = (\<lambda>msg m. Inr (Complete, m)),
     execute_other = (\<lambda>d msg. Inr), resume_other = (\<lambda>d. Inr), responsive = (\<lambda>_. True), enter_function = (\<lambda>s. Inr),
     set_flag = (\<lambda>f s. Inr), enqueue_flag = (\<lambda>f s. Inr)\<rparr>"

definition example_state :: "string \<Rightarrow> predicate \<Rightarrow> stable_state" where
  "example_state n p = \<lparr>state_name = n, condition = \<lparr>predicate_of = Some p, last_result = Value_empty\<rparr>, uses_timer = False,
     timer_val = Value_long 0, ss_trigger = None, handlers = None, timer_predicates = []\<rparr>"

definition example_sm :: "stable_state list \<Rightarrow> sm" where
  "example_sm ss = \<lparr>ex = example_exec [] [] [], cur = ''off'', states = [''off'', ''on''], default_state = ''off'', initial_state = ''off'',
     stable_states = ss, expected_authority = 0, is_shadow = False, channel_active = False, io_state = None, item_count = 0,
     local_count = 0, property = (\<lambda>_. Value_empty), state_property = ''off'', published = True, modbus_io = False,
     exports = (\<lambda>_. None), mqtt_output = False, tok = new_tokeniser, now = 5000, poll_delay = 1000, start_time = 0, timers = [],
     flags = (\<lambda>_. None), set_actions = [], calls = []\<rparr>"

lemma example_condition_decided:
  "decided (example_scope (Value_long 3)) \<lparr>predicate_of = Some example_condition, last_result = Value_empty\<rparr>"
  using example_shaped(2,3) example_sound by (simp add: decided_def)


section \<open>Timers\<close>

text \<open>Whether the scheduler finds the trigger of an item enabled.\<close>

definition trigger_enabled :: "sm \<Rightarrow> nat \<Rightarrow> bool" where
  "trigger_enabled m t \<longleftrightarrow> (case trig (ex m) t of None \<Rightarrow> False | Some y \<Rightarrow> is_active y)"

lemma trigger_item_trigger [simp]: "scheduled_item.trigger (trigger_item base d t) = Some t"
  by (simp add: trigger_item_def)

lemma owned_trigger_eq:
  "owned_trigger n e = Inr (next_trigger e, put_trigger (next_trigger e)
     (Some \<lparr>tname = n, seen = False, towner = Machine_Owner, trefs = 1, is_active = True, holders = []\<rparr>)
     (e\<lparr>next_trigger := next_trigger e + 1\<rparr>))"
  by (simp add: owned_trigger_def new_trigger_def setOwner_def change_trigger_def get_trigger_def put_trigger_def)

text \<open>
  Claim C9. The two kinds of timers. The trigger that \<open>setStableState\<close> schedules for the next event of the conditions is
  still enabled when the function returns, so the scheduler fires it. The trigger that \<open>setState\<close> schedules for the
  earliest timer of the stable states is held by a local copy of the stable state, whose destructor disables it: the
  scheduler finds it disabled and the machine is not checked.
\<close>

theorem state_timer_is_disabled:
  assumes "stable_states m ! i = s" "handlers s = None" "0 < v" "v * 1000 \<le> LONG_MAX"
  shows "(\<exists>m' item. schedule_state_timer base (Some i, v) m = Inr m' \<and> timers m' = timers m @ [item]
            \<and> dispatch_item (trigger_enabled m') item = Disabled (next_trigger (ex m)))
    \<and> (\<exists>m' item. schedule_check (Some (d, label)) m = Inr m' \<and> timers m' = timers m @ [item]
            \<and> dispatch_item (trigger_enabled m') item = Fired (next_trigger (ex m)))"
proof -
  have "chk_long (v * 1000) = Inr (v * 1000)" using assms(3,4) by (simp add: chk_long_def in_long_def LONG_MIN_def)
  then show ?thesis using assms(1-3)
    by (simp add: schedule_state_timer_def schedule_check_def StableState_copy_def StableState_destroy_def handler_triggers_def
        owned_trigger_eq trigger_retain_def trigger_release_def trigger_disable_def drop_trigger_def change_trigger_def get_trigger_def
        put_trigger_def dispatch_item_def trigger_enabled_def)
qed

theorem state_timer_is_disabled_witness:
  "(\<exists>m' item. schedule_state_timer 0 (Some 0, 5) (example_sm [example_state ''on'' example_condition]) = Inr m'
      \<and> timers m' = [item] \<and> dispatch_item (trigger_enabled m') item = Disabled 0)"
  using state_timer_is_disabled [of "example_sm [example_state ''on'' example_condition]" 0 "example_state ''on'' example_condition" 5 0]
  by (simp add: example_sm_def example_state_def example_exec_def LONG_MAX_def)

section \<open>Setting a state\<close>

text \<open>An environment whose objects answer without changing the machine.\<close>

definition quiet :: "env \<Rightarrow> bool" where
  "quiet env \<longleftrightarrow> (\<forall>d msg m. mapr snd (receives env d msg m) = Inr m \<and> mapr snd (execute_self env msg m) = Inr m
     \<and> execute_other env d msg m = Inr m \<and> resume_other env d m = Inr m \<and> enter_function env msg m = Inr m)"

lemma quietD:
  assumes "quiet env"
  shows "\<exists>r. receives env d msg m = Inr (r, m)" "\<exists>sta. execute_self env msg m = Inr (sta, m)"
    "execute_other env d msg m = Inr m" "resume_other env d m = Inr m" "enter_function env msg m = Inr m"
  using assms by (auto simp: quiet_def mapr_Inr_iff)

lemma quiet_leaving: "quiet env \<Longrightarrow> tell_leaving env msg ds m = Inr m"
proof (induction ds)
  case (Cons d ds)
  obtain r where "receives env d msg m = Inr (r, m)" using quietD(1) [OF Cons.prems] by blast
  then show ?case using Cons quietD(3,4) [OF Cons.prems] by simp
qed simp

lemma quiet_notify: "quiet env \<Longrightarrow> notifyDependents env msg ds m = Inr m"
proof (induction ds)
  case (Cons d ds)
  obtain r where "receives env d msg m = Inr (r, m)" using quietD(1) [OF Cons.prems] by blast
  then show ?case using Cons quietD(3) [OF Cons.prems] by simp
qed simp

lemma quiet_leave: "quiet env \<Longrightarrow> leave_state env new m = Inr m"
proof -
  assume q: "quiet env"
  obtain r where "receives env (self (ex m)) (cur m @ ''_leave'') m = Inr (r, m)" using quietD(1) [OF q] by blast
  moreover obtain sta where "execute_self env (cur m @ ''_leave'') m = Inr (sta, m)" using quietD(2) [OF q] by blast
  ultimately show ?thesis using quiet_leaving [OF q] by (simp add: leave_state_def)
qed

definition timeless :: "stable_state \<Rightarrow> bool" where
  "timeless s \<longleftrightarrow> \<not> uses_timer s \<and> handlers s = None"

lemma timeless_scan: "list_all timeless ss \<Longrightarrow> scan_states m i ss best e = Inr (ss, best, e)"
  by (induction ss arbitrary: i) (simp_all add: timeless_def scan_state_def scan_handlers_def)

lemma timeless_timers: "list_all timeless (stable_states m) \<Longrightarrow> state_timers m = Inr m"
  by (simp add: state_timers_def timeless_scan schedule_state_timer_def)

text \<open>Every state of the machine that is exported is exported as a state.\<close>

definition exported_states :: "sm \<Rightarrow> bool" where
  "exported_states m \<longleftrightarrow> (\<forall>s. case exports m (mname m @ ''.'' @ s) of None \<Rightarrow> True | Some ma \<Rightarrow> ma_source ma = Src_State)"

definition calls_only :: "sm \<Rightarrow> sm \<Rightarrow> bool" where
  "calls_only m m' \<longleftrightarrow> (\<exists>cs. m' = m\<lparr>calls := calls m @ cs\<rparr>)"

lemma calls_only_refl: "calls_only m m"
  unfolding calls_only_def by (rule exI [of _ "[]"]) simp

lemma calls_only_log: "calls_only m (log_call c m)"
  unfolding calls_only_def log_call_def by (rule exI [of _ "[c]"]) (rule refl)

lemma calls_only_trans: "calls_only m m' \<Longrightarrow> calls_only m' m'' \<Longrightarrow> calls_only m m''"
proof -
  assume a: "calls_only m m'" and b: "calls_only m' m''"
  obtain c where c: "m' = m\<lparr>calls := calls m @ c\<rparr>" using a unfolding calls_only_def by (rule exE)
  obtain d where d: "m'' = m'\<lparr>calls := calls m' @ d\<rparr>" using b unfolding calls_only_def by (rule exE)
  have "m'' = m\<lparr>calls := calls m @ (c @ d)\<rparr>" unfolding d c by simp
  then show ?thesis unfolding calls_only_def by (rule exI [of _ "c @ d"])
qed

lemma modbus_state_ok:
  assumes "exported_states m"
  shows "\<exists>m'. modbus_state s v m = Inr m' \<and> calls_only m m'"
proof (cases "exports m (mname m @ ''.'' @ s)")
  case (Some ma)
  then have "ma_source ma = Src_State" using spec [OF assms [unfolded exported_states_def], of s] by simp
  then have "modbus_state s v m = Inr (log_call (Modbus_Update (mname m @ ''.'' @ s) v) m)" using Some by (simp add: modbus_state_def)
  then show ?thesis using calls_only_log by (intro exI conjI)
qed (simp add: modbus_state_def calls_only_refl)

lemma modbus_machine_calls: "calls_only m (modbus_machine new m)"
  unfolding modbus_machine_def by (simp add: calls_only_refl calls_only_log split: option.splits)

lemma exported_frame [simp]:
  "exported_states (m\<lparr>calls := c\<rparr>) = exported_states m" "exported_states (m\<lparr>state_property := s\<rparr>) = exported_states m"
  "exported_states (m\<lparr>start_time := n, cur := s\<rparr>) = exported_states m" "exported_states (m\<lparr>cur := s\<rparr>) = exported_states m"
  "exported_states (m\<lparr>start_time := n\<rparr>) = exported_states m"
  by (simp_all add: exported_states_def)

lemma calls_only_exported: "calls_only m m' \<Longrightarrow> exported_states m \<Longrightarrow> exported_states m'"
  unfolding calls_only_def by (elim exE) simp

lemma enter_state_ok:
  assumes "quiet env" "exported_states m"
  shows "\<exists>m'. enter_state env new m = Inr m' \<and> calls_only (m\<lparr>start_time := now m, cur := new, state_property := new\<rparr>) m'"
proof -
  define m1 where "m1 = m\<lparr>start_time := now m, cur := new, state_property := new\<rparr>"
  define m2 where "m2 = (if mqtt_output m1 then log_call (Mqtt_Publish new) m1 else m1)"
  have c2: "calls_only m1 m2" by (simp add: m2_def calls_only_refl calls_only_log)
  have "exported_states m1" using assms(2) by (simp add: m1_def)
  with c2 have e2: "exported_states m2" by (rule calls_only_exported)
  from modbus_state_ok [OF this] obtain m3 where m3: "modbus_state (cur m) 0 m2 = Inr m3" "calls_only m2 m3" by blast
  from modbus_state_ok [OF calls_only_exported [OF m3(2) e2]] obtain m4
    where m4: "modbus_state new 1 m3 = Inr m4" "calls_only m3 m4" by blast
  have "calls_only m1 m3" by (rule calls_only_trans [OF c2 m3(2)])
  then have "cur m3 = new" unfolding calls_only_def m1_def by (elim exE) simp
  moreover have "calls_only m1 m4" by (rule calls_only_trans [OF \<open>calls_only m1 m3\<close> m4(2)])
  moreover have "enter_state env new m = (if published m2 then bindr (modbus_state (cur m) 0 m2) (\<lambda>m5. modbus_state (cur m5) 1 m5) else Inr m2)"
    by (simp add: enter_state_def quietD(5) [OF assms(1)] Let_def m2_def m1_def)
  ultimately show ?thesis using c2 m3(1) m4(1) unfolding m1_def [symmetric] by simp
qed



end
