(* ===== verification/Cw_ProcessImage.thy ===== *)
theory Cw_ProcessImage
  imports Cw_Bits Cw_CLib
begin

unbundle bit_operations_syntax

text \<open>
  The process image of the hardware (\<open>src/iod/src/IOComponent.cpp\<close>, \<open>IOComponent.h\<close>): which bits of the
  image belong to which component, taking over the octets that arrive from the fieldbus, reading
  the value of a component, and collecting the values to be sent. A block of memory is a list of
  octets; a pointer to it that may be null is an option. Components are numbered, a deleted one is
  absent from \<open>components\<close>, and a set of components is a list in no particular order. A 32-bit integer is a
  word for both signs. The accesses to 16 and 32 bit fields, macros of the EtherCAT library, are the
  argument \<open>ec\<close>; the virtual method \<open>filter\<close> is the argument \<open>flt\<close>. Offsets are unbounded.
\<close>

section \<open>Data\<close>

type_synonym octets = "8 word list"

record io_address =
  module_position :: int
  io_offset :: nat
  io_bitpos :: nat
  io_value :: "32 word"
  bitlen :: nat
  entry_position :: int
  is_signed :: bool
  description :: string

datatype io_event = e_on | e_off | e_change | e_none

datatype io_direction = DirInput | DirOutput | DirBidirectional

datatype hardware_state = s_hardware_preinit | s_hardware_init | s_operational

datatype io_class = IO_Base | IO_Output | IO_Input | IO_AnalogueInput | IO_Counter | IO_CounterRate
  | IO_AnalogueOutput | IO_PIDController | IO_MQTTPublisher | IO_MQTTSubscriber

text \<open>The constructors leave \<open>pending_value\<close>, \<open>read_time\<close> and, for some classes, \<open>direction_\<close> unset.\<close>

record io_comp =
  io_name :: string
  address :: io_address
  last_event :: io_event
  pending_value :: "32 word option"
  raw_value :: "32 word"
  read_time :: "int option"
  direction :: "io_direction option"
  io_index :: int
  io_kind :: io_class
  owners :: "nat list"

record io =
  components :: "nat \<Rightarrow> io_comp option"
  next_component :: nat
  interfaces :: "nat list"                 \<comment> \<open>the \<open>io_interface\<close> of the machines that have one\<close>
  machine_on :: "nat \<Rightarrow> bool"              \<comment> \<open>which machines are enabled\<close>
  processing_queue :: "nat list"
  io_names :: "(string \<times> io_address) list"
  io_clock :: int
  process_data_size :: nat
  process_data :: "octets option"
  process_mask :: "octets option"
  update_data :: "octets option"
  default_data :: "octets option"
  default_mask :: "octets option"
  last_process_data :: "octets option"
  outputs_waiting :: nat
  max_offset :: nat
  min_offset :: nat
  indexed_components :: "nat option list option"
  io_map :: "nat list option list"
  hw_state :: hardware_state
  regular_polls :: "nat list"
  updated_in :: "nat list"                 \<comment> \<open>\<open>updatedComponentsIn\<close>\<close>
  updated_out :: "nat list"                \<comment> \<open>\<open>updatedComponentsOut\<close>\<close>
  updates_sent :: bool
  activated :: "nat list"                  \<comment> \<open>machines given to \<open>ProcessingThread::activate\<close>\<close>

record ec_access =
  read_u16 :: "octets \<Rightarrow> 16 word"
  write_u16 :: "16 word \<Rightarrow> octets"
  read_u32 :: "octets \<Rightarrow> 32 word"
  write_u32 :: "32 word \<Rightarrow> octets"

definition get_comp :: "nat \<Rightarrow> io \<Rightarrow> io_comp res" where
  "get_comp c w = (case components w c of None \<Rightarrow> Inl UseAfterFree | Some x \<Rightarrow> Inr x)"

definition put_comp :: "nat \<Rightarrow> io_comp \<Rightarrow> io \<Rightarrow> io" where
  "put_comp c x w = w\<lparr>components := (components w)(c \<mapsto> x)\<rparr>"

definition block_of :: "octets option \<Rightarrow> octets res" where
  "block_of b = (case b of None \<Rightarrow> Inl NullPointer | Some x \<Rightarrow> Inr x)"

definition octet :: "octets \<Rightarrow> nat \<Rightarrow> 8 word res" where
  "octet b i = (if i < length b then Inr (b ! i) else Inl OutOfRange)"

definition field :: "octets \<Rightarrow> nat \<Rightarrow> nat \<Rightarrow> octets res" where
  "field b i n = (if i + n \<le> length b then Inr (take n (drop i b)) else Inl OutOfRange)"

definition put_field :: "octets \<Rightarrow> nat \<Rightarrow> octets \<Rightarrow> octets res" where
  "put_field b i x = (if i + length x \<le> length b then Inr (take i b @ x @ drop (i + length x) b) else Inl OutOfRange)"

definition mem_copy :: "octets \<Rightarrow> octets \<Rightarrow> nat \<Rightarrow> octets res" where
  "mem_copy dst src n = bindr (field src 0 n) (put_field dst 0)"

definition mem_clear :: "octets \<Rightarrow> nat \<Rightarrow> octets res" where
  "mem_clear dst n = put_field dst 0 (replicate n 0)"

text \<open>The octet and the bit in it at which a component starts.\<close>

definition first_octet :: "io_address \<Rightarrow> nat" where
  "first_octet a = io_offset a + io_bitpos a div 8"

definition first_bit :: "io_address \<Rightarrow> nat" where
  "first_bit a = io_bitpos a mod 8"

section \<open>Components\<close>

text \<open>The constructors of the classes, which differ in the direction and in the regular polls.\<close>

definition IOComponent_new :: "io_class \<Rightarrow> string \<Rightarrow> io_address \<Rightarrow> io \<Rightarrow> nat \<times> io" where
  "IOComponent_new k n a w =
     (let c = next_component w;
          x = \<lparr>io_name = n, address = a, last_event = e_none, pending_value = None, raw_value = 0, read_time = None,
               direction = (if k \<in> {IO_Output, IO_AnalogueOutput, IO_PIDController} then Some DirOutput
                            else if k \<in> {IO_Input, IO_AnalogueInput} then Some DirInput else None),
               io_index = int (io_offset a * 8 + io_bitpos a), io_kind = k, owners = []\<rparr>
      in (c, (put_comp c x w)\<lparr>next_component := Suc c, processing_queue := processing_queue w @ [c],
                regular_polls := (if k \<in> {IO_AnalogueInput, IO_Counter} then List.insert c (regular_polls w) else regular_polls w)\<rparr>))"

definition IOComponent_delete :: "nat \<Rightarrow> io \<Rightarrow> io" where
  "IOComponent_delete c w = w\<lparr>components := (components w)(c := None), processing_queue := removeAll c (processing_queue w)\<rparr>"

text \<open>\<open>reset\<close> deletes the components of the machines but keeps the sets of updated components.\<close>

definition reset_io :: "io \<Rightarrow> io" where
  "reset_io w = (fold IOComponent_delete (interfaces w) (w\<lparr>processing_queue := [], regular_polls := []\<rparr>))\<lparr>interfaces := [],
     process_data := None, process_mask := None, update_data := None, default_data := None, default_mask := None,
     last_process_data := None\<rparr>"

definition add_io_entry :: "string \<Rightarrow> int \<Rightarrow> nat \<Rightarrow> nat \<Rightarrow> int \<Rightarrow> nat \<Rightarrow> bool \<Rightarrow> io \<Rightarrow> io_address \<times> io" where
  "add_io_entry name module_pos offset bit_offset entry_pos bit_len signed_value w =
     (let addr = \<lparr>module_position = module_pos, io_offset = offset, io_bitpos = bit_offset, io_value = 0, bitlen = bit_len,
                  entry_position = entry_pos, is_signed = signed_value, description = name\<rparr>;
          buf = snprintf_buf 80 (''io:'' @ name @ ''_'' @ show_int (to_int32 module_pos))
      in (addr, w\<lparr>io_names := amap_put buf addr (io_names w)\<rparr>))"

definition remove_io_module :: "int \<Rightarrow> io \<Rightarrow> io" where
  "remove_io_module pos w = w\<lparr>io_names := []\<rparr>"

definition ownersEnabled :: "io_comp \<Rightarrow> io \<Rightarrow> bool" where
  "ownersEnabled x w \<longleftrightarrow> owners x = [] \<or> list_ex (machine_on w) (owners x)"

definition getStateString :: "io_comp \<Rightarrow> string" where
  "getStateString x =
     (if last_event x = e_change \<and> 1 < bitlen (address x) then ''unstable''
      else if 1 < bitlen (address x) then ''stable''
      else if last_event x = e_on then ''turning_on''
      else if last_event x = e_off then ''turning_off''
      else if io_value (address x) = 0 then ''off'' else ''on'')"

definition isOn :: "io_comp \<Rightarrow> bool" where
  "isOn x \<longleftrightarrow> last_event x = e_none \<and> io_value (address x) \<noteq> 0"

definition isOff :: "io_comp \<Rightarrow> bool" where
  "isOff x \<longleftrightarrow> last_event x = e_none \<and> io_value (address x) = 0"

definition value_of :: "io_comp \<Rightarrow> 32 word" where
  "value_of x = (if bitlen (address x) = 1 then if isOn x then 1 else 0 else io_value (address x))"

section \<open>Masks and the map of the image\<close>

fun mask_bits :: "nat \<Rightarrow> nat \<Rightarrow> 8 word \<Rightarrow> octets \<Rightarrow> octets res" where
  "mask_bits 0 off m b = Inr b"
| "mask_bits (Suc n) off m b = bindr (octet b off) (\<lambda>x.
     let b' = b[off := x OR m]; m' = push_bit 1 m
     in if m' = 0 then mask_bits n (Suc off) 1 b' else mask_bits n off m' b')"

definition add_to_mask :: "io_address \<Rightarrow> octets \<Rightarrow> octets res" where
  "add_to_mask a b = mask_bits (bitlen a) (first_octet a) (push_bit (first_bit a) 1) b"

fun add_masks :: "nat list \<Rightarrow> io \<Rightarrow> octets \<Rightarrow> octets res" where
  "add_masks [] w b = Inr b"
| "add_masks (c # cs) w b = bindr (get_comp c w) (\<lambda>x. bindr (add_to_mask (address x) b) (add_masks cs w))"

definition generateProcessMask :: "octets option \<Rightarrow> nat \<Rightarrow> io \<Rightarrow> octets res" where
  "generateProcessMask old len w =
     (let n = max_offset w + 1;
          b = (case old of None \<Rightarrow> replicate n 0 | Some o' \<Rightarrow> if len \<noteq> n then replicate n 0 else o')
      in bindr (mem_clear b n) (add_masks (processing_queue w) w))"

definition generateMask :: "nat list \<Rightarrow> io \<Rightarrow> octets res" where
  "generateMask outputs w = add_masks outputs w (replicate (max_offset w + 1) 0)"

definition setDefaultData :: "octets \<Rightarrow> io \<Rightarrow> io res" where
  "setDefaultData d w = mapr (\<lambda>b. w\<lparr>default_data := Some b\<rparr>)
     (mem_copy (case default_data w of None \<Rightarrow> replicate (process_data_size w) 0 | Some b \<Rightarrow> b) d (process_data_size w))"

definition setDefaultMask :: "octets \<Rightarrow> io \<Rightarrow> io res" where
  "setDefaultMask d w = mapr (\<lambda>b. w\<lparr>default_mask := Some b\<rparr>)
     (mem_copy (case default_mask w of None \<Rightarrow> replicate (process_data_size w) 0 | Some b \<Rightarrow> b) d (process_data_size w))"

definition last_octet :: "io_address \<Rightarrow> nat" where
  "last_octet a = (if 8 \<le> bitlen a then first_octet a + (bitlen a div 8 - 1) else first_octet a)"

fun offsets :: "nat list \<Rightarrow> io \<Rightarrow> nat \<Rightarrow> nat \<Rightarrow> (nat \<times> nat) res" where
  "offsets [] w lo hi = Inr (lo, hi)"
| "offsets (c # cs) w lo hi = bindr (get_comp c w) (\<lambda>x.
     let lo' = min lo (first_octet (address x)); hi' = max hi (last_octet (address x))
     in bindr (guardr AssertFailed (hi' < 10000)) (\<lambda>_. offsets cs w lo' hi'))"

text \<open>The index is computed from the octet and the whole bit position, not its remainder.\<close>

fun index_bits :: "nat \<Rightarrow> nat \<Rightarrow> nat \<Rightarrow> nat option list \<Rightarrow> nat option list res" where
  "index_bits c i 0 ix = Inr ix"
| "index_bits c i (Suc n) ix = (if i < length ix then index_bits c (Suc i) n (ix[i := Some c]) else Inl OutOfRange)"

definition map_component :: "nat \<Rightarrow> nat \<Rightarrow> nat list option list \<Rightarrow> nat list option list res" where
  "map_component c i mp = (if i < length mp
     then Inr (mp[i := Some ((case mp ! i of None \<Rightarrow> [] | Some cs \<Rightarrow> cs) @ [c])]) else Inl OutOfRange)"

fun index_all :: "nat list \<Rightarrow> io \<Rightarrow> nat option list \<times> nat list option list \<Rightarrow> (nat option list \<times> nat list option list) res" where
  "index_all [] w (ix, mp) = Inr (ix, mp)"
| "index_all (c # cs) w (ix, mp) = bindr (get_comp c w) (\<lambda>x.
     let a = address x
     in if io_name x = [] then index_all cs w (ix, mp)
        else bindr (index_bits c (first_octet a * 8 + io_bitpos a) (bitlen a) ix) (\<lambda>ix'.
             bindr (map_component c (first_octet a) mp) (\<lambda>mp'. index_all cs w (ix', mp'))))"

definition setupIOMap :: "io \<Rightarrow> io res" where
  "setupIOMap w =
     bindr (offsets (processing_queue w) w 1000000 0) (\<lambda>(lo, hi).
     let n = hi + 1;
         w1 = w\<lparr>max_offset := hi, min_offset := min lo hi, process_data_size := n, process_data := Some (replicate n 0)\<rparr>
     in bindr (index_all (processing_queue w1) w1 (replicate (n * 8) None, replicate n None)) (\<lambda>(ix, mp).
        let w2 = w1\<lparr>indexed_components := Some ix, io_map := mp\<rparr>
        in mapr (\<lambda>b. w2\<lparr>process_mask := Some b\<rparr>) (generateProcessMask (process_mask w2) n w2)))"

section \<open>Data from the hardware\<close>

definition notifyComponentsAt :: "nat \<Rightarrow> io \<Rightarrow> nat list \<Rightarrow> nat list res" where
  "notifyComponentsAt i w upd =
     bindr (guardr AssertFailed (i \<le> max_offset w \<and> min_offset w \<le> i)) (\<lambda>_.
     bindr (guardr OutOfRange (i < length (io_map w))) (\<lambda>_.
     Inr (fold List.insert (case io_map w ! i of None \<Rightarrow> [] | Some cs \<Rightarrow> cs) upd)))"

definition component_at :: "io \<Rightarrow> nat \<Rightarrow> nat option res" where
  "component_at w i = (case indexed_components w of
     None \<Rightarrow> Inl NullPointer | Some ix \<Rightarrow> if i < length ix then Inr (ix ! i) else Inl OutOfRange)"

text \<open>
  The loop over the bits of an octet. A component is looked at once per run of its bits: it is
  remembered in \<open>just_added\<close> whether or not the bit that led to it has changed.
\<close>

fun scan_bits :: "io \<Rightarrow> nat \<Rightarrow> nat \<Rightarrow> nat \<Rightarrow> 8 word \<Rightarrow> 8 word \<Rightarrow> 8 word \<Rightarrow> 8 word \<Rightarrow> nat option \<Rightarrow> nat list
    \<Rightarrow> (8 word \<times> nat option \<times> nat list) res" where
  "scan_bits w i j 0 bitmask p m q just_added upd = Inr (q, just_added, upd)"
| "scan_bits w i j (Suc n) bitmask p m q just_added upd =
     (if m AND bitmask = 0 then scan_bits w i (Suc j) n (push_bit 1 bitmask) p m q just_added upd
      else bindr (component_at w (i * 8 + j)) (\<lambda>ioc.
        let differs = (p AND bitmask \<noteq> q AND bitmask);
            q' = (if differs then if p AND bitmask \<noteq> 0 then q OR bitmask else q AND (0xff - bitmask) else q)
        in case ioc of
             None \<Rightarrow> scan_bits w i (Suc j) n (push_bit 1 bitmask) p m q' just_added upd
           | Some c \<Rightarrow>
               if Some c = just_added then scan_bits w i (Suc j) n (push_bit 1 bitmask) p m q' just_added upd
               else scan_bits w i (Suc j) n (push_bit 1 bitmask) p m q' (Some c) (if differs then List.insert c upd else upd)))"

fun scan_octets :: "io \<Rightarrow> nat \<Rightarrow> nat \<Rightarrow> octets \<Rightarrow> octets \<Rightarrow> octets \<Rightarrow> nat option \<Rightarrow> nat list \<Rightarrow> (octets \<times> nat list) res" where
  "scan_octets w i 0 ps ms qs just_added upd = Inr (qs, upd)"
| "scan_octets w i (Suc n) (p # ps) (m # ms) (q # qs) just_added upd =
     bindr (if last_process_data w = None \<and> m \<noteq> 0 then notifyComponentsAt i w upd else Inr upd) (\<lambda>upd1.
     bindr (if p \<noteq> q \<and> m \<noteq> 0 then scan_bits w i 0 8 1 p m q just_added upd1 else Inr (q, just_added, upd1)) (\<lambda>(q', ja, upd2).
     mapr (\<lambda>(qs', upd3). (q' # qs', upd3)) (scan_octets w (Suc i) n ps ms qs ja upd2)))"
| "scan_octets w i (Suc n) _ _ _ just_added upd = Inl OutOfRange"

fun resolve_in :: "nat list \<Rightarrow> io \<Rightarrow> nat list \<Rightarrow> (io \<times> nat list) res" where
  "resolve_in [] w updated = Inr (w, updated)"
| "resolve_in (c # cs) w updated = bindr (get_comp c w) (\<lambda>x.
     let w1 = (put_comp c (x\<lparr>read_time := Some (io_clock w)\<rparr>) w)\<lparr>updated_in := removeAll c (updated_in w)\<rparr>;
         w2 = (if updates_sent w1 then w1\<lparr>updated_out := removeAll c (updated_out w1)\<rparr> else w1)
     in resolve_in cs w2 (List.insert c updated))"

fun resolve_out :: "nat list \<Rightarrow> io \<Rightarrow> io res" where
  "resolve_out [] w = Inr w"
| "resolve_out (c # cs) w = bindr (get_comp c w) (\<lambda>x. bindr (read_field (pending_value x)) (\<lambda>v.
     resolve_out cs (if v = io_value (address x) then w\<lparr>updated_out := removeAll c (updated_out w)\<rparr> else w)))"

definition save_last :: "io \<Rightarrow> io res" where
  "save_last w = (if hw_state w = s_operational
     then bindr (block_of (process_data w)) (\<lambda>pd.
          mapr (\<lambda>b. w\<lparr>last_process_data := Some b\<rparr>)
            (mem_copy (case last_process_data w of None \<Rightarrow> replicate (process_data_size w) 0 | Some b \<Rightarrow> b) pd (process_data_size w)))
     else Inr w)"

definition processAll :: "int \<Rightarrow> nat \<Rightarrow> octets \<Rightarrow> octets \<Rightarrow> nat list \<Rightarrow> io \<Rightarrow> (nat list \<times> io) res" where
  "processAll clk data_size msk dat updated w =
     (let w0 = w\<lparr>io_clock := clk\<rparr>; n = process_data_size w
      in bindr (guardr AssertFailed (data_size = n)) (\<lambda>_.
         bindr (block_of (process_data w0)) (\<lambda>pd.
         if hw_state w0 = s_hardware_preinit then mapr (\<lambda>b. (updated, w0\<lparr>process_data := Some b\<rparr>)) (mem_copy pd dat n)
         else bindr (scan_octets w0 0 n dat msk pd None (updated_in w0)) (\<lambda>(pd', upd).
              bindr (save_last (w0\<lparr>process_data := Some pd', updated_in := upd\<rparr>)) (\<lambda>w1.
              if updated_in w1 = [] then Inr (updated, w1)
              else bindr (resolve_in (updated_in w1) w1 updated) (\<lambda>(w2, updated').
                   bindr (if updates_sent w2 then resolve_out (updated_out w2) w2 else Inr w2) (\<lambda>w3.
                   Inr (updated', w3\<lparr>outputs_waiting := length (updated_out w3)\<rparr>))))))))"

section \<open>The value of a component\<close>

fun small_bits :: "nat \<Rightarrow> octets \<Rightarrow> nat \<Rightarrow> 8 word \<Rightarrow> 32 word \<Rightarrow> (32 word \<times> 8 word) res" where
  "small_bits 0 b off bitmask val = Inr (val, bitmask)"
| "small_bits (Suc n) b off bitmask val = bindr (octet b off) (\<lambda>x.
     let val' = val + ucast (x AND bitmask); bitmask' = drop_bit 1 bitmask
     in if bitmask' = 0 then small_bits n b (Suc off) 0x80 val' else small_bits n b off bitmask' val')"

text \<open>The loop \<open>while (bitmask)\<close>: an octet is zero after eight shifts.\<close>

fun shift_down :: "nat \<Rightarrow> 8 word \<Rightarrow> 32 word \<Rightarrow> 32 word" where
  "shift_down 0 bitmask val = val"
| "shift_down (Suc n) bitmask val = (if bitmask = 0 then val else shift_down n (drop_bit 1 bitmask) (drop_bit 1 val))"

definition read_value :: "ec_access \<Rightarrow> io_address \<Rightarrow> octets \<Rightarrow> 32 word res" where
  "read_value ec a b =
     (if bitlen a < 8 then mapr (\<lambda>(val, bitmask). shift_down 8 bitmask val)
                             (small_bits (bitlen a) b (first_octet a) (drop_bit (first_bit a) 0x8) 0)
      else if bitlen a = 8 then mapr scast (octet b (first_octet a))
      else if bitlen a = 16 then mapr (\<lambda>x. ucast (read_u16 ec x)) (field b (first_octet a) 2)
      else if bitlen a = 32 then mapr (read_u32 ec) (field b (first_octet a) 4)
      else Inr 0)"

definition owner_messages :: "nat \<Rightarrow> string \<Rightarrow> io_comp \<Rightarrow> (nat \<times> nat \<times> string) list" where
  "owner_messages c evt x = map (\<lambda>m. (c, m, evt)) (owners x)"

definition change_bit :: "nat \<Rightarrow> io_comp \<Rightarrow> 32 word \<Rightarrow> (nat \<times> nat \<times> string) list \<Rightarrow> io \<Rightarrow> (nat \<times> nat \<times> string) list \<times> io" where
  "change_bit c x v q w =
     (let old = io_value (address x); x' = x\<lparr>address := (address x)\<lparr>io_value := v\<rparr>\<rparr>
      in if old = v then (q, put_comp c x' w)
         else (q @ owner_messages c (if old \<noteq> 0 then ''on_leave'' else ''off_leave'') x
                 @ owner_messages c (if v \<noteq> 0 then ''on_enter'' else ''off_enter'') x,
               (put_comp c x' w)\<lparr>activated := activated w @ owners x\<rparr>))"

definition handleChange :: "ec_access \<Rightarrow> (nat \<Rightarrow> 32 word \<Rightarrow> io \<Rightarrow> (32 word \<times> io) res) \<Rightarrow> nat \<Rightarrow> (nat \<times> nat \<times> string) list \<Rightarrow> io
    \<Rightarrow> ((nat \<times> nat \<times> string) list \<times> io) res" where
  "handleChange ec flt c q w =
     bindr (guardr AssertFailed (process_data w \<noteq> None)) (\<lambda>_.
     bindr (get_comp c w) (\<lambda>x.
     let a = address x; b = the (process_data w)
     in if bitlen a = 1
        then bindr (octet b (first_octet a)) (\<lambda>o'. Inr (change_bit c x (if bit o' (first_bit a) then 1 else 0) q w))
        else bindr (read_value ec a b) (\<lambda>v.
             if c \<in> set (regular_polls w)
             then Inr (q, put_comp c (x\<lparr>raw_value := v, address := a\<lparr>io_value := v\<rparr>\<rparr>) w)
             else if hw_state w = s_hardware_init \<or> hw_state w = s_operational \<and> raw_value x \<noteq> v
             then bindr (flt c v (put_comp c (x\<lparr>raw_value := v\<rparr>) w)) (\<lambda>(v', w1).
                  if hw_state w1 = s_operational
                  then bindr (get_comp c w1) (\<lambda>x1. Inr (q, put_comp c (x1\<lparr>address := (address x1)\<lparr>io_value := v'\<rparr>\<rparr>) w1))
                  else Inr (q, w1))
             else Inr (q, w))))"

section \<open>Data to the hardware\<close>

definition getUpdateData :: "io \<Rightarrow> (octets \<times> io) res" where
  "getUpdateData w = (case process_data w of
     None \<Rightarrow> Inl AssertFailed
   | Some pd \<Rightarrow> (case update_data w of
       Some u \<Rightarrow> Inr (u, w)
     | None \<Rightarrow> bindr (mem_copy (replicate (process_data_size w) 0) pd (process_data_size w)) (\<lambda>u. Inr (u, w\<lparr>update_data := Some u\<rparr>))))"

definition write_value :: "ec_access \<Rightarrow> io_address \<Rightarrow> 32 word \<Rightarrow> octets \<Rightarrow> octets res" where
  "write_value ec a v b =
     (if bitlen a = 8 then put_field b (first_octet a) [ucast v]
      else if bitlen a = 16 then put_field b (first_octet a) (write_u16 ec (ucast v))
      else if bitlen a = 32 then put_field b (first_octet a) (write_u32 ec v)
      else Inr b)"

definition markChange :: "ec_access \<Rightarrow> nat \<Rightarrow> io \<Rightarrow> io res" where
  "markChange ec c w =
     bindr (getUpdateData w) (\<lambda>(u, w1).
     bindr (get_comp c w1) (\<lambda>x.
     let a = address x; i = first_octet a
     in if bitlen a = 1
        then bindr (octet u i) (\<lambda>o'.
             let on = bit o' (first_bit a); w2 = put_comp c (x\<lparr>last_event := e_none\<rparr>) w1
             in Inr (if \<not> on \<and> last_event x = e_on
                     then w2\<lparr>update_data := Some (u[i := set_bit_byte o' (first_bit a) True]), updates_sent := False\<rparr>
                     else if on \<and> last_event x = e_off
                     then w2\<lparr>update_data := Some (u[i := set_bit_byte o' (first_bit a) False]), updates_sent := False\<rparr>
                     else w2))
        else if last_event x = e_change
        then bindr (read_field (pending_value x)) (\<lambda>v. bindr (write_value ec a v u) (\<lambda>u'.
             Inr ((put_comp c (x\<lparr>last_event := e_none\<rparr>) w1)\<lparr>update_data := Some u', updates_sent := False\<rparr>)))
        else Inr w1))"

definition request_output :: "ec_access \<Rightarrow> (io_comp \<Rightarrow> io_comp) \<Rightarrow> nat \<Rightarrow> io \<Rightarrow> io res" where
  "request_output ec f c w = bindr (get_comp c w) (\<lambda>x.
     markChange ec c ((put_comp c (f x) w)\<lparr>updated_out := List.insert c (updated_out w), updates_sent := False,
       outputs_waiting := outputs_waiting w + 1\<rparr>))"

definition has_switch :: "io_class \<Rightarrow> bool" where
  "has_switch k \<longleftrightarrow> k \<in> {IO_Output, IO_AnalogueOutput, IO_PIDController}"

definition turnOn :: "ec_access \<Rightarrow> nat \<Rightarrow> io \<Rightarrow> io res" where
  "turnOn ec c w = bindr (get_comp c w) (\<lambda>x.
     if has_switch (io_kind x) then request_output ec (\<lambda>x. x\<lparr>last_event := e_on\<rparr>) c w else Inr w)"

definition turnOff :: "ec_access \<Rightarrow> nat \<Rightarrow> io \<Rightarrow> io res" where
  "turnOff ec c w = bindr (get_comp c w) (\<lambda>x.
     if has_switch (io_kind x) then request_output ec (\<lambda>x. x\<lparr>last_event := e_off\<rparr>) c w else Inr w)"

definition setValue_io :: "ec_access \<Rightarrow> bool \<Rightarrow> 32 word \<Rightarrow> nat \<Rightarrow> io \<Rightarrow> io res" where
  "setValue_io ec signed_value v c w = bindr (get_comp c w) (\<lambda>x.
     bindr (guardr AssertFailed (is_signed (address x) = signed_value)) (\<lambda>_.
     request_output ec (\<lambda>x. x\<lparr>pending_value := Some v, last_event := e_change\<rparr>) c w))"

text \<open>A component whose owners are disabled leaves the set, but its bits still enter the mask.\<close>

fun update_masks :: "nat list \<Rightarrow> io \<Rightarrow> octets \<Rightarrow> (octets \<times> io) res" where
  "update_masks [] w b = Inr (b, w)"
| "update_masks (c # cs) w b = bindr (get_comp c w) (\<lambda>x.
     let w1 = (if ownersEnabled x w then w else w\<lparr>updated_out := removeAll c (updated_out w)\<rparr>)
     in bindr (read_field (direction x)) (\<lambda>d.
        if d = DirInput then update_masks cs w1 b
        else bindr (add_to_mask (address x) b) (update_masks cs w1)))"

definition generateUpdateMask :: "io \<Rightarrow> (octets option \<times> io) res" where
  "generateUpdateMask w = (if updated_out w = [] then Inr (None, w)
     else mapr (\<lambda>(b, w'). (Some b, w')) (update_masks (updated_out w) w (replicate (max_offset w + 1) 0)))"

record io_update =
  upd_size :: nat
  upd_data :: octets
  upd_mask :: octets

definition getUpdates :: "io \<Rightarrow> (io_update option \<times> io) res" where
  "getUpdates w = bindr (generateUpdateMask w) (\<lambda>(msk, w1). case msk of
     None \<Rightarrow> Inr (None, w1)
   | Some b \<Rightarrow> mapr (\<lambda>(u, w2). (Some \<lparr>upd_size = max_offset w1 - min_offset w1 + 1, upd_data = u, upd_mask = b\<rparr>, w2)) (getUpdateData w1))"

definition getDefaults :: "io \<Rightarrow> (io_update option \<times> io) res" where
  "getDefaults w =
     (if max_offset w < min_offset w then Inr (None, w)
      else case (process_data w, default_data w, default_mask w) of
             (Some pd, Some dd, Some dm) \<Rightarrow> bindr (guardr AssertFailed (process_data_size w \<noteq> 0)) (\<lambda>_.
               mapr (\<lambda>pd'. (Some \<lparr>upd_size = max_offset w - min_offset w + 1, upd_data = pd', upd_mask = dm\<rparr>, w\<lparr>process_data := Some pd'\<rparr>))
                 (copyMaskedBits pd dd dm (process_data_size w)))
           | _ \<Rightarrow> Inl AssertFailed)"

text \<open>What the processing thread sends: as many octets of the data and of the mask as the update says.\<close>

definition send_update :: "io_update \<Rightarrow> io \<Rightarrow> ((nat \<times> octets \<times> octets) \<times> io) res" where
  "send_update u w = bindr (field (upd_data u) 0 (upd_size u)) (\<lambda>d. bindr (field (upd_mask u) 0 (upd_size u)) (\<lambda>m.
     Inr ((upd_size u, d, m), w\<lparr>updates_sent := True\<rparr>)))"

section \<open>The fieldbus\<close>

text \<open>
  \<open>src/iod/src/ECInterface.cpp\<close>: the octets of the domain that the EtherCAT library exchanges with the
  devices are an argument.
\<close>

record ec_interface =
  min_io_index :: nat
  max_io_index :: nat
  last_domain :: "octets option"       \<comment> \<open>\<open>process_data\<close>\<close>
  app_process_mask :: "octets option"
  ec_update_data :: "octets option"
  ec_update_mask :: "octets option"

fun update_bits :: "nat \<Rightarrow> 8 word \<Rightarrow> 8 word \<Rightarrow> 8 word \<Rightarrow> 8 word \<Rightarrow> 8 word" where
  "update_bits 0 bitmask d m pd = pd"
| "update_bits (Suc n) bitmask d m pd =
     update_bits n (push_bit 1 bitmask) d m
       (if m AND bitmask \<noteq> 0 \<and> pd AND bitmask \<noteq> d AND bitmask
        then if d AND bitmask \<noteq> 0 then pd OR bitmask else pd AND (0xff - bitmask)
        else pd)"

fun updateDomain :: "nat \<Rightarrow> octets \<Rightarrow> octets \<Rightarrow> octets \<Rightarrow> octets res" where
  "updateDomain 0 dat msk pd = Inr pd"
| "updateDomain (Suc n) (d # ds) (m # ms) (p # ps) =
     mapr (Cons (if m \<noteq> 0 \<and> d \<noteq> p then update_bits 8 1 d m p else p)) (updateDomain n ds ms ps)"
| "updateDomain (Suc n) _ _ _ = Inl OutOfRange"

fun collect_bits :: "nat \<Rightarrow> 8 word \<Rightarrow> 8 word \<Rightarrow> 8 word \<Rightarrow> 8 word \<Rightarrow> 8 word \<Rightarrow> nat \<Rightarrow> 8 word \<times> nat" where
  "collect_bits 0 bitmask pd lst pm um cnt = (um, cnt)"
| "collect_bits (Suc n) bitmask pd lst pm um cnt =
     (if pm AND bitmask \<noteq> 0 \<and> pd AND bitmask \<noteq> lst AND bitmask
      then collect_bits n (push_bit 1 bitmask) pd lst pm (um OR bitmask) (cnt + 1)
      else collect_bits n (push_bit 1 bitmask) pd lst pm um cnt)"

text \<open>The mask of changed bits; the update data are overwritten by the whole domain at the end.\<close>

fun collect_octets :: "nat \<Rightarrow> octets \<Rightarrow> octets option \<Rightarrow> octets \<Rightarrow> (octets \<times> nat) res" where
  "collect_octets 0 ds ls pms = Inr ([], 0)"
| "collect_octets (Suc n) (d # ds) None (pm # pms) =
     mapr (\<lambda>(ms, k). (pm # ms, k + 1)) (collect_octets n ds None pms)"
| "collect_octets (Suc n) (d # ds) (Some (l # ls)) (pm # pms) =
     (let (um, cnt) = (if l \<noteq> d then collect_bits 8 1 d l pm 0 0 else (0, 0))
      in mapr (\<lambda>(ms, k). (um # ms, k + cnt)) (collect_octets n ds (Some ls) pms))"
| "collect_octets (Suc n) _ _ _ = Inl OutOfRange"

definition fresh_block :: "octets option \<Rightarrow> nat \<Rightarrow> octets res" where
  "fresh_block b n = (case b of None \<Rightarrow> Inr (replicate n 0) | Some x \<Rightarrow> mem_clear x n)"

definition collectState :: "bool \<Rightarrow> octets option \<Rightarrow> nat \<Rightarrow> ec_interface \<Rightarrow> (nat \<times> ec_interface) res" where
  "collectState ready domain n e =
     (if \<not> ready \<or> n < max_io_index e + 1 - min_io_index e then Inr (0, e)
      else case domain of
        None \<Rightarrow> bindr (guardr AssertFailed (last_domain e = None)) (\<lambda>_. Inr (0, e))
      | Some pd \<Rightarrow>
          bindr (fresh_block (ec_update_data e) n) (\<lambda>ud. bindr (fresh_block (ec_update_mask e) n) (\<lambda>um.
          bindr (guardr AssertFailed (app_process_mask e \<noteq> None \<and> min_io_index e = 0)) (\<lambda>_.
          bindr (collect_octets n pd (last_domain e) (the (app_process_mask e))) (\<lambda>(ms, cnt).
          bindr (put_field um 0 ms) (\<lambda>um'. bindr (mem_copy ud pd n) (\<lambda>ud'. bindr (field pd 0 n) (\<lambda>pd'.
          Inr (cnt, e\<lparr>last_domain := Some pd', ec_update_data := Some ud', ec_update_mask := Some um'\<rparr>)))))))))"

definition setAppProcessMask :: "octets \<Rightarrow> nat \<Rightarrow> ec_interface \<Rightarrow> ec_interface res" where
  "setAppProcessMask msk n e = mapr (\<lambda>b. e\<lparr>app_process_mask := Some b\<rparr>) (field msk 0 n)"

definition setMinIOIndex :: "nat \<Rightarrow> ec_interface \<Rightarrow> ec_interface res" where
  "setMinIOIndex v e = bindr (guardr AssertFailed (min_io_index e = 0)) (\<lambda>_. Inr (e\<lparr>min_io_index := v\<rparr>))"

definition getProcessDataSize :: "ec_interface \<Rightarrow> nat" where
  "getProcessDataSize e = max_io_index e + 1 - min_io_index e"

text \<open>\<open>EtherCATThread::sendMultiPart\<close>: the size, the data and the mask that the processing thread receives.\<close>

definition send_domain :: "nat \<Rightarrow> nat \<Rightarrow> ec_interface \<Rightarrow> ((nat \<times> octets \<times> octets) \<times> ec_interface) res" where
  "send_domain lo hi e = bindr (setMinIOIndex lo e) (\<lambda>e1.
     let e2 = e1\<lparr>max_io_index := hi\<rparr>; n = getProcessDataSize e2
     in bindr (block_of (ec_update_data e2)) (\<lambda>ud. bindr (block_of (ec_update_mask e2)) (\<lambda>um.
        bindr (field ud 0 n) (\<lambda>d. bindr (field um 0 n) (\<lambda>m. Inr ((n, d, m), e2))))))"

text \<open>\<open>ProcessingThread::HandleIncomingEtherCatData\<close>, without the regular polls.\<close>

definition HandleIncomingEtherCatData :: "bool \<Rightarrow> int \<Rightarrow> nat \<Rightarrow> octets \<Rightarrow> octets \<Rightarrow> nat list \<Rightarrow> io \<Rightarrow> (nat list \<times> io) res" where
  "HandleIncomingEtherCatData ready clk n msk dat work w = bindr (field msk 0 n) (\<lambda>ms.
     if ready \<and> list_ex (\<lambda>m. m \<noteq> 0) ms then processAll clk n msk dat work w else Inr (work, w))"

text \<open>
  The default data of the EtherCAT thread (\<open>src/iod/src/ecat_thread.cpp\<close>). The blocks that
  are there are deleted but their pointers are kept, so that the second call writes to deleted
  memory; the mask is filled from the data.
\<close>

definition setDefaultData_ec :: "nat \<Rightarrow> octets \<Rightarrow> octets \<Rightarrow> (octets \<times> octets) option \<Rightarrow> (octets \<times> octets) res" where
  "setDefaultData_ec n dat msk old = (case old of
     None \<Rightarrow> bindr (field dat 0 n) (\<lambda>d. Inr (d, d))
   | Some _ \<Rightarrow> Inl UseAfterFree)"

end
