(* ===== verification/Cw_ImageFacts.thy ===== *)
theory Cw_ImageFacts
  imports Cw_ProcessImage
begin

unbundle bit_operations_syntax

text \<open>
  What the process image guarantees: the image follows the fieldbus under the mask, changed
  components are reported, and the map of the image assigns every bit to its component.
\<close>

section \<open>Bits of blocks\<close>

lemma and_push_eq: "k < 8 \<Longrightarrow> (p AND push_bit k 1 = q AND push_bit k 1) = (bit p k = bit q k)" for p q :: "8 word"
proof
  assume "p AND push_bit k 1 = q AND push_bit k 1"
  then have "bit (p AND push_bit k 1) k = bit (q AND push_bit k 1) k" by simp
  then show "bit p k = bit q k" if "k < 8" using that by (auto simp: bit_simps)
next
  assume "bit p k = bit q k"
  then show "p AND push_bit k 1 = q AND push_bit k 1" by (intro bit_word_eqI) (auto simp: bit_simps)
qed

lemma and_push_zero: "k < 8 \<Longrightarrow> (p AND push_bit k 1 = 0) = (\<not> bit p k)" for p :: "8 word"
  using bit_iff_and_push_bit_not_eq_0 [of p k] by simp

lemma bit_change_step:
  "k < 8 \<Longrightarrow> bit (if p AND push_bit k 1 \<noteq> q AND push_bit k 1
     then if p AND push_bit k 1 \<noteq> 0 then q OR push_bit k 1 else q AND (0xff - push_bit k 1) else q) n =
     (if n = k then bit p k else bit q n)" for p q :: "8 word"
proof -
  assume k: "k < 8"
  show ?thesis unfolding and_push_eq [OF k] and_push_zero [OF k] ff_minus
    using k by (auto simp: bit_simps dest: bit_imp_le_length)
qed

lemma push_push: "push_bit 1 (push_bit k 1) = (push_bit (Suc k) 1 :: 8 word)"
  by (simp add: push_bit_push_bit)

definition masked :: "8 word \<Rightarrow> 8 word \<Rightarrow> 8 word \<Rightarrow> 8 word" where
  "masked q p m = (p AND m) OR (q AND NOT m)"

lemma bit_masked: "k < 8 \<Longrightarrow> bit (masked q p m) k = (if bit m k then bit p k else bit q k)"
  by (auto simp: masked_def bit_simps)

lemma maskedI: "(\<And>k. k < 8 \<Longrightarrow> bit x k = (if bit m k then bit p k else bit q k)) \<Longrightarrow> x = masked q p m"
  by (intro bit_word_eqI) (simp add: bit_masked)

lemma masked_same: "masked q q m = q" "masked q p 0 = q"
  by (rule maskedI [symmetric], simp)+

definition masked_all :: "octets \<Rightarrow> octets \<Rightarrow> octets \<Rightarrow> octets" where
  "masked_all qs ps ms = map (\<lambda>(q, p, m). masked q p m) (zip qs (zip ps ms))"

section \<open>Data from the hardware\<close>

text \<open>A map that covers the image and names only components that exist.\<close>

abbreviation index_of :: "io \<Rightarrow> nat option list" where
  "index_of w \<equiv> the (indexed_components w)"

abbreviation exist :: "io \<Rightarrow> nat list \<Rightarrow> bool" where
  "exist w cs \<equiv> \<forall>c \<in> set cs. components w c \<noteq> None"

definition map_ok :: "io \<Rightarrow> bool" where
  "map_ok w \<longleftrightarrow> indexed_components w \<noteq> None \<and> length (index_of w) = 8 * process_data_size w \<and>
     length (io_map w) = process_data_size w \<and> max_offset w + 1 = process_data_size w \<and>
     (\<forall>c. Some c \<in> set (index_of w) \<longrightarrow> components w c \<noteq> None) \<and> (\<forall>cs. Some cs \<in> set (io_map w) \<longrightarrow> exist w cs)"

definition image_ok :: "io \<Rightarrow> bool" where
  "image_ok w \<longleftrightarrow> map_ok w \<and> map_option length (process_data w) = Some (process_data_size w) \<and>
     exist w (updated_in w) \<and> exist w (updated_out w) \<and>
     (\<forall>l. last_process_data w = Some l \<longrightarrow> process_data_size w \<le> length l)"

lemma component_at_ok: "image_ok w \<Longrightarrow> i < 8 * process_data_size w \<Longrightarrow> component_at w i = Inr (index_of w ! i)"
  by (auto simp: image_ok_def map_ok_def component_at_def)

text \<open>The components at the masked and changed bits of an octet from bit \<open>j\<close> on.\<close>

definition at_bits :: "io \<Rightarrow> nat \<Rightarrow> nat \<Rightarrow> (nat \<Rightarrow> bool) \<Rightarrow> nat set" where
  "at_bits w i j P = {c. \<exists>k. j \<le> k \<and> k < 8 \<and> P k \<and> index_of w ! (i * 8 + k) = Some c}"

lemma at_bits_step: "j < 8 \<Longrightarrow> at_bits w i j P =
    (if P j then set_option (index_of w ! (i * 8 + j)) else {}) \<union> at_bits w i (Suc j) P"
proof (intro set_eqI iffI)
  fix c
  assume "c \<in> at_bits w i j P"
  then obtain k where k: "j \<le> k" "k < 8" "P k" "index_of w ! (i * 8 + k) = Some c" by (auto simp: at_bits_def)
  then show "c \<in> (if P j then set_option (index_of w ! (i * 8 + j)) else {}) \<union> at_bits w i (Suc j) P"
    by (cases "k = j") (auto simp: at_bits_def Suc_le_eq intro: exI [of _ k])
qed (auto simp: at_bits_def Suc_le_eq elem_set split: if_split_asm dest: less_imp_le)

lemma at_bits_cong: "(\<And>k. j \<le> k \<Longrightarrow> k < 8 \<Longrightarrow> P k = Q k) \<Longrightarrow> at_bits w i j P = at_bits w i j Q"
  unfolding at_bits_def by blast

lemma at_bits_8: "at_bits w i 8 P = {}"
  by (simp add: at_bits_def)

text \<open>One turn of the loop, whatever branch it takes.\<close>

definition new_component :: "io \<Rightarrow> nat \<Rightarrow> nat \<Rightarrow> 8 word \<Rightarrow> nat option \<Rightarrow> bool" where
  "new_component w i j m ja \<longleftrightarrow> bit m j \<and> index_of w ! (i * 8 + j) \<noteq> None \<and> index_of w ! (i * 8 + j) \<noteq> ja"

lemma scan_bits_step:
  assumes "image_ok w" "i < process_data_size w" "j < 8"
  shows "scan_bits w i j (Suc n) (push_bit j 1) p m q ja upd =
    scan_bits w i (Suc j) n (push_bit (Suc j) 1) p m
      (if bit m j \<and> bit p j \<noteq> bit q j then if bit p j then q OR push_bit j 1 else q AND (0xff - push_bit j 1) else q)
      (if new_component w i j m ja then index_of w ! (i * 8 + j) else ja)
      (if new_component w i j m ja \<and> bit p j \<noteq> bit q j then List.insert (the (index_of w ! (i * 8 + j))) upd else upd)"
proof -
  have "i * 8 + j < 8 * process_data_size w" using assms(2,3) by simp
  then have c: "component_at w (i * 8 + j) = Inr (index_of w ! (i * 8 + j))" by (rule component_at_ok [OF assms(1)])
  show ?thesis
    unfolding scan_bits.simps(2) and_push_eq [OF assms(3)] and_push_zero [OF assms(3)] push_push c new_component_def
    by (cases "index_of w ! (i * 8 + j)") (simp_all add: Let_def del: scan_bits.simps push_bit_of_1)
qed

lemma scan_bits_ok:
  assumes "image_ok w" "i < process_data_size w" "j + n = 8"
  shows "\<exists>q' ja' upd'. scan_bits w i j n (push_bit j 1) p m q ja upd = Inr (q', ja', upd') \<and>
    (\<forall>k < 8. bit q' k = (if j \<le> k \<and> bit m k then bit p k else bit q k)) \<and>
    set upd \<subseteq> set upd' \<and> set upd' \<subseteq> set upd \<union> at_bits w i j (\<lambda>k. bit m k \<and> bit p k \<noteq> bit q k) \<and>
    ((\<forall>k < 8. j \<le> k \<and> bit m k \<longrightarrow> bit p k \<noteq> bit q k) \<and> set_option ja \<subseteq> set upd \<longrightarrow>
       at_bits w i j (\<lambda>k. bit m k) \<subseteq> set upd' \<and> set_option ja' \<subseteq> set upd')"
  using assms(3)
proof (induction n arbitrary: j q ja upd)
  case 0
  then have "j = 8" by simp
  then show ?case by (simp add: at_bits_8)
next
  case (Suc n)
  then have j: "j < 8" and n: "Suc j + n = 8" by simp_all
  define q1 where "q1 = (if bit m j \<and> bit p j \<noteq> bit q j then if bit p j then q OR push_bit j 1 else q AND (0xff - push_bit j 1) else q)"
  define ja1 where "ja1 = (if new_component w i j m ja then index_of w ! (i * 8 + j) else ja)"
  define upd1 where "upd1 = (if new_component w i j m ja \<and> bit p j \<noteq> bit q j then List.insert (the (index_of w ! (i * 8 + j))) upd else upd)"
  have q1: "bit q1 k = (if k = j \<and> bit m j then bit p k else bit q k)" for k
    unfolding q1_def ff_minus using j by (auto simp: bit_simps dest: bit_imp_le_length)
  have P: "at_bits w i (Suc j) (\<lambda>k. bit m k \<and> bit p k \<noteq> bit q1 k) = at_bits w i (Suc j) (\<lambda>k. bit m k \<and> bit p k \<noteq> bit q k)"
    by (rule at_bits_cong) (simp add: q1)
  obtain q' ja' upd' where r: "scan_bits w i (Suc j) n (push_bit (Suc j) 1) p m q1 ja1 upd1 = Inr (q', ja', upd')"
    and b: "\<forall>k < 8. bit q' k = (if Suc j \<le> k \<and> bit m k then bit p k else bit q1 k)"
    and s: "set upd1 \<subseteq> set upd'" and t: "set upd' \<subseteq> set upd1 \<union> at_bits w i (Suc j) (\<lambda>k. bit m k \<and> bit p k \<noteq> bit q k)"
    and u: "(\<forall>k < 8. Suc j \<le> k \<and> bit m k \<longrightarrow> bit p k \<noteq> bit q1 k) \<and> set_option ja1 \<subseteq> set upd1 \<longrightarrow>
       at_bits w i (Suc j) (\<lambda>k. bit m k) \<subseteq> set upd' \<and> set_option ja' \<subseteq> set upd'"
    using Suc.IH [OF n, of q1 ja1 upd1] unfolding P by blast
  have "scan_bits w i j (Suc n) (push_bit j 1) p m q ja upd = Inr (q', ja', upd')"
    unfolding scan_bits_step [OF assms(1,2) j] q1_def [symmetric] ja1_def [symmetric] upd1_def [symmetric] by (rule r)
  moreover have "\<forall>k < 8. bit q' k = (if j \<le> k \<and> bit m k then bit p k else bit q k)"
    using b q1 by (auto simp: Suc_le_eq le_eq_less_or_eq)
  moreover have "set upd \<subseteq> set upd'" using s by (auto simp: upd1_def)
  moreover have "set upd' \<subseteq> set upd \<union> at_bits w i j (\<lambda>k. bit m k \<and> bit p k \<noteq> bit q k)"
    using t unfolding at_bits_step [OF j] upd1_def new_component_def by (auto split: if_split_asm)
  moreover have "at_bits w i j (\<lambda>k. bit m k) \<subseteq> set upd' \<and> set_option ja' \<subseteq> set upd'"
    if a: "(\<forall>k < 8. j \<le> k \<and> bit m k \<longrightarrow> bit p k \<noteq> bit q k) \<and> set_option ja \<subseteq> set upd"
  proof -
    have "\<forall>k < 8. Suc j \<le> k \<and> bit m k \<longrightarrow> bit p k \<noteq> bit q1 k" using a q1 by auto
    moreover have "set_option ja1 \<subseteq> set upd1" using a j by (auto simp: ja1_def upd1_def new_component_def)
    moreover have "(if bit m j then set_option (index_of w ! (i * 8 + j)) else {}) \<subseteq> set upd1"
      using a j by (auto simp: upd1_def new_component_def)
    ultimately show ?thesis using u s unfolding at_bits_step [OF j] by blast
  qed
  ultimately show ?case by blast
qed

lemma image_ok_index: "image_ok w \<Longrightarrow> i < 8 * process_data_size w \<Longrightarrow> index_of w ! i = Some c \<Longrightarrow> components w c \<noteq> None"
  unfolding image_ok_def map_ok_def using nth_mem [of i "index_of w"] by simp

lemma at_bits_exist: "image_ok w \<Longrightarrow> i < process_data_size w \<Longrightarrow> c \<in> at_bits w i j P \<Longrightarrow> components w c \<noteq> None"
proof -
  assume a: "image_ok w" "i < process_data_size w" "c \<in> at_bits w i j P"
  then obtain k where "k < 8" "index_of w ! (i * 8 + k) = Some c" by (auto simp: at_bits_def)
  moreover have "i * 8 + k < 8 * process_data_size w" using a(2) \<open>k < 8\<close> by simp
  ultimately show ?thesis using image_ok_index [OF a(1)] by blast
qed

lemma set_fold_insert: "set (fold List.insert xs ys) = set xs \<union> set ys"
  by (induction xs arbitrary: ys) auto

lemma notify_ok:
  assumes "image_ok w" "i < process_data_size w" "min_offset w \<le> i" "exist w upd"
  shows "\<exists>upd'. notifyComponentsAt i w upd = Inr upd' \<and> set upd \<subseteq> set upd' \<and> exist w upd'"
proof -
  have n: "max_offset w + 1 = process_data_size w" "length (io_map w) = process_data_size w"
    and e: "\<forall>xs. Some xs \<in> set (io_map w) \<longrightarrow> exist w xs"
    using assms(1) by (simp_all add: image_ok_def map_ok_def)
  have "exist w (case io_map w ! i of None \<Rightarrow> [] | Some cs \<Rightarrow> cs)"
    using e nth_mem [of i "io_map w"] n(2) assms(2) by (cases "io_map w ! i") simp_all
  then show ?thesis using n assms(2,3,4) by (auto simp: notifyComponentsAt_def set_fold_insert)
qed

lemma scan_octet_ok:
  assumes "image_ok w" "i < process_data_size w" "exist w upd"
  shows "\<exists>ja' upd'. (if p \<noteq> q \<and> m \<noteq> 0 then scan_bits w i 0 8 1 p m q ja upd else Inr (q, ja, upd)) = Inr (masked q p m, ja', upd') \<and>
    exist w upd' \<and> set upd \<subseteq> set upd' \<and> set upd' \<subseteq> set upd \<union> at_bits w i 0 (\<lambda>k. bit m k \<and> bit p k \<noteq> bit q k) \<and>
    ((\<forall>k < 8. bit m k \<longrightarrow> bit p k \<noteq> bit q k) \<and> set_option ja \<subseteq> set upd \<longrightarrow>
       at_bits w i 0 (bit m) \<subseteq> set upd' \<and> set_option ja' \<subseteq> set upd')"
proof (cases "p \<noteq> q \<and> m \<noteq> 0")
  case True
  obtain q' ja' upd' where r: "scan_bits w i 0 8 (push_bit 0 1) p m q ja upd = Inr (q', ja', upd')"
    "\<forall>k < 8. bit q' k = (if 0 \<le> k \<and> bit m k then bit p k else bit q k)" "set upd \<subseteq> set upd'"
    "set upd' \<subseteq> set upd \<union> at_bits w i 0 (\<lambda>k. bit m k \<and> bit p k \<noteq> bit q k)"
    "(\<forall>k < 8. 0 \<le> k \<and> bit m k \<longrightarrow> bit p k \<noteq> bit q k) \<and> set_option ja \<subseteq> set upd \<longrightarrow>
       at_bits w i 0 (\<lambda>k. bit m k) \<subseteq> set upd' \<and> set_option ja' \<subseteq> set upd'"
    using scan_bits_ok [OF assms(1,2) add_0 [of 8], of p m q ja upd] by blast
  have "q' = masked q p m" using r(2) by (intro maskedI) simp
  moreover have "exist w upd'" using r(4) assms(3) at_bits_exist [OF assms(1,2)] by blast
  ultimately show ?thesis using r True by auto
next
  case False
  have "\<not> (\<forall>k < 8. bit m k \<longrightarrow> bit p k \<noteq> bit q k) \<or> at_bits w i 0 (bit m) = {}"
    using False by (auto simp: at_bits_def)
  moreover have "masked q p m = q" using False by (auto simp: masked_same)
  ultimately show ?thesis using False assms(3) by auto
qed

definition changed_bits :: "io \<Rightarrow> nat \<Rightarrow> octets \<Rightarrow> octets \<Rightarrow> octets \<Rightarrow> nat set" where
  "changed_bits w i ps ms qs = (\<Union>k < length ms. at_bits w (i + k) 0 (\<lambda>j. bit (ms ! k) j \<and> bit (ps ! k) j \<noteq> bit (qs ! k) j))"

definition masked_bits :: "io \<Rightarrow> nat \<Rightarrow> octets \<Rightarrow> nat set" where
  "masked_bits w i ms = (\<Union>k < length ms. at_bits w (i + k) 0 (bit (ms ! k)))"

lemma bits_Cons:
  "changed_bits w i (p # ps) (m # ms) (q # qs) = at_bits w i 0 (\<lambda>j. bit m j \<and> bit p j \<noteq> bit q j) \<union> changed_bits w (Suc i) ps ms qs"
  "masked_bits w i (m # ms) = at_bits w i 0 (bit m) \<union> masked_bits w (Suc i) ms"
  unfolding changed_bits_def masked_bits_def by (simp_all add: lessThan_Suc_eq_insert_0 del: lessThan_Suc)

text \<open>The mask names only bits that differ.\<close>

definition mask_is_exact :: "octets \<Rightarrow> octets \<Rightarrow> octets \<Rightarrow> bool" where
  "mask_is_exact ps ms qs \<longleftrightarrow> (\<forall>k < length ms. \<forall>j < 8. bit (ms ! k) j \<longrightarrow> bit (ps ! k) j \<noteq> bit (qs ! k) j)"

lemma mask_is_exact_Cons: "mask_is_exact (p # ps) (m # ms) (q # qs) \<longleftrightarrow>
    (\<forall>j < 8. bit m j \<longrightarrow> bit p j \<noteq> bit q j) \<and> mask_is_exact ps ms qs"
  unfolding mask_is_exact_def by (auto simp: less_Suc_eq_0_disj)

lemma scan_octets_ok:
  assumes "image_ok w" "i + n = process_data_size w" "length ps = n" "length ms = n" "length qs = n" "exist w upd"
    "last_process_data w \<noteq> None \<or> (\<forall>k < n. ms ! k \<noteq> 0 \<longrightarrow> min_offset w \<le> i + k)"
  shows "\<exists>upd'. scan_octets w i n ps ms qs ja upd = Inr (masked_all qs ps ms, upd') \<and> exist w upd' \<and> set upd \<subseteq> set upd' \<and>
    (last_process_data w \<noteq> None \<longrightarrow> set upd' \<subseteq> set upd \<union> changed_bits w i ps ms qs) \<and>
    (mask_is_exact ps ms qs \<and> set_option ja \<subseteq> set upd \<longrightarrow> masked_bits w i ms \<subseteq> set upd')"
  using assms(2-)
proof (induction n arbitrary: i ps ms qs ja upd)
  case 0
  then show ?case by (simp add: masked_all_def masked_bits_def)
next
  case (Suc n)
  then obtain p ps' m ms' q qs' where c: "ps = p # ps'" "ms = m # ms'" "qs = q # qs'"
    and l: "length ps' = n" "length ms' = n" "length qs' = n" by (auto simp: length_Suc_conv)
  have i: "i < process_data_size w" using Suc.prems(1) by simp
  obtain upd1 where u1: "(if last_process_data w = None \<and> m \<noteq> 0 then notifyComponentsAt i w upd else Inr upd) = Inr upd1"
    "set upd \<subseteq> set upd1" "exist w upd1" "last_process_data w \<noteq> None \<longrightarrow> upd1 = upd"
  proof (cases "last_process_data w = None \<and> m \<noteq> 0")
    case True
    then have "min_offset w \<le> i" using Suc.prems(6) by (auto simp: c)
    then show thesis using notify_ok [OF assms(1) i _ Suc.prems(5)] True that by auto
  qed (use that Suc.prems(5) in auto)
  obtain ja' upd2 where s: "(if p \<noteq> q \<and> m \<noteq> 0 then scan_bits w i 0 8 1 p m q ja upd1 else Inr (q, ja, upd1)) = Inr (masked q p m, ja', upd2)"
    "exist w upd2" "set upd1 \<subseteq> set upd2" "set upd2 \<subseteq> set upd1 \<union> at_bits w i 0 (\<lambda>k. bit m k \<and> bit p k \<noteq> bit q k)"
    "(\<forall>k < 8. bit m k \<longrightarrow> bit p k \<noteq> bit q k) \<and> set_option ja \<subseteq> set upd1 \<longrightarrow> at_bits w i 0 (bit m) \<subseteq> set upd2 \<and> set_option ja' \<subseteq> set upd2"
    using scan_octet_ok [OF assms(1) i u1(3), of p q m ja] by blast
  have r: "last_process_data w \<noteq> None \<or> (\<forall>k < n. ms' ! k \<noteq> 0 \<longrightarrow> min_offset w \<le> Suc i + k)"
    using Suc.prems(6) by (auto simp: c dest: spec [of _ "Suc _"])
  obtain upd3 where t: "scan_octets w (Suc i) n ps' ms' qs' ja' upd2 = Inr (masked_all qs' ps' ms', upd3)" "exist w upd3"
    "set upd2 \<subseteq> set upd3" "last_process_data w \<noteq> None \<longrightarrow> set upd3 \<subseteq> set upd2 \<union> changed_bits w (Suc i) ps' ms' qs'"
    "mask_is_exact ps' ms' qs' \<and> set_option ja' \<subseteq> set upd2 \<longrightarrow> masked_bits w (Suc i) ms' \<subseteq> set upd3"
    using Suc.IH [OF _ l s(2) r, of ja'] Suc.prems(1) by auto
  have "scan_octets w i (Suc n) ps ms qs ja upd = Inr (masked_all qs ps ms, upd3)"
    using u1(1) s(1) t(1) by (simp add: c masked_all_def)
  moreover have "last_process_data w \<noteq> None \<longrightarrow> set upd3 \<subseteq> set upd \<union> changed_bits w i ps ms qs"
    using u1(4) s(4) t(4) unfolding c bits_Cons by auto
  moreover have "mask_is_exact ps ms qs \<and> set_option ja \<subseteq> set upd \<longrightarrow> masked_bits w i ms \<subseteq> set upd3"
    using u1(2) s(5) t(3,5) unfolding c bits_Cons mask_is_exact_Cons by blast
  ultimately show ?case using u1(2) s(3) t(2,3) by blast
qed

subsection \<open>After the scan\<close>

lemma put_comp_exist [simp]: "components (put_comp c x w) d = None \<longleftrightarrow> c \<noteq> d \<and> components w d = None"
  by (simp add: put_comp_def)

text \<open>What the rest of \<open>processAll\<close> keeps.\<close>

definition same_image :: "io \<Rightarrow> io \<Rightarrow> bool" where
  "same_image w w' \<longleftrightarrow> process_data w' = process_data w \<and> process_data_size w' = process_data_size w \<and>
     indexed_components w' = indexed_components w \<and> io_map w' = io_map w \<and> max_offset w' = max_offset w \<and> min_offset w' = min_offset w \<and>
     last_process_data w' = last_process_data w \<and> hw_state w' = hw_state w \<and> updates_sent w' = updates_sent w \<and>
     (\<forall>c. (components w' c = None) = (components w c = None)) \<and>
     (\<forall>c. map_option address (components w' c) = map_option address (components w c)) \<and>
     (\<forall>c. map_option pending_value (components w' c) = map_option pending_value (components w c)) \<and>
     set (updated_out w') \<subseteq> set (updated_out w)"

lemma same_image_refl: "same_image w w"
  by (simp add: same_image_def)

lemma same_image_trans: "same_image w w' \<Longrightarrow> same_image w' w'' \<Longrightarrow> same_image w w''"
  unfolding same_image_def by (elim conjE) (intro conjI; simp; blast)

lemma out_same: "same_image w w' \<Longrightarrow> set (updated_out w') \<subseteq> set (updated_out w)"
  by (simp add: same_image_def)

lemma pending_same:
  assumes "same_image w w'" "components w c = Some x" "pending_value x \<noteq> None"
  shows "\<exists>x'. components w' c = Some x' \<and> pending_value x' \<noteq> None"
proof -
  have "map_option pending_value (components w' c) = Some (pending_value x)" using assms(1,2) by (simp add: same_image_def)
  then show ?thesis using assms(3) by auto
qed

lemma resolve_in_ok:
  assumes "exist w cs"
  shows "\<exists>w'. resolve_in cs w u = Inr (w', fold List.insert cs u) \<and> same_image w w' \<and> set (updated_in w') = set (updated_in w) - set cs"
  using assms
proof (induction cs arbitrary: w u)
  case (Cons c cs)
  then obtain x where x: "components w c = Some x" by auto
  define w1 where "w1 = (put_comp c (x\<lparr>read_time := Some (io_clock w)\<rparr>) w)\<lparr>updated_in := removeAll c (updated_in w)\<rparr>"
  define w2 where "w2 = (if updates_sent w1 then w1\<lparr>updated_out := removeAll c (updated_out w1)\<rparr> else w1)"
  have s: "same_image w w2" by (auto simp: same_image_def w2_def w1_def put_comp_def x)
  have "exist w2 cs" using Cons.prems s by (simp add: same_image_def)
  from Cons.IH [OF this] obtain w' where
    w': "resolve_in cs w2 (List.insert c u) = Inr (w', fold List.insert cs (List.insert c u))" "same_image w2 w'"
      "set (updated_in w') = set (updated_in w2) - set cs" by blast
  have "resolve_in (c # cs) w u = resolve_in cs w2 (List.insert c u)"
    by (simp add: get_comp_def x w2_def w1_def Let_def)
  moreover have "set (updated_in w2) = set (updated_in w) - {c}" by (simp add: w2_def w1_def put_comp_def)
  ultimately show ?case using w' same_image_trans [OF s w'(2)] by (auto intro!: exI [of _ w'])
qed (simp add: same_image_refl)

lemma resolve_out_ok:
  assumes "\<forall>c \<in> set cs. \<exists>x. components w c = Some x \<and> pending_value x \<noteq> None"
  shows "\<exists>w'. resolve_out cs w = Inr w' \<and> same_image w w' \<and> updated_in w' = updated_in w \<and> components w' = components w"
  using assms
proof (induction cs arbitrary: w)
  case (Cons c cs)
  then obtain x v where x: "components w c = Some x" "pending_value x = Some v" by auto
  define w1 where "w1 = (if v = io_value (address x) then w\<lparr>updated_out := removeAll c (updated_out w)\<rparr> else w)"
  have s: "same_image w w1" "updated_in w1 = updated_in w" "components w1 = components w" by (auto simp: same_image_def w1_def)
  have "\<forall>c \<in> set cs. \<exists>x. components w1 c = Some x \<and> pending_value x \<noteq> None" using Cons.prems by (simp add: s(3))
  from Cons.IH [OF this] obtain w' where w': "resolve_out cs w1 = Inr w'" "same_image w1 w'"
    "updated_in w' = updated_in w1" "components w' = components w1" by blast
  have "resolve_out (c # cs) w = Inr w'" using w'(1) by (simp add: get_comp_def x w1_def read_field_def)
  then show ?case using w' s same_image_trans [OF s(1) w'(2)] by (auto intro!: exI [of _ w'])
qed (simp add: same_image_refl)

lemma image_ok_same: "image_ok w \<Longrightarrow> same_image w w' \<Longrightarrow> exist w' (updated_in w') \<Longrightarrow> image_ok w'"
  unfolding image_ok_def map_ok_def same_image_def by (elim conjE, intro conjI) (simp; blast)+

lemma mem_copy_ok: "n \<le> length dst \<Longrightarrow> n \<le> length src \<Longrightarrow> mem_copy dst src n = Inr (take n src @ drop n dst)"
  by (simp add: mem_copy_def field_def put_field_def)

lemma save_last_ok:
  assumes "process_data w = Some pd" "length pd = process_data_size w" "\<forall>l. last_process_data w = Some l \<longrightarrow> process_data_size w \<le> length l"
  shows "\<exists>w'. save_last w = Inr w' \<and> w' = w\<lparr>last_process_data := last_process_data w'\<rparr> \<and>
    (\<forall>l. last_process_data w' = Some l \<longrightarrow> process_data_size w \<le> length l) \<and>
    (hw_state w = s_operational \<longrightarrow> last_process_data w' \<noteq> None)"
proof (cases "hw_state w = s_operational")
  case True
  define b where "b = (case last_process_data w of None \<Rightarrow> replicate (process_data_size w) 0 | Some b \<Rightarrow> b)"
  have "process_data_size w \<le> length b" using assms(3) by (simp add: b_def split: option.split)
  then have "save_last w = Inr (w\<lparr>last_process_data := Some (take (process_data_size w) pd @ drop (process_data_size w) b)\<rparr>)"
    using True assms(1,2) by (simp add: save_last_def block_of_def b_def [symmetric] mem_copy_ok)
  then show ?thesis using assms(2) by simp
qed (use assms(3) in \<open>simp add: save_last_def\<close>)

lemma masked_all_length: "length ps = length qs \<Longrightarrow> length ms = length qs \<Longrightarrow> length (masked_all qs ps ms) = length qs"
  by (simp add: masked_all_def)

text \<open>\<open>processAll\<close> after a successful scan.\<close>

lemma processAll_eq:
  assumes "hw_state w \<noteq> s_hardware_preinit" "process_data w = Some pd"
    "scan_octets (w\<lparr>io_clock := clk\<rparr>) 0 (process_data_size w) dat msk pd None (updated_in w) = Inr (pd', upd)"
  shows "processAll clk (process_data_size w) msk dat work w =
    bindr (save_last (w\<lparr>io_clock := clk, process_data := Some pd', updated_in := upd\<rparr>)) (\<lambda>w1. if updated_in w1 = [] then Inr (work, w1)
      else bindr (resolve_in (updated_in w1) w1 work) (\<lambda>(w2, updated').
           bindr (if updates_sent w2 then resolve_out (updated_out w2) w2 else Inr w2) (\<lambda>w3.
           Inr (updated', w3\<lparr>outputs_waiting := length (updated_out w3)\<rparr>))))"
  using assms by (simp add: processAll_def Let_def block_of_def)

lemma processAll_ok:
  assumes "image_ok w" "hw_state w \<noteq> s_hardware_preinit" "process_data w = Some pd"
    "length dat = process_data_size w" "length msk = process_data_size w"
    "last_process_data w \<noteq> None \<or> (\<forall>i < process_data_size w. msk ! i \<noteq> 0 \<longrightarrow> min_offset w \<le> i)"
    "updates_sent w \<longrightarrow> (\<forall>c \<in> set (updated_out w). \<exists>x. components w c = Some x \<and> pending_value x \<noteq> None)"
  shows "\<exists>u w'. processAll clk (process_data_size w) msk dat work w = Inr (u, w') \<and>
    process_data w' = Some (masked_all pd dat msk) \<and> image_ok w' \<and> updated_in w' = [] \<and>
    indexed_components w' = indexed_components w \<and> min_offset w' = min_offset w \<and> hw_state w' = hw_state w \<and>
    (hw_state w = s_operational \<longrightarrow> last_process_data w' \<noteq> None) \<and>
    set work \<union> set (updated_in w) \<subseteq> set u \<and>
    (last_process_data w \<noteq> None \<longrightarrow> set u \<subseteq> set work \<union> set (updated_in w) \<union> changed_bits w 0 dat msk pd) \<and>
    (mask_is_exact dat msk pd \<longrightarrow> masked_bits w 0 msk \<subseteq> set u)"
proof -
  define n where "n = process_data_size w"
  define w0 where "w0 = w\<lparr>io_clock := clk\<rparr>"
  have ok0: "image_ok w0" using assms(1) by (simp add: image_ok_def map_ok_def w0_def)
  have pd: "length pd = n" using assms(1,3) by (auto simp: image_ok_def n_def)
  have e0: "exist w0 (updated_in w0)" using ok0 unfolding image_ok_def by blast
  have bits: "changed_bits w0 i p m q = changed_bits w i p m q" "masked_bits w0 i m = masked_bits w i m" for i p m q
    by (simp_all add: changed_bits_def masked_bits_def at_bits_def w0_def)
  have w0_same: "process_data_size w0 = process_data_size w" "last_process_data w0 = last_process_data w" "min_offset w0 = min_offset w"
    "updated_in w0 = updated_in w" by (simp_all add: w0_def)
  obtain upd where s: "scan_octets w0 0 n dat msk pd None (updated_in w) = Inr (masked_all pd dat msk, upd)" "exist w0 upd"
    "set (updated_in w) \<subseteq> set upd"
    "last_process_data w \<noteq> None \<longrightarrow> set upd \<subseteq> set (updated_in w) \<union> changed_bits w 0 dat msk pd"
    "mask_is_exact dat msk pd \<longrightarrow> masked_bits w 0 msk \<subseteq> set upd"
    using scan_octets_ok [OF ok0 _ _ _ _ e0, of 0 n dat msk pd None, unfolded bits w0_same] pd assms(4-6)
    by (auto simp: n_def)
  define w1 where "w1 = w0\<lparr>process_data := Some (masked_all pd dat msk), updated_in := upd\<rparr>"
  have l1: "length (masked_all pd dat msk) = process_data_size w1"
    using masked_all_length [of dat pd msk] pd assms(4,5) by (simp add: w1_def w0_def n_def)
  have f1: "\<forall>l. last_process_data w1 = Some l \<longrightarrow> process_data_size w1 \<le> length l"
    using assms(1) by (auto simp: image_ok_def w1_def w0_def)
  obtain w2 where w2: "save_last w1 = Inr w2" "w2 = w1\<lparr>last_process_data := last_process_data w2\<rparr>"
    "\<forall>l. last_process_data w2 = Some l \<longrightarrow> process_data_size w1 \<le> length l" "hw_state w = s_operational \<longrightarrow> last_process_data w2 \<noteq> None"
    using save_last_ok [OF _ l1 f1] by (auto simp: w1_def w0_def)
  have f2: "process_data w2 = Some (masked_all pd dat msk)" "updated_in w2 = upd" "components w2 = components w"
    "updated_out w2 = updated_out w" "updates_sent w2 = updates_sent w" "process_data_size w2 = process_data_size w"
    "indexed_components w2 = indexed_components w" "io_map w2 = io_map w" "max_offset w2 = max_offset w"
    "min_offset w2 = min_offset w" "hw_state w2 = hw_state w"
    by (subst w2(2), simp add: w1_def w0_def)+
  note P = processAll_eq [OF assms(2,3) s(1) [unfolded w0_def n_def], of work, folded w0_def, folded w1_def]
  have "exist w upd" using s(2) by (simp add: w0_def)
  then have ok2: "image_ok w2" using assms(1) l1 w2(3) by (simp add: image_ok_def map_ok_def f2 w1_def w0_def)
  have e2: "exist w2 (updated_in w2)" using ok2 unfolding image_ok_def by blast
  show ?thesis
  proof (cases "upd = []")
    case True
    have "processAll clk (process_data_size w) msk dat work w = Inr (work, w2)"
      using w2(1) True f2(2) by (simp add: P)
    then show ?thesis using f2 ok2 s True w2(4) by auto
  next
    case False
    obtain w3 where w3: "resolve_in upd w2 work = Inr (w3, fold List.insert upd work)" "same_image w2 w3"
      "set (updated_in w3) = set (updated_in w2) - set upd"
      using resolve_in_ok [of upd w2 work] e2 f2(2) by auto
    have "\<forall>c \<in> set (updated_out w3). \<exists>x. components w3 c = Some x \<and> pending_value x \<noteq> None" if sent: "updates_sent w"
    proof
      fix c
      assume "c \<in> set (updated_out w3)"
      then have "c \<in> set (updated_out w)" using out_same [OF w3(2)] f2(4) by auto
      then obtain x where "components w2 c = Some x" "pending_value x \<noteq> None" using assms(7) sent f2(3) by auto
      then show "\<exists>x. components w3 c = Some x \<and> pending_value x \<noteq> None" by (rule pending_same [OF w3(2)])
    qed
    then obtain w4 where w4: "(if updates_sent w3 then resolve_out (updated_out w3) w3 else Inr w3) = Inr w4" "same_image w3 w4"
      "updated_in w4 = updated_in w3"
      using resolve_out_ok [of "updated_out w3" w3] same_image_refl [of w3] w3(2) f2(5) by (cases "updates_sent w") (auto simp: same_image_def)
    define w5 where "w5 = w4\<lparr>outputs_waiting := length (updated_out w4)\<rparr>"
    have "same_image w2 w4" by (rule same_image_trans [OF w3(2) w4(2)])
    then have s5: "same_image w2 w5" by (simp add: same_image_def w5_def)
    have u5: "updated_in w5 = []" using w3(3) w4(3) f2(2) by (simp add: w5_def)
    have "processAll clk (process_data_size w) msk dat work w = Inr (fold List.insert upd work, w5)"
      using w2(1) False f2(2) w3(1) w4(1) by (simp add: P w5_def)
    moreover have "process_data w5 = Some (masked_all pd dat msk)" "indexed_components w5 = indexed_components w"
      "min_offset w5 = min_offset w" "hw_state w5 = hw_state w" "hw_state w = s_operational \<longrightarrow> last_process_data w5 \<noteq> None"
      using s5 f2 w2(4) by (simp_all add: same_image_def)
    moreover have "image_ok w5" using image_ok_same [OF ok2 s5] u5 by simp
    ultimately show ?thesis using s u5 by (auto simp: set_fold_insert)
  qed
qed

text \<open>
  Claim C21. The process image follows the fieldbus. Once the hardware is initialised, processing the octets that arrive
  takes over exactly the bits under the mask, keeps all other bits, keeps the map of the image intact, and
  empties the set of changed components into the work list. If a complete image was seen before, only
  components with a changed bit under the mask are added to the work list; if the mask names only bits that differ,
  every component with a bit under the mask is.
\<close>

theorem process_image_follows_hardware:
  assumes "image_ok w" "hw_state w \<noteq> s_hardware_preinit" "process_data w = Some pd"
    "length dat = process_data_size w" "length msk = process_data_size w"
    "last_process_data w \<noteq> None \<or> (\<forall>i < process_data_size w. msk ! i \<noteq> 0 \<longrightarrow> min_offset w \<le> i)"
    "updates_sent w \<longrightarrow> (\<forall>c \<in> set (updated_out w). \<exists>x. components w c = Some x \<and> pending_value x \<noteq> None)"
  shows "\<exists>u w'. processAll clk (process_data_size w) msk dat work w = Inr (u, w') \<and>
    process_data w' = Some (masked_all pd dat msk) \<and> image_ok w' \<and> updated_in w' = [] \<and>
    indexed_components w' = indexed_components w \<and> min_offset w' = min_offset w \<and> hw_state w' = hw_state w \<and>
    (hw_state w = s_operational \<longrightarrow> last_process_data w' \<noteq> None) \<and>
    set work \<union> set (updated_in w) \<subseteq> set u \<and>
    (last_process_data w \<noteq> None \<longrightarrow> set u \<subseteq> set work \<union> set (updated_in w) \<union> changed_bits w 0 dat msk pd) \<and>
    (mask_is_exact dat msk pd \<longrightarrow> masked_bits w 0 msk \<subseteq> set u)"
  by (rule processAll_ok [OF assms])

definition example_io :: io where
  "example_io = \<lparr>components = [0 \<mapsto> \<lparr>io_name = ''in'', address = \<lparr>module_position = 1, io_offset = 0, io_bitpos = 0, io_value = 0,
       bitlen = 8, entry_position = 0, is_signed = False, description = ''in''\<rparr>, last_event = e_none, pending_value = None,
       raw_value = 0, read_time = None, direction = Some DirInput, io_index = 0, io_kind = IO_Input, owners = []\<rparr>],
     next_component = 1, interfaces = [0], machine_on = \<lambda>_. True, processing_queue = [0], io_names = [], io_clock = 0,
     process_data_size = 1, process_data = Some [0], process_mask = Some [0xff], update_data = None, default_data = None,
     default_mask = None, last_process_data = Some [0], outputs_waiting = 0, max_offset = 0, min_offset = 0,
     indexed_components = Some (replicate 8 (Some 0)), io_map = [Some [0]], hw_state = s_operational, regular_polls = [],
     updated_in = [], updated_out = [], updates_sent = False, activated = []\<rparr>"

lemma example_io_ok: "image_ok example_io"
  by (auto simp: image_ok_def map_ok_def example_io_def split: if_split_asm)

theorem process_image_follows_hardware_witness:
  "\<exists>u w'. processAll 5 1 [0x06] [0x0f] [] example_io = Inr (u, w') \<and> process_data w' = Some [0x06] \<and> 0 \<in> set u"
proof -
  have e: "hw_state example_io \<noteq> s_hardware_preinit" "process_data example_io = Some [0]" "process_data_size example_io = 1"
    "last_process_data example_io \<noteq> None" "\<not> updates_sent example_io" "indexed_components example_io = Some (replicate 8 (Some 0))"
    by (simp_all add: example_io_def)
  have "bit (6 AND 15 :: 8 word) j = bit (6 :: 8 word) j" for j by simp
  then have m: "mask_is_exact [0x0f] [0x06] [0]" unfolding mask_is_exact_def bit_and_iff by auto
  have "(index_of example_io) ! 1 = Some 0" by (simp add: e)
  moreover have "bit (6 :: 8 word) 1" by simp
  ultimately have "0 \<in> at_bits example_io 0 0 (bit (6 :: 8 word))" unfolding at_bits_def by (intro CollectI exI [of _ 1]) simp
  then have b: "0 \<in> masked_bits example_io 0 [0x06]" by (simp add: masked_bits_def)
  have "masked_all [0] [0x0f] [0x06] = [0x06]" by (simp add: masked_all_def masked_def)
  with process_image_follows_hardware [OF example_io_ok e(1,2), of "[0x0f]" "[0x06]" 5 "[]"] m b e(3-5)
  show ?thesis by auto
qed

end
