(* ===== verification/Cw_Outputs.thy ===== *)
theory Cw_Outputs
  imports Cw_ImageFacts
begin

unbundle bit_operations_syntax

text \<open>
  The way of values to the fieldbus and the map of the image: a value set on an output arrives in
  the domain, only the bits of waiting outputs change there, and \<open>setupIOMap\<close> gives every bit
  of an aligned component to that component.
\<close>

section \<open>Bits of blocks\<close>

definition getbit :: "octets \<Rightarrow> nat \<Rightarrow> bool" where
  "getbit b i = bit (b ! (i div 8)) (i mod 8)"

definition bits_of :: "io_address \<Rightarrow> nat set" where
  "bits_of a = {8 * first_octet a + first_bit a ..< 8 * first_octet a + first_bit a + bitlen a}"

definition inside :: "io_address \<Rightarrow> nat \<Rightarrow> bool" where
  "inside a n \<longleftrightarrow> 8 * first_octet a + first_bit a + bitlen a \<le> 8 * n"

lemma getbit_set:
  assumes "k < 8" "off < length b" "i < 8 * length b"
  shows "getbit (b[off := b ! off OR push_bit k 1]) i = (getbit b i \<or> i = 8 * off + k)"
proof (cases "i div 8 = off")
  case True
  then have "i = 8 * off + k \<longleftrightarrow> i mod 8 = k" using assms(1) by (auto simp: mod_less) presburger
  moreover have "bit (b ! off OR push_bit k 1) (i mod 8) = (bit (b ! off) (i mod 8) \<or> i mod 8 = k)"
    using assms(1) by (auto simp: bit_simps)
  ultimately show ?thesis using True assms(2) by (simp add: getbit_def)
next
  case False
  then have "i \<noteq> 8 * off + k" using assms(1) by auto
  then show ?thesis using False by (simp add: getbit_def)
qed

lemma mask_bits_ok:
  assumes "k < 8" "8 * off + k + n \<le> 8 * length b"
  shows "\<exists>b'. mask_bits n off (push_bit k 1) b = Inr b' \<and> length b' = length b \<and>
    (\<forall>i < 8 * length b. getbit b' i = (getbit b i \<or> 8 * off + k \<le> i \<and> i < 8 * off + k + n))"
  using assms
proof (induction n arbitrary: off k b)
  case (Suc n)
  have off: "off < length b" using Suc.prems by simp
  define b1 where "b1 = b[off := b ! off OR push_bit k 1]"
  define off1 where "off1 = (if k = 7 then Suc off else off)"
  define k1 where "k1 = (if k = 7 then 0 else Suc k)"
  have pos: "8 * off1 + k1 = Suc (8 * off + k)" "k1 < 8" using Suc.prems(1) by (auto simp: off1_def k1_def)
  have z: "(push_bit (Suc k) (1 :: 8 word) = 0) = (k = 7)"
  proof
    assume "push_bit (Suc k) (1 :: 8 word) = 0"
    then have "\<not> bit (push_bit (Suc k) (1 :: 8 word)) (Suc k)" by simp
    then show "k = 7" using Suc.prems(1) by (auto simp: bit_simps)
  qed simp
  have s: "mask_bits (Suc n) off (push_bit k 1) b = mask_bits n off1 (push_bit k1 1) b1"
    unfolding mask_bits.simps(2) octet_def if_P [OF off] bindr.simps Let_def push_push z b1_def [symmetric]
    by (cases "k = 7") (simp_all only: off1_def k1_def if_True if_False simp_thms push_bit_0_id id_apply)
  obtain b' where "mask_bits n off1 (push_bit k1 1) b1 = Inr b'" "length b' = length b1"
    "\<forall>i < 8 * length b1. getbit b' i = (getbit b1 i \<or> 8 * off1 + k1 \<le> i \<and> i < 8 * off1 + k1 + n)"
    using Suc.IH [of k1 off1 b1] pos Suc.prems(2) by (auto simp: b1_def)
  moreover have "getbit b1 i = (getbit b i \<or> i = 8 * off + k)" if "i < 8 * length b" for i
    unfolding b1_def by (rule getbit_set [OF Suc.prems(1) off that])
  ultimately show ?case unfolding s pos by (auto simp: b1_def)
qed auto

lemma add_to_mask_ok:
  assumes "inside a (length b)"
  shows "\<exists>b'. add_to_mask a b = Inr b' \<and> length b' = length b \<and> (\<forall>i < 8 * length b. getbit b' i = (getbit b i \<or> i \<in> bits_of a))"
  using mask_bits_ok [of "first_bit a" "first_octet a" "bitlen a" b] assms
  by (auto simp: add_to_mask_def inside_def first_bit_def bits_of_def)

section \<open>Updates\<close>

lemma update_bits_ok: "j + n = 8 \<Longrightarrow> k < 8 \<Longrightarrow>
    bit (update_bits n (push_bit j 1) d m p) k = (if j \<le> k \<and> bit m k then bit d k else bit p k)"
proof (induction n arbitrary: j p)
  case (Suc n)
  then have j: "j < 8" "Suc j + n = 8" by simp_all
  show ?case
    unfolding update_bits.simps(2) push_push Suc.IH [OF j(2) Suc.prems(2)] and_push_eq [OF j(1)] and_push_zero [OF j(1)] ff_minus
    using j Suc.prems(2) by (auto simp: bit_simps Suc_le_eq le_eq_less_or_eq)
qed simp

lemma update_octet: "(if m \<noteq> 0 \<and> d \<noteq> p then update_bits 8 1 d m p else p) = masked p d m"
proof (cases "m \<noteq> 0 \<and> d \<noteq> p")
  case True
  have "update_bits 8 (push_bit 0 1) d m p = masked p d m"
    by (intro maskedI) (simp add: update_bits_ok [of 0 8] del: push_bit_of_1 push_bit_0_id)
  then show ?thesis using True by simp
qed (auto simp: masked_same)

lemma updateDomain_ok: "length ds = n \<Longrightarrow> length ms = n \<Longrightarrow> length ps = n \<Longrightarrow> updateDomain n ds ms ps = Inr (masked_all ps ds ms)"
proof (induction n arbitrary: ds ms ps)
  case (Suc n)
  then obtain d ds' m ms' p ps' where "ds = d # ds'" "ms = m # ms'" "ps = p # ps'" by (auto simp: length_Suc_conv)
  then show ?case using Suc by (simp only: updateDomain.simps update_octet) (simp add: masked_all_def)
qed (simp add: masked_all_def)

text \<open>Outputs that can be sent: they exist, their direction is known and they lie inside the image.\<close>

definition sendable_output :: "io \<Rightarrow> nat \<Rightarrow> bool" where
  "sendable_output w c \<longleftrightarrow> (\<exists>x d. components w c = Some x \<and> direction x = Some d \<and> inside (address x) (max_offset w + 1))"

definition output_bits :: "io \<Rightarrow> nat list \<Rightarrow> nat set" where
  "output_bits w cs = (\<Union>c \<in> set cs. case components w c of None \<Rightarrow> {} | Some x \<Rightarrow> if direction x = Some DirInput then {} else bits_of (address x))"

lemma update_masks_ok:
  assumes "\<forall>c \<in> set cs. sendable_output w c" "length b = max_offset w + 1"
  shows "\<exists>b' o'. update_masks cs w b = Inr (b', w\<lparr>updated_out := o'\<rparr>) \<and> length b' = length b \<and>
    (\<forall>i < 8 * length b. getbit b' i = (getbit b i \<or> i \<in> output_bits w cs))"
  using assms
proof (induction cs arbitrary: w b)
  case Nil
  show ?case by (intro exI [of _ b] exI [of _ "updated_out w"]) (simp add: output_bits_def)
next
  case (Cons c cs)
  then obtain x d where x: "components w c = Some x" "direction x = Some d" "inside (address x) (length b)"
    by (auto simp: sendable_output_def)
  define w1 where "w1 = (if ownersEnabled x w then w else w\<lparr>updated_out := removeAll c (updated_out w)\<rparr>)"
  have w1: "max_offset w1 = max_offset w" "components w1 = components w" "w1\<lparr>updated_out := o'\<rparr> = w\<lparr>updated_out := o'\<rparr>" for o'
    by (simp_all add: w1_def)
  have s1: "\<forall>c \<in> set cs. sendable_output w1 c" using Cons.prems(1) by (simp add: sendable_output_def w1)
  obtain b1 where b1: "(if d = DirInput then Inr b else add_to_mask (address x) b) = Inr b1" "length b1 = length b"
    "\<forall>i < 8 * length b. getbit b1 i = (getbit b i \<or> d \<noteq> DirInput \<and> i \<in> bits_of (address x))"
    using add_to_mask_ok [OF x(3)] by (cases "d = DirInput") auto
  obtain b' o' where r: "update_masks cs w1 b1 = Inr (b', w\<lparr>updated_out := o'\<rparr>)" "length b' = length b"
    "\<forall>i < 8 * length b. getbit b' i = (getbit b1 i \<or> i \<in> output_bits w cs)"
    using Cons.IH [OF s1, of b1] Cons.prems(2) b1(2) by (auto simp: w1 output_bits_def)
  have "update_masks (c # cs) w b = Inr (b', w\<lparr>updated_out := o'\<rparr>)"
    using r(1) b1(1) by (simp add: get_comp_def x w1_def [symmetric] Let_def split: if_split_asm)
  moreover have "output_bits w (c # cs) = (if d = DirInput then {} else bits_of (address x)) \<union> output_bits w cs"
    by (simp add: output_bits_def x)
  then have "\<forall>i < 8 * length b. getbit b' i = (getbit b i \<or> i \<in> output_bits w (c # cs))" using r(3) b1(3) by auto
  ultimately show ?case using r(2) by (intro exI conjI)
qed

lemma getbit_zeros: "i < 8 * n \<Longrightarrow> \<not> getbit (replicate n 0) i"
  by (simp add: getbit_def)

lemma send_updates_ok:
  assumes "updated_out w \<noteq> []" "\<forall>c \<in> set (updated_out w). sendable_output w c" "process_data w = Some pd" "update_data w = Some u"
    "length u = max_offset w + 1" "min_offset w = 0"
  shows "\<exists>upd w1 m w2. getUpdates w = Inr (Some upd, w1) \<and> send_update upd w1 = Inr ((length u, u, m), w2) \<and> length m = length u \<and>
    updates_sent w2 \<and> (\<forall>i < 8 * length u. getbit m i = (i \<in> output_bits w (updated_out w)))"
proof -
  obtain b o' where m: "update_masks (updated_out w) w (replicate (max_offset w + 1) 0) = Inr (b, w\<lparr>updated_out := o'\<rparr>)"
    "length b = length (replicate (max_offset w + 1) (0 :: 8 word))"
    "\<forall>i < 8 * length (replicate (max_offset w + 1) (0 :: 8 word)).
       getbit b i = (getbit (replicate (max_offset w + 1) 0) i \<or> i \<in> output_bits w (updated_out w))"
    using update_masks_ok [OF assms(2) length_replicate [of "max_offset w + 1" 0]] by blast
  have b: "length b = length u" "\<forall>i < 8 * length u. getbit b i = (i \<in> output_bits w (updated_out w))"
    using m(2,3) assms(5) getbit_zeros by (simp_all del: replicate_Suc)
  have "getUpdates w = Inr (Some \<lparr>upd_size = length u, upd_data = u, upd_mask = b\<rparr>, w\<lparr>updated_out := o'\<rparr>)"
    using assms m(1) by (simp add: getUpdates_def generateUpdateMask_def getUpdateData_def del: replicate_Suc)
  moreover have "send_update \<lparr>upd_size = length u, upd_data = u, upd_mask = b\<rparr> (w\<lparr>updated_out := o'\<rparr>)
      = Inr ((length u, u, b), w\<lparr>updated_out := o', updates_sent := True\<rparr>)"
    using b(1) by (simp add: send_update_def field_def)
  ultimately show ?thesis using b by (intro exI conjI) (assumption | simp)+
qed

section \<open>Values\<close>

text \<open>What is known of the macros of the EtherCAT library: a field that is written is read back.\<close>

definition ec_ok :: "ec_access \<Rightarrow> bool" where
  "ec_ok ec \<longleftrightarrow> (\<forall>v. length (write_u16 ec v) = 2 \<and> read_u16 ec (write_u16 ec v) = v) \<and>
     (\<forall>v. length (write_u32 ec v) = 4 \<and> read_u32 ec (write_u32 ec v) = v)"

definition stored :: "nat \<Rightarrow> 32 word \<Rightarrow> 32 word" where
  "stored n v = (if n = 8 then scast (ucast v :: 8 word) else if n = 16 then ucast (ucast v :: 16 word) else v)"

definition whole_octets :: "io_address \<Rightarrow> bool" where
  "whole_octets a \<longleftrightarrow> first_bit a = 0 \<and> (bitlen a = 8 \<or> bitlen a = 16 \<or> bitlen a = 32)"

lemma write_then_read:
  assumes "ec_ok ec" "whole_octets a" "inside a (length b)"
  shows "\<exists>b'. write_value ec a v b = Inr b' \<and> length b' = length b \<and> read_value ec a b' = Inr (stored (bitlen a) v)"
proof -
  have "8 * first_octet a + bitlen a \<le> 8 * length b" using assms(2,3) by (simp add: inside_def whole_octets_def)
  then show ?thesis using assms(1,2)
    by (auto simp: write_value_def read_value_def put_field_def octet_def field_def stored_def ec_ok_def whole_octets_def nth_append)
qed

lemma field_cong:
  assumes "length b = length b'" "\<forall>k. i \<le> k \<and> k < i + n \<longrightarrow> b ! k = b' ! k"
  shows "field b i n = field b' i n"
proof (cases "i + n \<le> length b")
  case True
  have "take n (drop i b) = take n (drop i b')" using assms True by (intro nth_equalityI) auto
  then show ?thesis using assms(1) by (simp add: field_def)
qed (use assms(1) in \<open>simp add: field_def\<close>)

lemma read_value_cong:
  assumes "whole_octets a" "length b = length b'" "\<forall>k. first_octet a \<le> k \<and> k < first_octet a + bitlen a div 8 \<longrightarrow> b ! k = b' ! k"
  shows "read_value ec a b = read_value ec a b'"
  using assms field_cong [of b b' "first_octet a" 2] field_cong [of b b' "first_octet a" 4]
  by (auto simp: read_value_def whole_octets_def octet_def)

lemma masked_all_nth: "i < length qs \<Longrightarrow> length ps = length qs \<Longrightarrow> length ms = length qs \<Longrightarrow> masked_all qs ps ms ! i = masked (qs ! i) (ps ! i) (ms ! i)"
  by (simp add: masked_all_def)

lemma full_mask: "\<forall>j < 8. getbit m (8 * i + j) \<Longrightarrow> masked q p (m ! i) = p"
  by (rule maskedI [symmetric]) (simp add: getbit_def)

lemma getUpdateData_ok:
  assumes "process_data w = Some pd" "length pd = process_data_size w" "\<forall>u. update_data w = Some u \<longrightarrow> length u = process_data_size w"
  shows "\<exists>u. getUpdateData w = Inr (u, w\<lparr>update_data := Some u\<rparr>) \<and> length u = process_data_size w"
proof (cases "update_data w")
  case None
  then show ?thesis using assms(1,2) by (simp add: getUpdateData_def mem_copy_ok)
next
  case (Some u)
  then have "w\<lparr>update_data := Some u\<rparr> = w" by simp
  then show ?thesis using assms(1,3) Some by (simp add: getUpdateData_def)
qed

lemma setValue_ok:
  assumes "ec_ok ec" "whole_octets (address x)" "inside (address x) (process_data_size w)" "components w c = Some x"
    "is_signed (address x) = s" "process_data w = Some pd" "length pd = process_data_size w"
    "\<forall>u. update_data w = Some u \<longrightarrow> length u = process_data_size w"
  shows "\<exists>u. setValue_io ec s v c w = Inr ((put_comp c (x\<lparr>pending_value := Some v, last_event := e_none\<rparr>) w)\<lparr>
      updated_out := List.insert c (updated_out w), updates_sent := False, outputs_waiting := outputs_waiting w + 1, update_data := Some u\<rparr>) \<and>
    length u = process_data_size w \<and> read_value ec (address x) u = Inr (stored (bitlen (address x)) v)"
proof -
  define x1 where "x1 = x\<lparr>pending_value := Some v, last_event := e_change\<rparr>"
  define w1 where "w1 = (put_comp c x1 w)\<lparr>updated_out := List.insert c (updated_out w), updates_sent := False,
       outputs_waiting := outputs_waiting w + 1\<rparr>"
  have f: "process_data w1 = process_data w" "process_data_size w1 = process_data_size w" "update_data w1 = update_data w"
    by (simp_all add: w1_def put_comp_def)
  obtain u0 where u0: "getUpdateData w1 = Inr (u0, w1\<lparr>update_data := Some u0\<rparr>)" "length u0 = process_data_size w"
    using getUpdateData_ok [of w1] assms(6-8) f by auto
  obtain u where u: "write_value ec (address x) v u0 = Inr u" "length u = process_data_size w"
    "read_value ec (address x) u = Inr (stored (bitlen (address x)) v)"
    using write_then_read [OF assms(1,2), of u0] assms(3) u0(2) by auto
  have "setValue_io ec s v c w = markChange ec c w1"
    using assms(4,5) by (simp add: setValue_io_def request_output_def get_comp_def w1_def x1_def)
  also have "markChange ec c w1 = Inr ((put_comp c (x1\<lparr>last_event := e_none\<rparr>) (w1\<lparr>update_data := Some u0\<rparr>))\<lparr>update_data := Some u, updates_sent := False\<rparr>)"
    using u0(1) u(1) assms(2) by (auto simp: markChange_def get_comp_def w1_def put_comp_def x1_def whole_octets_def Let_def)
  also have "(put_comp c (x1\<lparr>last_event := e_none\<rparr>) (w1\<lparr>update_data := Some u0\<rparr>))\<lparr>update_data := Some u, updates_sent := False\<rparr> =
    (put_comp c (x\<lparr>pending_value := Some v, last_event := e_none\<rparr>) w)\<lparr>
      updated_out := List.insert c (updated_out w), updates_sent := False, outputs_waiting := outputs_waiting w + 1, update_data := Some u\<rparr>"
    by (simp add: w1_def put_comp_def x1_def)
  finally show ?thesis using u by blast
qed

lemma getbit_masked_all:
  assumes "i < 8 * length qs" "length ps = length qs" "length ms = length qs"
  shows "getbit (masked_all qs ps ms) i = (if getbit ms i then getbit ps i else getbit qs i)"
  using assms by (simp add: getbit_def masked_all_nth bit_masked)

text \<open>
  Claim C22. An output reaches the fieldbus. A value that is set on an output of 8, 16 or 32 bits is marked in the
  update data; the update that is then collected and sent, applied to the domain of the fieldbus, makes the octets of
  the output read as this value (sign extended from 8 bits, zero extended from 16), and changes no bit
  of the domain that does not belong to an output waiting to be sent.
\<close>

theorem output_reaches_fieldbus:
  assumes "ec_ok ec" "process_data w = Some pd" "length pd = process_data_size w" "max_offset w + 1 = process_data_size w" "min_offset w = 0"
    "\<forall>u. update_data w = Some u \<longrightarrow> length u = process_data_size w" "\<forall>d \<in> set (updated_out w). sendable_output w d"
    "components w c = Some x" "direction x = Some d" "d \<noteq> DirInput" "whole_octets (address x)" "inside (address x) (process_data_size w)"
    "is_signed (address x) = s" "length bus = process_data_size w"
  shows "\<exists>w1 upd w2 u m w3 bus'. setValue_io ec s v c w = Inr w1 \<and> getUpdates w1 = Inr (Some upd, w2) \<and>
    send_update upd w2 = Inr ((process_data_size w, u, m), w3) \<and> updateDomain (process_data_size w) u m bus = Inr bus' \<and>
    read_value ec (address x) bus' = Inr (stored (bitlen (address x)) v) \<and>
    (\<forall>i < 8 * process_data_size w. i \<notin> output_bits w (List.insert c (updated_out w)) \<longrightarrow> getbit bus' i = getbit bus i)"
proof -
  define n where "n = process_data_size w"
  define x1 where "x1 = x\<lparr>pending_value := Some v, last_event := e_none\<rparr>"
  obtain u where u: "setValue_io ec s v c w = Inr ((put_comp c x1 w)\<lparr>updated_out := List.insert c (updated_out w), updates_sent := False,
      outputs_waiting := outputs_waiting w + 1, update_data := Some u\<rparr>)" "length u = n" "read_value ec (address x) u = Inr (stored (bitlen (address x)) v)"
    using setValue_ok [OF assms(1,11,12,8,13,2,3,6)] unfolding n_def x1_def by blast
  define w1 where "w1 = (put_comp c x1 w)\<lparr>updated_out := List.insert c (updated_out w), updates_sent := False,
      outputs_waiting := outputs_waiting w + 1, update_data := Some u\<rparr>"
  have f: "components w1 = (components w)(c \<mapsto> x1)" "updated_out w1 = List.insert c (updated_out w)" "max_offset w1 + 1 = n"
    "min_offset w1 = 0" "process_data w1 = Some pd" "update_data w1 = Some u"
    using assms(2,4,5) by (simp_all add: w1_def put_comp_def n_def)
  have x1: "address x1 = address x" "direction x1 = Some d" using assms(9) by (simp_all add: x1_def)
  have ob: "output_bits w1 cs = output_bits w cs" for cs
    unfolding output_bits_def f(1) using assms(8,9) x1 by (intro SUP_cong refl) simp
  have "\<forall>d \<in> set (updated_out w1). sendable_output w1 d"
    using assms(4,7,12) f x1 by (auto simp: sendable_output_def n_def)
  moreover have "updated_out w1 \<noteq> []" using f(2) by (auto simp: List.insert_def)
  ultimately obtain upd w2 m w3 where g: "getUpdates w1 = Inr (Some upd, w2)" "send_update upd w2 = Inr ((n, u, m), w3)" "length m = n"
    "\<forall>i < 8 * n. getbit m i = (i \<in> output_bits w (List.insert c (updated_out w)))"
    using send_updates_ok [of w1 pd u] f u(2) by (auto simp: ob)
  have bus: "updateDomain n u m bus = Inr (masked_all bus u m)"
    using u(2) g(3) assms(14) by (intro updateDomain_ok) (simp_all add: n_def)
  have "masked_all bus u m ! k = u ! k" if k: "first_octet (address x) \<le> k \<and> k < first_octet (address x) + bitlen (address x) div 8" for k
  proof -
    have b: "8 * k + j \<in> bits_of (address x)" "8 * k + j < 8 * n" if "j < 8" for j
      using k that assms(11,12) by (auto simp: bits_of_def inside_def whole_octets_def n_def)
    then have "8 * k + j \<in> output_bits w (List.insert c (updated_out w))" if "j < 8" for j
      using that assms(8-10) by (auto simp: output_bits_def)
    then have "masked (bus ! k) (u ! k) (m ! k) = u ! k" using g(4) b(2) by (intro full_mask) auto
    moreover have "k < n" using b(2) [of 0] by simp
    ultimately show ?thesis using u(2) g(3) assms(14) by (simp add: masked_all_nth n_def)
  qed
  then have "read_value ec (address x) (masked_all bus u m) = Inr (stored (bitlen (address x)) v)"
    using read_value_cong [OF assms(11), of "masked_all bus u m" u] u(2,3) g(3) assms(14) by (simp add: masked_all_length n_def)
  moreover have "\<forall>i < 8 * n. i \<notin> output_bits w (List.insert c (updated_out w)) \<longrightarrow> getbit (masked_all bus u m) i = getbit bus i"
    using g(3,4) u(2) assms(14) by (simp add: getbit_masked_all n_def)
  ultimately show ?thesis using u(1) g(1,2) bus unfolding w1_def [symmetric] n_def by blast
qed

text \<open>Fields in little endian order.\<close>

definition example_ec :: ec_access where
  "example_ec = \<lparr>read_u16 = \<lambda>b. ucast (b ! 0) OR push_bit 8 (ucast (b ! 1)),
     write_u16 = \<lambda>v. [ucast v, ucast (drop_bit 8 v)],
     read_u32 = \<lambda>b. ucast (b ! 0) OR push_bit 8 (ucast (b ! 1)) OR push_bit 16 (ucast (b ! 2)) OR push_bit 24 (ucast (b ! 3)),
     write_u32 = \<lambda>v. [ucast v, ucast (drop_bit 8 v), ucast (drop_bit 16 v), ucast (drop_bit 24 v)]\<rparr>"

lemma little_endian: "ucast (ucast v :: 8 word) OR push_bit 8 (ucast (ucast (drop_bit 8 v) :: 8 word)) OR
    push_bit 16 (ucast (ucast (drop_bit 16 v) :: 8 word)) OR push_bit 24 (ucast (ucast (drop_bit 24 v) :: 8 word)) = v" for v :: "32 word"
proof (rule bit_word_eqI)
  fix n
  assume "n < LENGTH(32)"
  then consider "n < 8" | "8 \<le> n" "n < 16" | "16 \<le> n" "n < 24" | "24 \<le> n" "n < 32" by fastforce
  then show "bit (ucast (ucast v :: 8 word) OR push_bit 8 (ucast (ucast (drop_bit 8 v) :: 8 word)) OR
    push_bit 16 (ucast (ucast (drop_bit 16 v) :: 8 word)) OR push_bit 24 (ucast (ucast (drop_bit 24 v) :: 8 word)) :: 32 word) n = bit v n"
    by cases (auto simp: bit_simps)
qed

lemma example_ec_ok: "ec_ok example_ec"
proof -
  have "ucast (ucast v :: 8 word) OR push_bit 8 (ucast (ucast (drop_bit 8 v) :: 8 word)) = v" for v :: "16 word"
    by (intro bit_word_eqI) (auto simp: bit_simps not_less)
  then show ?thesis by (simp add: ec_ok_def example_ec_def little_endian)
qed

definition example_output :: io_comp where
  "example_output = \<lparr>io_name = ''out'', address = \<lparr>module_position = 1, io_offset = 1, io_bitpos = 0, io_value = 0,
       bitlen = 16, entry_position = 0, is_signed = False, description = ''out''\<rparr>, last_event = e_none, pending_value = None,
       raw_value = 0, read_time = None, direction = Some DirOutput, io_index = 8, io_kind = IO_AnalogueOutput, owners = []\<rparr>"

definition example_out_io :: io where
  "example_out_io = example_io\<lparr>components := [0 \<mapsto> example_output], process_data_size := 3, process_data := Some [1, 2, 3], max_offset := 2\<rparr>"

theorem output_reaches_fieldbus_witness:
  "\<exists>w1 upd w2 u m w3 bus'. setValue_io example_ec False 0x1234 0 example_out_io = Inr w1 \<and> getUpdates w1 = Inr (Some upd, w2) \<and>
    send_update upd w2 = Inr ((3, u, m), w3) \<and> updateDomain 3 u m [7, 0, 0] = Inr bus' \<and>
    read_value example_ec (address example_output) bus' = Inr 0x1234"
proof -
  have a: "process_data example_out_io = Some [1, 2, 3]" "process_data_size example_out_io = 3" "max_offset example_out_io = 2"
    "min_offset example_out_io = 0" "update_data example_out_io = None" "updated_out example_out_io = []"
    "components example_out_io 0 = Some example_output"
    by (simp_all add: example_out_io_def example_io_def)
  have b: "direction example_output = Some DirOutput" "whole_octets (address example_output)" "inside (address example_output) 3"
    "is_signed (address example_output) = False" "bitlen (address example_output) = 16"
    by (simp_all add: example_output_def whole_octets_def inside_def first_octet_def first_bit_def)
  have "stored 16 0x1234 = 0x1234" by (simp add: stored_def)
  then show ?thesis
    using output_reaches_fieldbus [OF example_ec_ok a(1) _ _ a(4) _ _ a(7) b(1) _ b(2) _ b(4), of "[7, 0, 0]" "0x1234"] a(2,3,5,6) b(3,5)
    by auto
qed

end
