(* ===== verification/Cw_IOMap.thy ===== *)
theory Cw_IOMap
  imports Cw_Outputs
begin

unbundle bit_operations_syntax

text \<open>
  The map of the process image that \<open>setupIOMap\<close> builds, and where the reading of values goes wrong.
\<close>

section \<open>The map\<close>

definition aligned :: "io_address \<Rightarrow> bool" where
  "aligned a \<longleftrightarrow> io_bitpos a < 8 \<and> 0 < bitlen a \<and> (io_bitpos a + bitlen a \<le> 8 \<or> io_bitpos a = 0 \<and> 8 dvd bitlen a)"

lemma aligned_inside:
  assumes "aligned a" "last_octet a < n"
  shows "inside a n" "first_octet a < n" "first_octet a * 8 + io_bitpos a = 8 * first_octet a + first_bit a"
proof -
  have b: "first_bit a = io_bitpos a" "first_octet a = io_offset a" using assms(1) by (simp_all add: aligned_def first_bit_def first_octet_def)
  show "first_octet a < n" using assms(2) by (simp add: last_octet_def split: if_split_asm)
  show "first_octet a * 8 + io_bitpos a = 8 * first_octet a + first_bit a" using b by simp
  show "inside a n"
  proof (cases "8 \<le> bitlen a")
    case True
    then have "io_bitpos a = 0" "bitlen a = 8 \<or> 8 dvd bitlen a" using assms(1) by (auto simp: aligned_def)
    then show ?thesis using True assms(2) b by (auto simp: inside_def last_octet_def dvd_def)
  next
    case False
    then show ?thesis using assms b by (auto simp: inside_def last_octet_def aligned_def)
  qed
qed

definition mappable :: "io \<Rightarrow> nat \<Rightarrow> bool" where
  "mappable w c \<longleftrightarrow> (\<exists>x. components w c = Some x \<and> io_name x \<noteq> [] \<and> aligned (address x) \<and> last_octet (address x) < 10000)"

abbreviation addr_of :: "io \<Rightarrow> nat \<Rightarrow> io_address" where
  "addr_of w c \<equiv> address (the (components w c))"

lemma offsets_ok:
  assumes "\<forall>c \<in> set cs. mappable w c" "hi < 10000"
  shows "\<exists>lo' hi'. offsets cs w lo hi = Inr (lo', hi') \<and> hi' < 10000 \<and> hi \<le> hi' \<and> (\<forall>c \<in> set cs. last_octet (addr_of w c) \<le> hi')"
  using assms
proof (induction cs arbitrary: lo hi)
  case (Cons c cs)
  then obtain x where x: "components w c = Some x" "last_octet (address x) < 10000" by (auto simp: mappable_def)
  then show ?case
    using Cons.IH [of "max hi (last_octet (address x))" "min lo (first_octet (address x))"] Cons.prems
    by (auto simp: get_comp_def Let_def guardr_def)
qed simp

lemma index_bits_ok:
  "i + n \<le> length ix \<Longrightarrow> \<exists>ix'. index_bits c i n ix = Inr ix' \<and> length ix' = length ix \<and>
     (\<forall>k < length ix. ix' ! k = (if i \<le> k \<and> k < i + n then Some c else ix ! k))"
proof (induction n arbitrary: i ix)
  case (Suc n)
  then obtain ix' where "index_bits c (Suc i) n (ix[i := Some c]) = Inr ix'" "length ix' = length ix"
    "\<forall>k < length ix. ix' ! k = (if Suc i \<le> k \<and> k < Suc i + n then Some c else ix[i := Some c] ! k)"
    using Suc.IH [of "Suc i" "ix[i := Some c]"] by auto
  then show ?case using Suc.prems by (auto simp: nth_list_update)
qed auto

text \<open>The entries of the list of components per octet.\<close>

definition mapped :: "nat list option list \<Rightarrow> nat set" where
  "mapped mp = (\<Union>e \<in> set mp. case e of None \<Rightarrow> {} | Some cs \<Rightarrow> set cs)"

lemma mapped_update: "mapped (mp[i := Some cs]) \<subseteq> mapped mp \<union> set cs"
  using set_update_subset_insert [of mp i "Some cs"] unfolding mapped_def by fastforce

lemma map_component_ok: "i < length mp \<Longrightarrow> \<exists>mp'. map_component c i mp = Inr mp' \<and> length mp' = length mp \<and> mapped mp' \<subseteq> insert c (mapped mp)"
proof -
  assume i: "i < length mp"
  define cs where "cs = (case mp ! i of None \<Rightarrow> [] | Some cs \<Rightarrow> cs)"
  have "set cs \<subseteq> mapped mp" using i nth_mem [of i mp] by (fastforce simp: cs_def mapped_def split: option.splits)
  then have "mapped (mp[i := Some (cs @ [c])]) \<subseteq> insert c (mapped mp)" using mapped_update [of mp i "cs @ [c]"] by auto
  then show ?thesis using i by (simp add: map_component_def cs_def)
qed

lemma index_all_ok:
  assumes "\<forall>c \<in> set cs. mappable w c \<and> last_octet (addr_of w c) < length mp" "length ix = 8 * length mp" "distinct cs"
    "\<forall>c \<in> set cs. \<forall>d \<in> set cs. c \<noteq> d \<longrightarrow> bits_of (addr_of w c) \<inter> bits_of (addr_of w d) = {}"
  shows "\<exists>ix' mp'. index_all cs w (ix, mp) = Inr (ix', mp') \<and> length ix' = length ix \<and> length mp' = length mp \<and>
    mapped mp' \<subseteq> set cs \<union> mapped mp \<and> (\<forall>c \<in> set cs. \<forall>k \<in> bits_of (addr_of w c). k < length ix \<and> ix' ! k = Some c) \<and>
    (\<forall>k < length ix. (\<forall>c \<in> set cs. k \<notin> bits_of (addr_of w c)) \<longrightarrow> ix' ! k = ix ! k)"
  using assms
proof (induction cs arbitrary: ix mp)
  case (Cons c cs)
  then obtain x where x: "components w c = Some x" "io_name x \<noteq> []" "aligned (address x)" "last_octet (address x) < length mp"
    by (auto simp: mappable_def)
  have a: "first_octet (address x) * 8 + io_bitpos (address x) = 8 * first_octet (address x) + first_bit (address x)"
    "inside (address x) (length mp)" "first_octet (address x) < length mp"
    using aligned_inside [OF x(3,4)] by simp_all
  obtain ix1 where ix1: "index_bits c (first_octet (address x) * 8 + io_bitpos (address x)) (bitlen (address x)) ix = Inr ix1"
    "length ix1 = length ix" "\<forall>k < length ix. ix1 ! k = (if k \<in> bits_of (address x) then Some c else ix ! k)"
    using index_bits_ok [of "8 * first_octet (address x) + first_bit (address x)" "bitlen (address x)" ix c] a Cons.prems(2)
    by (auto simp: inside_def bits_of_def)
  obtain mp1 where mp1: "map_component c (first_octet (address x)) mp = Inr mp1" "length mp1 = length mp" "mapped mp1 \<subseteq> insert c (mapped mp)"
    using map_component_ok [OF a(3)] by blast
  obtain ix' mp' where r: "index_all cs w (ix1, mp1) = Inr (ix', mp')" "length ix' = length ix1" "length mp' = length mp1"
    "mapped mp' \<subseteq> set cs \<union> mapped mp1" "\<forall>c \<in> set cs. \<forall>k \<in> bits_of (addr_of w c). k < length ix1 \<and> ix' ! k = Some c"
    "\<forall>k < length ix1. (\<forall>c \<in> set cs. k \<notin> bits_of (addr_of w c)) \<longrightarrow> ix' ! k = ix1 ! k"
    using Cons.IH [of mp1 ix1] Cons.prems mp1(2) ix1(2) by auto
  have b: "k < length ix" if "k \<in> bits_of (address x)" for k
    using that a(2) Cons.prems(2) by (simp add: bits_of_def inside_def)
  have d: "\<forall>d \<in> set cs. k \<notin> bits_of (addr_of w d)" if "k \<in> bits_of (address x)" for k
    using Cons.prems(3,4) that x(1) by fastforce
  have "index_all (c # cs) w (ix, mp) = Inr (ix', mp')" using r(1) ix1(1) mp1(1) by (simp add: get_comp_def x Let_def)
  moreover have "\<forall>e \<in> set (c # cs). \<forall>k \<in> bits_of (addr_of w e). k < length ix \<and> ix' ! k = Some e"
    using r(5,6) b d ix1(2,3) x(1) by auto
  moreover have "\<forall>k < length ix. (\<forall>e \<in> set (c # cs). k \<notin> bits_of (addr_of w e)) \<longrightarrow> ix' ! k = ix ! k"
    using r(6) ix1(2,3) x(1) by auto
  ultimately show ?case using r(2-4) ix1(2) mp1(2,3) by (intro exI conjI) (assumption | auto)+
qed simp

lemma add_masks_ok:
  assumes "\<forall>c \<in> set cs. mappable w c \<and> last_octet (addr_of w c) < length b"
  shows "\<exists>b'. add_masks cs w b = Inr b' \<and> length b' = length b \<and>
    (\<forall>i < 8 * length b. getbit b' i = (getbit b i \<or> (\<exists>c \<in> set cs. i \<in> bits_of (addr_of w c))))"
  using assms
proof (induction cs arbitrary: b)
  case (Cons c cs)
  then obtain x where x: "components w c = Some x" "aligned (address x)" "last_octet (address x) < length b" by (auto simp: mappable_def)
  obtain b1 where b1: "add_to_mask (address x) b = Inr b1" "length b1 = length b"
    "\<forall>i < 8 * length b. getbit b1 i = (getbit b i \<or> i \<in> bits_of (address x))"
    using add_to_mask_ok [OF aligned_inside(1) [OF x(2,3)]] by blast
  obtain b' where "add_masks cs w b1 = Inr b'" "length b' = length b"
    "\<forall>i < 8 * length b. getbit b' i = (getbit b1 i \<or> (\<exists>c \<in> set cs. i \<in> bits_of (addr_of w c)))"
    using Cons.IH [of b1] Cons.prems b1(2) by auto
  then show ?case using b1 x(1) by (auto simp: get_comp_def)
qed simp

text \<open>
  Claim C23. The map of the process image. For components that are aligned (inside one octet, or whole octets), do not overlap
  and lie below octet 10000, \<open>setupIOMap\<close> succeeds and leaves a usable image: every bit of a component leads to this
  component, a bit that belongs to no component leads to none, and the process mask marks exactly
  the bits of the components.
\<close>

theorem map_of_the_image:
  assumes "\<forall>c \<in> set (processing_queue w). mappable w c" "distinct (processing_queue w)"
    "\<forall>c \<in> set (processing_queue w). \<forall>d \<in> set (processing_queue w). c \<noteq> d \<longrightarrow> bits_of (addr_of w c) \<inter> bits_of (addr_of w d) = {}"
    "process_mask w = None" "last_process_data w = None" "updated_in w = []" "updated_out w = []"
  shows "\<exists>w'. setupIOMap w = Inr w' \<and> image_ok w' \<and> components w' = components w \<and>
    process_data w' = Some (replicate (process_data_size w') 0) \<and>
    (\<forall>c \<in> set (processing_queue w). \<forall>i \<in> bits_of (addr_of w c). i < 8 * process_data_size w' \<and> index_of w' ! i = Some c) \<and>
    (\<forall>i < 8 * process_data_size w'.
       (getbit (the (process_mask w')) i \<longleftrightarrow> (\<exists>c \<in> set (processing_queue w). i \<in> bits_of (addr_of w c))) \<and>
       (getbit (the (process_mask w')) i \<or> index_of w' ! i = None))"
proof -
  define q where "q = processing_queue w"
  obtain lo hi where o: "offsets q w 1000000 0 = Inr (lo, hi)" "\<forall>c \<in> set q. last_octet (addr_of w c) \<le> hi"
    using offsets_ok [OF assms(1), of 0 1000000] by (auto simp: q_def)
  define n where "n = hi + 1"
  define w1 where "w1 = w\<lparr>max_offset := hi, min_offset := min lo hi, process_data_size := n, process_data := Some (replicate n 0)\<rparr>"
  have c1: "components w1 = components w" "processing_queue w1 = q" by (simp_all add: w1_def q_def)
  have m1: "\<forall>c \<in> set q. mappable w1 c \<and> last_octet (addr_of w1 c) < n"
    using assms(1) o(2) by (auto simp: mappable_def c1 q_def n_def)
  obtain ix mp where i: "index_all q w1 (replicate (n * 8) None, replicate n None) = Inr (ix, mp)" "length ix = n * 8" "length mp = n"
    "mapped mp \<subseteq> set q" "\<forall>c \<in> set q. \<forall>k \<in> bits_of (addr_of w c). k < n * 8 \<and> ix ! k = Some c"
    "\<forall>k < n * 8. (\<forall>c \<in> set q. k \<notin> bits_of (addr_of w c)) \<longrightarrow> ix ! k = None"
    using index_all_ok [of q w1 "replicate n None" "replicate (n * 8) None"] m1 assms(2,3) by (auto simp: c1 q_def mapped_def)
  define w2 where "w2 = w1\<lparr>indexed_components := Some ix, io_map := mp\<rparr>"
  have m2: "\<forall>c \<in> set q. mappable w2 c \<and> last_octet (addr_of w2 c) < length (replicate n (0 :: 8 word))"
    using m1 by (simp add: mappable_def w2_def)
  obtain b where b: "add_masks q w2 (replicate n 0) = Inr b" "length b = n"
    "\<forall>i < 8 * n. getbit b i = (\<exists>c \<in> set q. i \<in> bits_of (addr_of w c))"
    using add_masks_ok [OF m2] getbit_zeros [of _ n] by (auto simp: w2_def c1)
  define w3 where "w3 = w2\<lparr>process_mask := Some b\<rparr>"
  have "generateProcessMask (process_mask w2) n w2 = Inr b"
    using b(1) assms(4) c1(2) by (simp add: generateProcessMask_def mem_clear_def put_field_def w2_def w1_def n_def Let_def del: replicate_Suc)
  then have "setupIOMap w = Inr w3"
    unfolding setupIOMap_def q_def [symmetric] o(1) bindr.simps prod.case Let_def n_def [symmetric] w1_def [symmetric] c1(2) i(1) w2_def [symmetric]
    by (simp add: w3_def)
  moreover have "image_ok w3"
  proof -
    have "\<forall>c. Some c \<in> set ix \<longrightarrow> c \<in> set q" using i(2,6) by (metis in_set_conv_nth option.distinct(1) option.inject i(5))
    moreover have mp: "\<forall>cs. Some cs \<in> set mp \<longrightarrow> set cs \<subseteq> set q" using i(4) by (fastforce simp: mapped_def)
    moreover have e: "exist w q" using assms(1) by (auto simp: mappable_def q_def)
    moreover have "\<forall>cs. Some cs \<in> set mp \<longrightarrow> exist w cs" using mp e by blast
    ultimately show ?thesis using i(2,3) assms(5-7) by (auto simp: image_ok_def map_ok_def w3_def w2_def w1_def n_def)
  qed
  moreover have "components w3 = components w" "process_data_size w3 = n" "process_data w3 = Some (replicate n 0)" "index_of w3 = ix" "process_mask w3 = Some b"
    by (simp_all add: w3_def w2_def w1_def)
  ultimately show ?thesis using i(5,6) [unfolded mult.commute [of n 8]] b(3) unfolding q_def [symmetric] by (intro exI [of _ w3] conjI) auto
qed

definition example_outputs :: io where
  "example_outputs = example_io\<lparr>components := [0 \<mapsto> example_output], processing_queue := [0], process_mask := None, last_process_data := None\<rparr>"

theorem map_of_the_image_witness:
  "\<exists>w'. setupIOMap example_outputs = Inr w' \<and> image_ok w' \<and> index_of w' ! 23 = Some 0"
proof -
  have a: "components example_outputs 0 = Some example_output" "processing_queue example_outputs = [0]" "process_mask example_outputs = None"
    "last_process_data example_outputs = None" "updated_in example_outputs = []" "updated_out example_outputs = []"
    by (simp_all add: example_outputs_def example_io_def)
  have m: "mappable example_outputs 0" by (simp add: mappable_def a(1)) (simp add: example_output_def aligned_def last_octet_def first_octet_def)
  have "23 \<in> bits_of (address example_output)" by (simp add: bits_of_def example_output_def first_octet_def first_bit_def)
  then show ?thesis using map_of_the_image [of example_outputs] a m by auto
qed

section \<open>Small values\<close>

lemma and_bit: "k < 8 \<Longrightarrow> x AND push_bit k 1 = (if bit x k then push_bit k 1 else 0)" for x :: "8 word"
  by (intro bit_word_eqI) (auto simp: bit_simps)

lemma two_bits: "drop_bit 2 x AND 3 = (if bit x 3 then 2 else 0) + (if bit x 2 then 1 else 0)" for x :: "8 word"
proof (rule bit_word_eqI)
  fix n
  assume "n < LENGTH(8)"
  have "bit (3 :: 8 word) n = bit (mask 2 :: 8 word) n" by (simp add: mask_eq_exp_minus_1)
  also have "\<dots> = (n < 2)" using \<open>n < LENGTH(8)\<close> by (simp only: bit_mask_iff) simp
  finally have three: "bit (3 :: 8 word) n = (n < 2)" .
  then have "bit (drop_bit 2 x AND 3) n = (n < 2 \<and> bit x (2 + n))" using \<open>n < LENGTH(8)\<close> by (auto simp: bit_and_iff bit_drop_bit_eq)
  also have "\<dots> = bit ((if bit x 3 then 2 else 0) + (if bit x 2 then 1 else 0 :: 8 word)) n"
  proof -
    have "bit (2 :: 8 word) n = (n = 1)" "bit (1 :: 8 word) n = (n = 0)" using \<open>n < LENGTH(8)\<close> by (auto simp: bit_simps)
    then show ?thesis using three by (cases "n = 0"; cases "n = 1"; cases "bit x 3"; cases "bit x 2") (auto simp: numeral_3_eq_3 numeral_2_eq_2)
  qed
  finally show "bit (drop_bit 2 x AND 3) n = bit ((if bit x 3 then 2 else 0) + (if bit x 2 then 1 else 0 :: 8 word)) n" .
qed

text \<open>
  Claim C24. Values of fewer than eight bits are misread. The bits of a component are counted from the least
  significant bit of its octet, in the mask and in the map of the image, but \<open>handleChange\<close> collects the bits
  of a small value from bit 3 downwards: a value of two bits at bit 0 is read from bits 3 and 2, and a value
  of four bits at bit 0 is always read as 0.
\<close>

theorem small_values_are_misread:
  assumes "first_octet a < length b" "first_bit a = 0" "bitlen a = 2 \<or> bitlen a = 4"
  shows "read_value ec a b = Inr (if bitlen a = 2 then ucast (drop_bit 2 (b ! first_octet a) AND 3) else 0)"
proof -
  define x where "x = b ! first_octet a"
  have o: "octet b (first_octet a) = Inr x" using assms(1) by (simp add: octet_def x_def)
  have d: "x AND 8 = (if bit x 3 then 8 else 0)" "x AND 4 = (if bit x 2 then 4 else 0)" "x AND 2 = (if bit x 1 then 2 else 0)" "x AND 1 = (if bit x 0 then 1 else 0)"
    using and_bit [of 3 x] and_bit [of 2 x] and_bit [of 1 x] and_bit [of 0 x] by simp_all
  have n: "small_bits 2 b i m v = small_bits (Suc (Suc 0)) b i m v" "small_bits 4 b i m v = small_bits (Suc (Suc (Suc (Suc 0)))) b i m v"
    "shift_down 8 m v = shift_down (Suc (Suc (Suc (Suc (Suc (Suc (Suc (Suc 0)))))))) m v" for i m v
    by (simp_all add: eval_nat_numeral)
  show ?thesis using assms(2,3) unfolding x_def [symmetric]
    by (elim disjE) (simp_all add: read_value_def o d n two_bits Let_def)
qed

theorem small_values_are_misread_witness:
  "read_value example_ec \<lparr>module_position = 1, io_offset = 0, io_bitpos = 0, io_value = 0, bitlen = 4,
     entry_position = 0, is_signed = False, description = ''mode''\<rparr> [0x07] = Inr 0"
  by (rule small_values_are_misread [of _ "[0x07]", THEN trans]) (simp_all add: first_octet_def first_bit_def)

end
