(* ===== verification/Cw_Fieldbus.thy ===== *)
theory Cw_Fieldbus
  imports Cw_IOMap
begin

unbundle bit_operations_syntax

text \<open>
  A whole turn of the exchange with the fieldbus: \<open>ECInterface::collectState\<close> finds the bits that have
  changed, the EtherCAT thread sends them, and \<open>IOComponent::processAll\<close> takes them over.
\<close>

definition changed_octet :: "8 word \<Rightarrow> 8 word \<Rightarrow> 8 word \<Rightarrow> 8 word" where
  "changed_octet d l pm = (d XOR l) AND pm"

lemma bit_changed_octet: "bit (changed_octet d l pm) k = (bit pm k \<and> bit d k \<noteq> bit l k)"
  by (auto simp: changed_octet_def bit_simps)

lemma collect_bits_ok: "j + n = 8 \<Longrightarrow> k < 8 \<Longrightarrow>
    bit (fst (collect_bits n (push_bit j 1) d l pm um cnt)) k = (bit um k \<or> j \<le> k \<and> bit (changed_octet d l pm) k)"
proof (induction n arbitrary: j um cnt)
  case (Suc n)
  then have j: "j < 8" "Suc j + n = 8" by simp_all
  have "bit (um OR push_bit j 1) k = (bit um k \<or> k = j)" using j Suc.prems(2) by (auto simp: bit_simps)
  then show ?case
    unfolding collect_bits.simps(2) push_push and_push_eq [OF j(1)] and_push_zero [OF j(1)]
    using Suc.IH [OF j(2) Suc.prems(2)] j(1) by (auto simp: bit_changed_octet Suc_le_eq le_eq_less_or_eq)
qed simp

lemma collect_octet: "fst (if l \<noteq> d then collect_bits 8 1 d l pm 0 0 else (0, 0)) = changed_octet d l pm"
proof (rule bit_word_eqI)
  fix k
  assume k: "k < LENGTH(8)"
  have "bit (fst (collect_bits 8 (push_bit 0 1) d l pm 0 0)) k = bit (changed_octet d l pm) k"
    using collect_bits_ok [of 0 8 k d l pm 0 0] k by simp
  then show "bit (fst (if l \<noteq> d then collect_bits 8 1 d l pm 0 0 else (0, 0))) k = bit (changed_octet d l pm) k"
    by (simp add: bit_changed_octet)
qed

lemma collect_octets_ok:
  "n \<le> length ds \<Longrightarrow> n \<le> length ls \<Longrightarrow> n \<le> length pms \<Longrightarrow>
    \<exists>ms k. collect_octets n ds (Some ls) pms = Inr (ms, k) \<and> length ms = n \<and> (\<forall>i < n. ms ! i = changed_octet (ds ! i) (ls ! i) (pms ! i))"
proof (induction n arbitrary: ds ls pms)
  case (Suc n)
  obtain d ds' l ls' pm pms' where c: "ds = d # ds'" "ls = l # ls'" "pms = pm # pms'"
    using Suc.prems by (cases ds; cases ls; cases pms) auto
  obtain ms k where m: "collect_octets n ds' (Some ls') pms' = Inr (ms, k)" "length ms = n"
    "\<forall>i < n. ms ! i = changed_octet (ds' ! i) (ls' ! i) (pms' ! i)"
    using Suc.IH [of ds' ls' pms'] Suc.prems c by auto
  obtain um cnt where u: "(if l \<noteq> d then collect_bits 8 1 d l pm 0 0 else (0, 0)) = (um, cnt)" by (meson surj_pair)
  then have "um = changed_octet d l pm" using collect_octet [of l d pm] by (simp del: collect_bits.simps)
  then have "collect_octets (Suc n) ds (Some ls) pms = Inr (changed_octet d l pm # ms, k + cnt)"
    using m(1) u by (simp add: c del: collect_bits.simps)
  then show ?case using m(2,3) by (auto simp: c less_Suc_eq_0_disj)
qed simp

section \<open>Components by bits\<close>

lemma at_bits_getbit:
  "(\<Union>k < n. at_bits w k 0 (\<lambda>j. P (8 * k + j))) = {c. \<exists>i < 8 * n. P i \<and> index_of w ! i = Some c}"
proof (intro set_eqI iffI)
  fix c
  assume "c \<in> (\<Union>k < n. at_bits w k 0 (\<lambda>j. P (8 * k + j)))"
  then obtain k j where "k < n" "j < 8" "P (8 * k + j)" "index_of w ! (k * 8 + j) = Some c" by (auto simp: at_bits_def)
  then show "c \<in> {c. \<exists>i < 8 * n. P i \<and> index_of w ! i = Some c}" by (intro CollectI exI [of _ "8 * k + j"]) (auto simp: mult.commute)
next
  fix c
  assume "c \<in> {c. \<exists>i < 8 * n. P i \<and> index_of w ! i = Some c}"
  then obtain i where i: "i < 8 * n" "P i" "index_of w ! i = Some c" by blast
  have "8 * (i div 8) + i mod 8 = i" "i div 8 < n" "i div 8 * 8 + i mod 8 = i" using i(1) by (auto simp: less_mult_imp_div_less mult.commute)
  then have "c \<in> at_bits w (i div 8) 0 (\<lambda>j. P (8 * (i div 8) + j))"
    unfolding at_bits_def using i(2,3) by (intro CollectI exI [of _ "i mod 8"]) simp
  then show "c \<in> (\<Union>k < n. at_bits w k 0 (\<lambda>j. P (8 * k + j)))" using \<open>i div 8 < n\<close> by blast
qed

lemma getbit_octet: "j < 8 \<Longrightarrow> getbit b (8 * k + j) = bit (b ! k) j"
  by (simp add: getbit_def)

lemma masked_bits_getbit: "masked_bits w 0 ms = {c. \<exists>i < 8 * length ms. getbit ms i \<and> index_of w ! i = Some c}"
proof -
  have "masked_bits w 0 ms = (\<Union>k < length ms. at_bits w k 0 (\<lambda>j. getbit ms (8 * k + j)))"
    unfolding masked_bits_def by (intro SUP_cong refl) (simp, intro at_bits_cong, simp add: getbit_octet)
  then show ?thesis using at_bits_getbit [where n = "length ms" and w = w and P = "getbit ms"] by simp
qed

lemma changed_bits_getbit: "changed_bits w 0 ps ms qs = {c. \<exists>i < 8 * length ms. (getbit ms i \<and> getbit ps i \<noteq> getbit qs i) \<and> index_of w ! i = Some c}"
proof -
  have "changed_bits w 0 ps ms qs = (\<Union>k < length ms. at_bits w k 0 (\<lambda>j. getbit ms (8 * k + j) \<and> getbit ps (8 * k + j) \<noteq> getbit qs (8 * k + j)))"
    unfolding changed_bits_def by (intro SUP_cong refl) (simp, intro at_bits_cong, simp add: getbit_octet)
  then show ?thesis using at_bits_getbit [where n = "length ms" and w = w and P = "\<lambda>i. getbit ms i \<and> getbit ps i \<noteq> getbit qs i"] by simp
qed

lemma mask_is_exact_getbit: "mask_is_exact ps ms qs \<longleftrightarrow> (\<forall>i < 8 * length ms. getbit ms i \<longrightarrow> getbit ps i \<noteq> getbit qs i)"
proof
  assume "mask_is_exact ps ms qs"
  then show "\<forall>i < 8 * length ms. getbit ms i \<longrightarrow> getbit ps i \<noteq> getbit qs i"
    by (auto simp: mask_is_exact_def getbit_def less_mult_imp_div_less mult.commute)
next
  assume a: "\<forall>i < 8 * length ms. getbit ms i \<longrightarrow> getbit ps i \<noteq> getbit qs i"
  show "mask_is_exact ps ms qs" unfolding mask_is_exact_def
  proof (intro allI impI)
    fix k j :: nat
    assume "k < length ms" "j < 8" "bit (ms ! k) j"
    then show "bit (ps ! k) j \<noteq> bit (qs ! k) j" using spec [OF a, of "8 * k + j"] by (simp add: getbit_octet)
  qed
qed

section \<open>One turn\<close>

text \<open>The image and the interface agree on the bits of the process mask.\<close>

definition in_step :: "io \<Rightarrow> ec_interface \<Rightarrow> octets \<Rightarrow> octets \<Rightarrow> bool" where
  "in_step w e pd pm \<longleftrightarrow> image_ok w \<and> process_data w = Some pd \<and> min_offset w = 0 \<and> min_io_index e = 0 \<and> max_io_index e = max_offset w \<and>
     app_process_mask e = Some pm \<and> length pm = length pd \<and>
     (\<forall>b. ec_update_data e = Some b \<longrightarrow> length b = length pd) \<and> (\<forall>b. ec_update_mask e = Some b \<longrightarrow> length b = length pd) \<and>
     (\<exists>ld. last_domain e = Some ld \<and> length ld = length pd \<and> (\<forall>i < 8 * length pd. getbit pm i \<longrightarrow> getbit pd i = getbit ld i))"

lemma fresh_block_ok: "\<forall>b. blk = Some b \<longrightarrow> length b = n \<Longrightarrow> \<exists>b. fresh_block blk n = Inr b \<and> length b = n"
  by (cases blk) (auto simp: fresh_block_def mem_clear_def put_field_def)

lemma collectState_ok:
  assumes "in_step w e pd pm" "length d = length pd"
  shows "\<exists>cnt e' m. collectState True (Some d) (length pd) e = Inr (cnt, e') \<and>
    e' = e\<lparr>last_domain := Some d, ec_update_data := Some d, ec_update_mask := Some m\<rparr> \<and> length m = length pd \<and>
    (\<forall>i < 8 * length pd. getbit m i = (getbit pm i \<and> getbit d i \<noteq> getbit pd i))"
proof -
  obtain ld where e: "last_domain e = Some ld" "length ld = length pd" "\<forall>i < 8 * length pd. getbit pm i \<longrightarrow> getbit pd i = getbit ld i"
    and f: "app_process_mask e = Some pm" "length pm = length pd" "min_io_index e = 0" "max_io_index e = max_offset w"
      "\<forall>b. ec_update_data e = Some b \<longrightarrow> length b = length pd" "\<forall>b. ec_update_mask e = Some b \<longrightarrow> length b = length pd"
    and s: "max_offset w + 1 = length pd"
    using assms(1) by (auto simp: in_step_def image_ok_def map_ok_def)
  obtain ud um where b: "fresh_block (ec_update_data e) (length pd) = Inr ud" "length ud = length pd"
    "fresh_block (ec_update_mask e) (length pd) = Inr um" "length um = length pd"
    using fresh_block_ok [OF f(5)] fresh_block_ok [OF f(6)] by blast
  obtain ms k where c: "collect_octets (length pd) d (Some ld) pm = Inr (ms, k)" "length ms = length pd"
    "\<forall>i < length pd. ms ! i = changed_octet (d ! i) (ld ! i) (pm ! i)"
    using collect_octets_ok [of "length pd" d ld pm] assms(2) e(2) f(2) by auto
  have "getbit ms i = (getbit pm i \<and> getbit d i \<noteq> getbit pd i)" if i: "i < 8 * length pd" for i
  proof -
    have "i div 8 < length pd" using i by (simp add: less_mult_imp_div_less mult.commute)
    then have "getbit ms i = (getbit pm i \<and> getbit d i \<noteq> getbit ld i)" using c(3) by (simp add: getbit_def bit_changed_octet)
    then show ?thesis using e(3) i by auto
  qed
  moreover have "collectState True (Some d) (length pd) e = Inr (k, e\<lparr>last_domain := Some d, ec_update_data := Some d, ec_update_mask := Some ms\<rparr>)"
    using b c(1,2) e(1) f s assms(2) by (simp add: collectState_def put_field_def mem_copy_ok field_def)
  ultimately show ?thesis using c(2) by blast
qed

text \<open>
  Claim C20. The image stays in step with the fieldbus. When the process image and the last octets seen on the fieldbus agree on
  the bits of the process mask, one turn of the exchange (collecting the changed bits of the domain, sending them,
  taking them over) succeeds, leaves the image equal to the domain on these bits, keeps the two in step, and reports exactly the
  components with a bit that changed.
\<close>

theorem image_stays_in_step:
  assumes "in_step w e pd pm" "hw_state w = s_operational" "last_process_data w \<noteq> None" "updated_in w = []" "length d = length pd"
    "updates_sent w \<longrightarrow> (\<forall>c \<in> set (updated_out w). \<exists>x. components w c = Some x \<and> pending_value x \<noteq> None)"
  shows "\<exists>cnt e1 m e2 u w' pd'. collectState True (Some d) (length d) e = Inr (cnt, e1) \<and>
    send_domain (min_offset w) (max_offset w) e1 = Inr ((length d, d, m), e2) \<and>
    processAll clk (length d) m d work w = Inr (u, w') \<and> in_step w' e2 pd' pm \<and>
    (\<forall>i < 8 * length d. getbit pd' i = (if getbit pm i then getbit d i else getbit pd i)) \<and>
    set u = set work \<union> {c. \<exists>i < 8 * length d. getbit pm i \<and> getbit d i \<noteq> getbit pd i \<and> index_of w ! i = Some c}"
proof -
  have w: "image_ok w" "process_data w = Some pd" "min_offset w = 0" "process_data_size w = length pd" "max_offset w + 1 = length pd"
    "length pm = length pd" "min_io_index e = 0" "max_io_index e = max_offset w" "app_process_mask e = Some pm"
    using assms(1) by (auto simp: in_step_def image_ok_def map_ok_def)
  obtain cnt m where c: "collectState True (Some d) (length d) e = Inr (cnt, e\<lparr>last_domain := Some d, ec_update_data := Some d, ec_update_mask := Some m\<rparr>)"
    "length m = length pd" "\<forall>i < 8 * length pd. getbit m i = (getbit pm i \<and> getbit d i \<noteq> getbit pd i)"
    using collectState_ok [OF assms(1,5)] assms(5) by auto
  define e2 where "e2 = e\<lparr>last_domain := Some d, ec_update_data := Some d, ec_update_mask := Some m\<rparr>"
  have "e2\<lparr>min_io_index := 0, max_io_index := max_offset w\<rparr> = e2" using w(7,8) by (simp add: e2_def)
  then have s: "send_domain (min_offset w) (max_offset w) e2 = Inr ((length d, d, m), e2)"
    using w c(2) assms(5) by (simp add: send_domain_def setMinIOIndex_def getProcessDataSize_def block_of_def field_def e2_def Let_def)
  have x: "mask_is_exact d m pd" using c(2,3) by (simp add: mask_is_exact_getbit)
  obtain u w' where p: "processAll clk (length pd) m d work w = Inr (u, w')" "process_data w' = Some (masked_all pd d m)" "image_ok w'"
    "min_offset w' = 0" "set work \<subseteq> set u" "set u \<subseteq> set work \<union> changed_bits w 0 d m pd" "masked_bits w 0 m \<subseteq> set u"
    using processAll_ok [OF w(1) _ w(2), of d m clk work] assms(2-6) w(3,4) c(2) x by auto
  have l: "length (masked_all pd d m) = length pd" using assms(5) c(2) by (simp add: masked_all_length)
  have b: "getbit (masked_all pd d m) i = (if getbit pm i then getbit d i else getbit pd i)" if "i < 8 * length pd" for i
    using getbit_masked_all [of i pd d m] that assms(5) c(2,3) by auto
  have "max_offset w' = max_offset w" using p(2,3) l w(5) by (auto simp: image_ok_def map_ok_def)
  then have "in_step w' e2 (masked_all pd d m) pm"
    unfolding in_step_def using p(2-4) w l b assms(5) c(2) by (auto simp: e2_def)
  moreover have "masked_bits w 0 m = {c. \<exists>i < 8 * length d. getbit pm i \<and> getbit d i \<noteq> getbit pd i \<and> index_of w ! i = Some c}"
    unfolding masked_bits_getbit c(2) assms(5) using c(3) by blast
  moreover have "changed_bits w 0 d m pd \<subseteq> masked_bits w 0 m" unfolding masked_bits_getbit changed_bits_getbit by blast
  ultimately have "in_step w' e2 (masked_all pd d m) pm"
    "set u = set work \<union> {c. \<exists>i < 8 * length d. getbit pm i \<and> getbit d i \<noteq> getbit pd i \<and> index_of w ! i = Some c}"
    using p(5-7) by blast+
  then show ?thesis using c(1) s p(1) b assms(5) unfolding e2_def [symmetric]
    by (intro exI [of _ cnt] exI [of _ e2] exI [of _ m] exI [of _ u] exI [of _ w'] exI [of _ "masked_all pd d m"] conjI) simp_all
qed

definition example_interface :: ec_interface where
  "example_interface = \<lparr>min_io_index = 0, max_io_index = 0, last_domain = Some [0x40], app_process_mask = Some [0x0f],
     ec_update_data = None, ec_update_mask = None\<rparr>"

lemma example_in_step: "in_step example_io example_interface [0] [0x0f]"
proof -
  have "\<not> getbit [0x40] i" if "getbit [0x0f] i" "i < 8" for i
  proof -
    have "(0x40 AND 0x0f :: 8 word) = 0" by simp
    then have "\<not> bit (0x40 AND 0x0f :: 8 word) i" by (simp only: bit_0_eq) simp
    then have "\<not> (bit (0x40 :: 8 word) i \<and> bit (0x0f :: 8 word) i)" unfolding bit_and_iff .
    then show ?thesis using that by (simp add: getbit_def)
  qed
  then show ?thesis using example_io_ok by (auto simp: in_step_def example_interface_def example_io_def getbit_def)
qed

theorem image_stays_in_step_witness:
  "\<exists>cnt e1 m e2 u w' pd'. collectState True (Some [0x42]) 1 example_interface = Inr (cnt, e1) \<and>
    send_domain 0 0 e1 = Inr ((1, [0x42], m), e2) \<and> processAll 5 1 m [0x42] [] example_io = Inr (u, w') \<and> in_step w' e2 pd' [0x0f]"
  using image_stays_in_step [OF example_in_step, of "[0x42]" 5 "[]"] by (auto simp: example_io_def)

end
