(* ===== verification/Cw_Analogue.thy ===== *)
theory Cw_Analogue
  imports Cw_Buffers Cw_Filtering Cw_Value Cw_ProcessImage
begin

text \<open>
  The filters of analogue inputs and counters (\<open>src/iod/src/IOComponent.cpp\<close>): the classes
  \<open>InputFilterSettings\<close> and \<open>CounterInternals\<close>, the methods \<open>filter\<close> and \<open>setupProperties\<close> of
  \<open>AnalogueInput\<close> and \<open>Counter\<close>, and the regular polls. Settings that the code reads through a pointer
  into a property are fields with the current value of this property. The properties that a filter
  sets on the owners of the component are returned as a list.
\<close>

section \<open>Analogue inputs\<close>

record input_filter =
  property_changed :: bool
  positions :: circular_buffer
  last_sent :: double
  prev_sent :: double
  last_time :: int
  tolerance :: int
  filter_len :: int
  filter_type :: "int option"
  calc_dt :: int
  calc_d2t :: int
  calc_stddev :: int
  position_history :: int
  speed_tolerance :: int
  speed :: double
  speed_scale :: double
  accel :: double
  accel_scale :: double
  speeds :: float_buffer
  rate_len :: int
  c_coeff :: "double list"
  d_coeff :: "double list"
  input_bwf :: butterworth
  vel_bwf :: butterworth
  accel_bwf :: butterworth
  throttle :: "int option"

definition bw_c :: "double list" where
  "bw_c = [dlit 2898194633721 15, dlit 8694583901164 15, dlit 8694583901164 15, dlit 2898194633721 15]"

definition bw_d :: "double list" where
  "bw_d = [dlit 1 0, dneg (dlit 2374094743709 12), dlit 1929355669091 12, dneg (dlit 532075368312 12)]"

text \<open>The stored coefficients \<open>d\<close> are a copy of the coefficients \<open>c\<close>; the filter itself has both.\<close>

definition InputFilterSettings :: input_filter where
  "InputFilterSettings = \<lparr>property_changed = True, positions = the (createBuffer 200), last_sent = dzero False, prev_sent = dzero False, last_time = 0,
     tolerance = 8, filter_len = 12, filter_type = None, calc_dt = 0, calc_d2t = 0, calc_stddev = 0, position_history = 20,
     speed_tolerance = 20, speed = dzero False, speed_scale = dlit 1 0, accel = dzero False, accel_scale = dlit 1 0,
     speeds = new_buffer 4, rate_len = 4, c_coeff = bw_c, d_coeff = bw_c, input_bwf = new_butterworth bw_c bw_d,
     vel_bwf = new_butterworth bw_c bw_d, accel_bwf = new_butterworth bw_c bw_d, throttle = None\<rparr>"

definition throttle_time :: "int option \<Rightarrow> int res" where
  "throttle_time t = (case t of None \<Rightarrow> Inr 10000 | Some x \<Rightarrow> chk_long (x * 1000))"

definition int_coeffs :: "int list \<Rightarrow> double list" where
  "int_coeffs = map dbl_of_int"

definition settings_update :: "int \<Rightarrow> input_filter \<Rightarrow> input_filter res" where
  "settings_update read_t f =
     bindr (setBufferValue (positions f) (last_sent f)) (\<lambda>pos.
     let f1 = f\<lparr>positions := pos\<rparr>
     in if last_time f = 0
        then mapr (\<lambda>sp. f1\<lparr>last_time := read_t, prev_sent := last_sent f, speed := dzero False, speeds := sp\<rparr>)
               (FloatBuffer_append (dzero False) (speeds f))
        else bindr (throttle_time (throttle f)) (\<lambda>t.
          if t \<le> to_long (read_t - last_time f)
          then let dt = ddiv (dbl_of_int (to_u64 (read_t - last_time f))) (dlit 1000000 0)
               in bindr (if calc_dt f \<noteq> 0
                         then bindr (savitsky_golay_filter pos 7 (int_coeffs [- 77, 122, 77, - 72, - 185, - 122, 257]) (dlit 252 0)) (\<lambda>v.
                              let s = ddiv v dt in mapr (\<lambda>sp. f1\<lparr>speed := s, speeds := sp\<rparr>) (FloatBuffer_append s (speeds f)))
                         else Inr f1) (\<lambda>f2.
                  bindr (if calc_d2t f \<noteq> 0
                         then mapr (\<lambda>v. f2\<lparr>accel := ddiv v dt\<rparr>)
                                (savitsky_golay_filter pos 7 (int_coeffs [- 16, 21, 18, - 4, - 24, - 21, 26]) (dlit 42 0))
                         else Inr f2) (\<lambda>f3.
                  Inr (f3\<lparr>last_time := read_t, prev_sent := last_sent f\<rparr>)))
          else Inr f1))"

text \<open>The method \<open>filter\<close> of the settings: a window of nine weights, read at every index below the filter length.\<close>

definition window_weights :: "double list" where
  "window_weights = map (\<lambda>n. dlit n 3) [81, 215, 541, 865, 1000, 865, 541, 215, 81]"

fun weighted_sum :: "circular_buffer \<Rightarrow> nat \<Rightarrow> nat \<Rightarrow> double \<Rightarrow> double res" where
  "weighted_sum buf i 0 acc = Inr acc"
| "weighted_sum buf i (Suc n) acc = bindr (getBufferValue buf (int i)) (\<lambda>v.
     if i < length window_weights then weighted_sum buf (Suc i) n (dadd acc (dmul v (window_weights ! i))) else Inl OutOfRange)"

definition settings_filter :: "input_filter \<Rightarrow> double res" where
  "settings_filter f = (let n = to_u32 (filter_len f)
     in if bufferLength (positions f) < n then getBufferValue (positions f) 0
        else weighted_sum (positions f) 0 (nat n) (dzero False))"

text \<open>\<open>AnalogueInput::filter\<close>: the value is the raw one, a mean with a dead band, or the output of the Butterworth filter.\<close>

definition mean_with_tolerance :: "input_filter \<Rightarrow> double res" where
  "mean_with_tolerance f =
     bindr (bufferAverage (positions f) (to_int32 (filter_len f))) (\<lambda>avg.
     bindr (int_of_dbl (dadd avg (dlit 5 1))) (\<lambda>mean.
     bindr (long_of_dbl (dabs (dsub (dbl_of_int mean) (last_sent f)))) (\<lambda>delta.
     Inr (if tolerance f \<le> delta then dbl_of_int mean else last_sent f))))"

definition filter_value :: "int \<Rightarrow> input_filter \<Rightarrow> input_filter res" where
  "filter_value raw f =
     (if filter_type f = Some 0 then Inr (f\<lparr>last_sent := dbl_of_int raw\<rparr>)
      else if filter_type f = None \<or> filter_type f = Some 1 then mapr (\<lambda>v. f\<lparr>last_sent := v\<rparr>) (mean_with_tolerance f)
      else if filter_type f = Some 2
      then mapr (\<lambda>(v, b). f\<lparr>last_sent := v, input_bwf := b\<rparr>) (butterworth_filter (to_float (dbl_of_int raw)) (input_bwf f))
      else Inr f)"

definition input_properties :: "int \<Rightarrow> int \<Rightarrow> input_filter \<Rightarrow> (string \<times> cw_value) list res" where
  "input_properties read_t raw f =
     bindr (long_of_dbl (last_sent f)) (\<lambda>v.
     bindr (if calc_stddev f \<noteq> 0 then mapr (\<lambda>s. [(''stddev'', Value_double s)]) (bufferStddev (positions f) 5) else Inr []) (\<lambda>sd.
     Inr ([(''IOTIME'', Value_long (to_long read_t)), (''DurationTolerance'', Value_long (rate_len f)),
           (''raw'', Value_long raw), (''VALUE'', Value_long v)] @ sd
          @ (if calc_dt f \<noteq> 0 then [(''Velocity'', Value_double (dmul (speed f) (speed_scale f)))] else [])
          @ (if calc_d2t f \<noteq> 0 then [(''Acceleration'', Value_double (dmul (accel f) (accel_scale f)))] else []))))"

definition AnalogueInput_filter :: "bool \<Rightarrow> int \<Rightarrow> int \<Rightarrow> input_filter \<Rightarrow> (int \<times> (string \<times> cw_value) list \<times> input_filter) res" where
  "AnalogueInput_filter owned read_t raw f =
     bindr (throttle_time (throttle f)) (\<lambda>t.
     if to_long (read_t - last_time f) < t then Inr (raw, [], f)
     else bindr (addSample (positions f) (to_long read_t) (dbl_of_int raw)) (\<lambda>pos.
          bindr (filter_value raw (f\<lparr>property_changed := False, positions := pos\<rparr>)) (\<lambda>f1.
          bindr (settings_update read_t f1) (\<lambda>f2.
          bindr (if owned then input_properties read_t raw f2 else Inr []) (\<lambda>ps.
          bindr (int_of_dbl (last_sent f2)) (\<lambda>r. Inr (r, ps, f2)))))))"

definition AnalogueInput_update :: "input_filter \<Rightarrow> input_filter" where
  "AnalogueInput_update f = f\<lparr>property_changed := False\<rparr>"

subsection \<open>Settings\<close>

definition getFloatValue :: "(string \<Rightarrow> cw_value) \<Rightarrow> string \<Rightarrow> double option res" where
  "getFloatValue get name = (let v = get name
     in if kind v = t_integer \<or> kind v = t_float
        then mapr (\<lambda>(found, x). if found then Some x else None) (asFloat v (dzero False)) else Inr None)"

definition long_setting :: "(string \<Rightarrow> cw_value) \<Rightarrow> string \<Rightarrow> int \<Rightarrow> int res" where
  "long_setting get name old = (let v = get name in if kind v = t_integer then read_field (iValue v) else Inr old)"

definition long_setting_opt :: "(string \<Rightarrow> cw_value) \<Rightarrow> string \<Rightarrow> int option \<Rightarrow> int option res" where
  "long_setting_opt get name old = (let v = get name in if kind v = t_integer then mapr Some (read_field (iValue v)) else Inr old)"

fun coefficients :: "cw_value list \<Rightarrow> double list res" where
  "coefficients [] = Inr []"
| "coefficients (v # vs) = bindr (asFloat v (dzero False)) (\<lambda>(found, x).
     mapr (Cons (if found then x else dlit 1 0)) (coefficients vs))"

text \<open>The argument is the machine \<open>filter_settings\<close> with its lists \<open>C\<close> and \<open>D\<close>, if there is one.\<close>

definition AnalogueInput_setupProperties ::
  "((string \<Rightarrow> cw_value) \<times> cw_value list option \<times> cw_value list option) option \<Rightarrow> input_filter \<Rightarrow> input_filter res" where
  "AnalogueInput_setupProperties settings f = (case settings of
     None \<Rightarrow> Inr f
   | Some (get, cs, ds) \<Rightarrow>
       bindr (getFloatValue get ''velocity_scale'') (\<lambda>vs.
       bindr (getFloatValue get ''acceleration_scale'') (\<lambda>as.
       bindr (long_setting_opt get ''throttle'' (throttle f)) (\<lambda>th.
       bindr (long_setting get ''enable_velocity'' (calc_dt f)) (\<lambda>dt.
       bindr (long_setting get ''enable_acceleration'' (calc_d2t f)) (\<lambda>d2t.
       bindr (long_setting get ''enable_stddev'' (calc_stddev f)) (\<lambda>sd.
       bindr (case (cs, ds) of
                (Some c, Some d) \<Rightarrow> if c \<noteq> [] \<and> length c = length d
                  then bindr (coefficients c) (\<lambda>c'. bindr (coefficients d) (\<lambda>d'.
                       Inr (f\<lparr>c_coeff := c', d_coeff := d', input_bwf := new_butterworth c' d'\<rparr>)))
                  else Inr f
              | _ \<Rightarrow> Inr f) (\<lambda>f1.
       bindr (long_setting get ''tolerance'' (tolerance f)) (\<lambda>tol.
       bindr (long_setting_opt get ''filter'' (filter_type f)) (\<lambda>ft.
       bindr (long_setting get ''filter_len'' (filter_len f)) (\<lambda>fl.
       bindr (long_setting get ''speed_tolerance'' (speed_tolerance f)) (\<lambda>st.
       bindr (long_setting get ''position_history'' (position_history f)) (\<lambda>ph.
       Inr (f1\<lparr>speed_scale := (case vs of None \<Rightarrow> speed_scale f | Some x \<Rightarrow> x),
               accel_scale := (case as of None \<Rightarrow> accel_scale f | Some x \<Rightarrow> x),
               throttle := th, calc_dt := dt, calc_d2t := d2t, calc_stddev := sd, tolerance := tol, filter_type := ft,
               filter_len := fl, speed_tolerance := st, position_history := ph\<rparr>))))))))))))))"

section \<open>Counters\<close>

text \<open>The mean of the speeds is a fuelled loop; \<open>None\<close> stands for a loop that has not ended.\<close>

record counter_internals =
  c_positions :: circular_buffer
  c_tolerance :: int
  c_filter_len :: int
  c_position_history :: int
  c_speed_tolerance :: int
  c_input_scale :: int
  c_last_sent :: int
  c_prev_sent :: int
  c_last_time :: int
  c_speed :: int
  c_speeds :: float_buffer
  c_rate_len :: int

definition CounterInternals :: counter_internals where
  "CounterInternals = \<lparr>c_positions = the (createBuffer 200), c_tolerance = 1, c_filter_len = 8, c_position_history = 20,
     c_speed_tolerance = 10, c_input_scale = 1, c_last_sent = 0, c_prev_sent = 0, c_last_time = 0, c_speed = 0,
     c_speeds = new_buffer 4, c_rate_len = 4\<rparr>"

definition counter_update :: "int \<Rightarrow> counter_internals \<Rightarrow> counter_internals res" where
  "counter_update read_t c =
     (let c0 = (if c_prev_sent c = 0 then c\<lparr>c_prev_sent := c_last_sent c\<rparr> else c)
      in if c_last_time c0 = 0
         then mapr (\<lambda>sp. c0\<lparr>c_last_time := read_t, c_prev_sent := c_last_sent c0, c_speed := 0, c_speeds := sp\<rparr>)
                (FloatBuffer_append (dzero False) (c_speeds c0))
         else if 10000 \<le> to_u64 (read_t - c_last_time c0)
         then bindr (findMovement (c_positions c0) (dlit 20 0) (to_int32 (c_position_history c0))) (\<lambda>rl.
              bindr (if rl < c_position_history c0
                     then bindr (rate (c_positions c0) (if rl < 4 then 4 else rl)) (\<lambda>x. long_of_dbl (dmul (dlit 1000000 0) x))
                     else Inr 0) (\<lambda>s.
              mapr (\<lambda>sp. c0\<lparr>c_rate_len := rl, c_speed := s, c_speeds := sp, c_last_time := read_t, c_prev_sent := c_last_sent c0\<rparr>)
                (FloatBuffer_append (dbl_of_int s) (c_speeds c0))))
         else Inr c0)"

definition counter_window :: "counter_internals \<Rightarrow> double res" where
  "counter_window c = (if bufferLength (c_positions c) < 9 then getBufferValue (c_positions c) 0
     else weighted_sum (c_positions c) 0 9 (dzero False))"

definition uint_of_dbl :: "double \<Rightarrow> int res" where
  "uint_of_dbl x = bindr (long_of_dbl x) (\<lambda>i. if 0 \<le> i \<and> i < 4294967296 then Inr i else Inl ConversionRange)"

text \<open>Without a tolerance a scaled reading is converted to an unsigned number first.\<close>

definition counter_value :: "int \<Rightarrow> double \<Rightarrow> counter_internals \<Rightarrow> int res" where
  "counter_value val scaled c =
     (if 1 < c_tolerance c
      then bindr (bufferAverage (c_positions c) (to_int32 (c_filter_len c))) (\<lambda>avg.
           bindr (int_of_dbl (dadd avg (dlit 5 1))) (\<lambda>mean.
           bindr (chk_int (mean - c_last_sent c)) (\<lambda>d.
           bindr (chk_int \<bar>d\<bar>) (\<lambda>delta.
           Inr (if c_tolerance c \<le> delta then mean else c_last_sent c)))))
      else if c_input_scale c = 1 then Inr val
      else mapr to_int32 (uint_of_dbl (dadd scaled (dlit 5 1))))"

definition counter_properties :: "int \<Rightarrow> double \<Rightarrow> counter_internals \<Rightarrow> (string \<times> cw_value) list option res" where
  "counter_properties read_t scaled c =
     bindr (long_of_dbl scaled) (\<lambda>v.
     bindr (buffer_average (\<lambda>x. x) (c_speeds c) (ring_length (c_speeds c))) (\<lambda>avg. case avg of
       None \<Rightarrow> Inr None
     | Some a \<Rightarrow> bindr (long_of_dbl a) (\<lambda>s.
         Inr (Some [(''IOTIME'', Value_long (to_long read_t)), (''DurationTolerance'', Value_long (c_rate_len c)),
                    (''VALUE'', Value_long v), (''Position'', Value_long (c_last_sent c)), (''Velocity'', Value_long s)]))))"

definition Counter_filter :: "bool \<Rightarrow> int \<Rightarrow> int \<Rightarrow> counter_internals \<Rightarrow> (int \<times> (string \<times> cw_value) list \<times> counter_internals) option res" where
  "Counter_filter owned read_t val c =
     (let scaled = ddiv (dbl_of_int val) (dbl_of_int (c_input_scale c))
      in bindr (addSample (c_positions c) (to_long read_t) scaled) (\<lambda>pos.
         bindr (counter_value val scaled (c\<lparr>c_positions := pos\<rparr>)) (\<lambda>v.
         bindr (counter_update read_t (c\<lparr>c_positions := pos, c_last_sent := v\<rparr>)) (\<lambda>c2.
         bindr (if owned then counter_properties read_t scaled c2 else Inr (Some [])) (\<lambda>ps.
         Inr (map_option (\<lambda>ps. (c_last_sent c2, ps, c2)) ps))))))"

definition Counter_setupProperties :: "(string \<Rightarrow> cw_value) \<Rightarrow> counter_internals \<Rightarrow> counter_internals res" where
  "Counter_setupProperties get c =
     bindr (long_setting get ''tolerance'' (c_tolerance c)) (\<lambda>tol.
     bindr (long_setting get ''filter_len'' (c_filter_len c)) (\<lambda>fl.
     bindr (long_setting get ''speed_tolerance'' (c_speed_tolerance c)) (\<lambda>st.
     bindr (long_setting get ''position_history'' (c_position_history c)) (\<lambda>ph.
     bindr (long_setting get ''input_scale'' (c_input_scale c)) (\<lambda>sc.
     Inr (c\<lparr>c_tolerance := tol, c_filter_len := fl, c_speed_tolerance := st, c_position_history := ph, c_input_scale := sc\<rparr>))))))"

section \<open>Regular polls\<close>

text \<open>\<open>handle_io_sampling\<close>: the filters are run at most once in a millisecond; \<open>flt\<close> is the virtual method.\<close>

fun poll_all :: "(nat \<Rightarrow> 32 word \<Rightarrow> io \<Rightarrow> (32 word \<times> io) res) \<Rightarrow> int \<Rightarrow> nat list \<Rightarrow> io \<Rightarrow> io res" where
  "poll_all flt clk [] w = Inr w"
| "poll_all flt clk (c # cs) w = bindr (get_comp c w) (\<lambda>x.
     bindr (flt c (io_value (address x)) (put_comp c (x\<lparr>read_time := Some clk\<rparr>) w)) (\<lambda>(_, w'). poll_all flt clk cs w'))"

definition handle_io_sampling :: "(nat \<Rightarrow> 32 word \<Rightarrow> io \<Rightarrow> (32 word \<times> io) res) \<Rightarrow> int \<Rightarrow> int \<Rightarrow> int \<Rightarrow> io \<Rightarrow> (int \<times> io) res" where
  "handle_io_sampling flt now last_sample clk w =
     (if to_u64 (now - last_sample) < 1000 then Inr (last_sample, w)
      else mapr (Pair now) (poll_all flt clk (regular_polls w) w))"


section \<open>Lemmas\<close>

lemma FloatBuffer_append_defined:
  "sample_ring_ok b \<Longrightarrow> \<exists>b'. FloatBuffer_append x b = Inr b' \<and> sample_ring_ok b'"
  using buffer_append_history [of b] by (fastforce simp: FloatBuffer_append_def)

definition input_ok :: "input_filter \<Rightarrow> bool" where
  "input_ok f \<longleftrightarrow> buffer_ok (positions f) \<and> sample_ring_ok (speeds f)"

definition settings_of :: "input_filter \<Rightarrow> int \<times> int \<times> int option \<times> int option \<times> int" where
  "settings_of f = (tolerance f, filter_len f, filter_type f, throttle f, bufsize (positions f))"

lemma settings_update_result:
  assumes ok: "input_ok f" and s: "samples (positions f) = (u, ts) # ss" and t: "throttle_time (throttle f) = Inr t"
    and due: "t \<le> to_long (read_t - last_time f)"
  shows "\<exists>f'. settings_update read_t f = Inr f' \<and> input_ok f' \<and> last_sent f' = last_sent f \<and> last_time f' = read_t \<and>
    settings_of f' = settings_of f \<and> samples (positions f') = (last_sent f, ts) # ss"
proof -
  obtain pos where pos: "setBufferValue (positions f) (last_sent f) = Inr pos" "buffer_ok pos"
    "bufsize pos = bufsize (positions f)" "samples pos = (last_sent f, ts) # ss"
    using setBufferValue_history [OF _ s, of "last_sent f"] ok by (auto simp: input_ok_def)
  have app: "\<exists>sp. FloatBuffer_append x (speeds f) = Inr sp \<and> sample_ring_ok sp" for x
    using FloatBuffer_append_defined ok by (auto simp: input_ok_def)
  note simps = settings_update_def pos t due input_ok_def settings_of_def Let_def
  show ?thesis
  proof (cases "last_time f = 0")
    case True
    then show ?thesis using app [of "dzero False"] pos by (auto simp: simps)
  next
    case False
    obtain v where v: "savitsky_golay_filter pos 7 (int_coeffs [- 77, 122, 77, - 72, - 185, - 122, 257]) (dlit 252 0) = Inr v"
      using savitsky_golay_defined [OF pos(2)] pos(4) by (force simp: int_coeffs_def)
    obtain w where w: "savitsky_golay_filter pos 7 (int_coeffs [- 16, 21, 18, - 4, - 24, - 21, 26]) (dlit 42 0) = Inr w"
      using savitsky_golay_defined [OF pos(2)] pos(4) by (force simp: int_coeffs_def)
    define q where "q = ddiv v (ddiv (dbl_of_int (to_u64 (read_t - last_time f))) (dlit 1000000 0))"
    obtain sp where sp: "FloatBuffer_append q (speeds f) = Inr sp" "sample_ring_ok sp" using app by blast
    have "sample_ring_ok (speeds f)" using ok by (simp add: input_ok_def)
    with False sp show ?thesis
      by (cases "calc_dt f = 0"; cases "calc_d2t f = 0")
        (simp_all add: simps v w q_def [symmetric])
  qed
qed

text \<open>The mean of readings, oldest first, as the dead band uses it.\<close>

definition mean_of :: "double list \<Rightarrow> int res" where
  "mean_of ds = int_of_dbl (dadd (ddiv (foldl dadd (dzero False) ds) (dbl_of_int (int (length ds)))) (dlit 5 1))"

definition averaged :: "input_filter \<Rightarrow> bool" where
  "averaged f \<longleftrightarrow> (filter_type f = None \<or> filter_type f = Some 1) \<and> 1 < filter_len f \<and> filter_len f \<le> INT_MAX"

definition in_int :: "int \<Rightarrow> bool" where
  "in_int i \<longleftrightarrow> INT_MIN \<le> i \<and> i \<le> INT_MAX"

lemma in_int_iff: "in_int i \<longleftrightarrow> - 2147483648 \<le> i \<and> i \<le> 2147483647"
  by (simp add: in_int_def INT_MIN_def INT_MAX_def)

lemma to_int32_id: "in_int i \<Longrightarrow> to_int32 i = i"
  by (simp add: in_int_iff to_int32_def)

lemma long_of_int_double: "in_int i \<Longrightarrow> long_of_dbl (dbl_of_int i) = Inr i"
  by (rule long_of_dbl_of_int) (auto simp: in_int_iff)

lemma int_of_dbl_of_int: "in_int i \<Longrightarrow> int_of_dbl (dbl_of_int i) = Inr i"
  using long_of_int_double [of i] by (simp add: in_int_def int_of_dbl_def)

lemma int_of_dbl_range: "int_of_dbl x = Inr i \<Longrightarrow> in_int i"
  by (cases "long_of_dbl x") (auto simp: in_int_def int_of_dbl_def split: if_splits)

lemma distance_of_ints:
  assumes "in_int a" "in_int b"
  shows "long_of_dbl (dabs (dsub (dbl_of_int a) (dbl_of_int b))) = Inr \<bar>a - b\<bar>"
proof -
  have "\<bar>a\<bar> < 2 ^ 53" "\<bar>b\<bar> < 2 ^ 53" "\<bar>a - b\<bar> < 2 ^ 53" using assms by (auto simp: in_int_iff)
  then show ?thesis using long_of_dbl_of_int [of "\<bar>a - b\<bar>"] by (simp add: dsub_of_int dabs_of_int)
qed

lemma mean_with_tolerance_result:
  assumes "buffer_ok (positions f)" "samples (positions f) \<noteq> []" "averaged f" "last_sent f = dbl_of_int l" "in_int l"
    and mean: "mean_of (rev (map fst (take (nat (filter_len f)) (samples (positions f))))) = Inr mean"
  shows "mean_with_tolerance f = Inr (dbl_of_int (if tolerance f \<le> \<bar>mean - l\<bar> then mean else l))"
proof -
  have len: "to_int32 (filter_len f) = filter_len f" "1 < filter_len f"
    using assms(3) to_int32_id [of "filter_len f"] by (simp_all add: averaged_def in_int_def INT_MIN_def)
  have "rev (map fst (take (nat (filter_len f)) (samples (positions f)))) \<noteq> []" using assms(2) len(2) by simp
  then show ?thesis
    using buffer_statistics [OF assms(1) len(2)] mean distance_of_ints [OF int_of_dbl_range assms(5), of _ mean] len(1)
    by (auto simp: mean_with_tolerance_def mean_of_def Let_def assms(4) simp del: length_samples)
qed

lemma input_properties_result:
  assumes "buffer_ok (positions f)" "last_sent f = dbl_of_int v" "in_int v"
  shows "\<exists>ps. input_properties read_t raw f = Inr ps \<and> (''raw'', Value_long raw) \<in> set ps \<and> (''VALUE'', Value_long v) \<in> set ps"
proof -
  have "long_of_dbl (last_sent f) = Inr v" using assms(2,3) long_of_int_double by simp
  moreover have "\<exists>s. bufferStddev (positions f) 5 = Inr s" using buffer_statistics [OF assms(1), of 5] by (auto simp: Let_def)
  ultimately show ?thesis by (auto simp: input_properties_def)
qed

text \<open>One reading of an averaged input whose filter is due.\<close>

definition follows :: "int \<Rightarrow> int \<Rightarrow> input_filter \<Rightarrow> input_filter \<Rightarrow> bool" where
  "follows v read_t f f' \<longleftrightarrow> input_ok f' \<and> settings_of f' = settings_of f \<and> last_sent f' = dbl_of_int v \<and> last_time f' = read_t \<and>
     samples (positions f') = take (nat (bufsize (positions f))) ((dbl_of_int v, to_u64 (to_long read_t)) # samples (positions f))"

lemma AnalogueInput_filter_averaged:
  assumes ok: "input_ok f" "averaged f" and l: "last_sent f = dbl_of_int l" "in_int l"
    and t: "throttle_time (throttle f) = Inr t" "t \<le> to_long (read_t - last_time f)"
    and mean: "mean_of (rev (map fst (take (nat (filter_len f)) (take (nat (bufsize (positions f)))
        ((dbl_of_int raw, to_u64 (to_long read_t)) # samples (positions f)))))) = Inr mean"
    and v: "v = (if tolerance f \<le> \<bar>mean - l\<bar> then mean else l)"
  shows "\<exists>ps f'. AnalogueInput_filter owned read_t raw f = Inr (v, ps, f') \<and> follows v read_t f f' \<and>
    (owned \<longrightarrow> (''raw'', Value_long raw) \<in> set ps \<and> (''VALUE'', Value_long v) \<in> set ps)"
proof -
  have v_int: "in_int v" using v l(2) mean int_of_dbl_range by (auto simp: mean_of_def)
  have bok: "buffer_ok (positions f)" using ok(1) by (simp add: input_ok_def)
  then obtain n where n: "nat (bufsize (positions f)) = Suc n"
    using ring_inv_size [of "positions f"] by (cases "nat (bufsize (positions f))") (auto simp: buffer_ok_def)
  obtain pos where pos: "addSample (positions f) (to_long read_t) (dbl_of_int raw) = Inr pos" "buffer_ok pos"
    "bufsize pos = bufsize (positions f)"
    "samples pos = (dbl_of_int raw, to_u64 (to_long read_t)) # take n (samples (positions f))"
    using addSample_history [OF bok] n by (metis take_Suc_Cons)
  define f0 where "f0 = f\<lparr>property_changed := False, positions := pos\<rparr>"
  have "mean_with_tolerance f0 = Inr (dbl_of_int v)"
    using mean_with_tolerance_result [of f0 l mean] pos ok(2) l mean v n by (simp add: f0_def averaged_def)
  then have fv: "filter_value raw f0 = Inr (f0\<lparr>last_sent := dbl_of_int v\<rparr>)"
    using ok(2) by (auto simp: filter_value_def averaged_def f0_def)
  obtain f' where f': "settings_update read_t (f0\<lparr>last_sent := dbl_of_int v\<rparr>) = Inr f'" "input_ok f'"
    "last_sent f' = dbl_of_int v" "last_time f' = read_t" "settings_of f' = settings_of f"
    "samples (positions f') = (dbl_of_int v, to_u64 (to_long read_t)) # take n (samples (positions f))"
    using settings_update_result [of "f0\<lparr>last_sent := dbl_of_int v\<rparr>" "dbl_of_int raw" _ _ t read_t] pos ok(1) t
    by (auto simp: f0_def input_ok_def settings_of_def)
  obtain ps where ps: "input_properties read_t raw f' = Inr ps" "(''raw'', Value_long raw) \<in> set ps" "(''VALUE'', Value_long v) \<in> set ps"
    using input_properties_result [OF _ f'(3) v_int] f'(2) by (auto simp: input_ok_def)
  have "AnalogueInput_filter owned read_t raw f = Inr (v, if owned then ps else [], f')"
    using t pos(1) fv f' ps int_of_dbl_of_int [OF v_int] by (simp add: AnalogueInput_filter_def f0_def)
  moreover have "follows v read_t f f'" using f' n by (simp add: follows_def)
  ultimately show ?thesis using ps by auto
qed

text \<open>Repeated readings of the same raw value, at given times.\<close>

primrec poll_input :: "int \<Rightarrow> int list \<Rightarrow> input_filter \<Rightarrow> (int list \<times> input_filter) res" where
  "poll_input raw [] f = Inr ([], f)"
| "poll_input raw (t # ts) f = bindr (AnalogueInput_filter False t raw f) (\<lambda>(v, _, f').
     mapr (\<lambda>(vs, f''). (v # vs, f'')) (poll_input raw ts f'))"

fun due_times :: "int \<Rightarrow> int \<Rightarrow> int list \<Rightarrow> bool" where
  "due_times t earlier [] = True"
| "due_times t earlier (r # rs) \<longleftrightarrow> t \<le> to_long (r - earlier) \<and> due_times t r rs"

definition settled :: "int \<Rightarrow> input_filter \<Rightarrow> bool" where
  "settled l f \<longleftrightarrow> input_ok f \<and> averaged f \<and> last_sent f = dbl_of_int l \<and> filter_len f \<le> bufsize (positions f) \<and>
     map fst (take (nat (filter_len f) - 1) (samples (positions f))) = replicate (nat (filter_len f) - 1) (dbl_of_int l)"

lemma newest_and_settled:
  assumes "settled l f"
  shows "map fst (take (nat (filter_len f)) (take (nat (bufsize (positions f))) ((x, t) # samples (positions f)))) =
    x # replicate (nat (filter_len f) - 1) (dbl_of_int l)"
proof -
  obtain k where k: "nat (filter_len f) = Suc k" using assms by (cases "nat (filter_len f)") (auto simp: settled_def averaged_def)
  have "Suc k \<le> nat (bufsize (positions f))" using assms unfolding k [symmetric] settled_def by (intro nat_mono) simp
  then show ?thesis using assms by (simp add: settled_def k min_def)
qed

lemma settled_follows:
  assumes "settled l f" "follows l t f f'"
  shows "settled l f'"
proof -
  have same: "filter_len f' = filter_len f" "bufsize (positions f') = bufsize (positions f)" "filter_type f' = filter_type f"
    using assms(2) by (auto simp: follows_def settings_of_def)
  define n where "n = nat (filter_len f)"
  have "map fst (take n (samples (positions f'))) = dbl_of_int l # replicate (n - 1) (dbl_of_int l)"
    using assms(2) newest_and_settled [OF assms(1)] by (simp add: follows_def n_def)
  then have "take (n - 1) (map fst (take n (samples (positions f')))) = take (n - 1) (replicate (Suc (n - 1)) (dbl_of_int l))" by simp
  then have "map fst (take (n - 1) (samples (positions f'))) = replicate (n - 1) (dbl_of_int l)"
    by (simp add: take_map min_def del: replicate.simps)
  then show ?thesis using assms same by (simp add: settled_def follows_def averaged_def n_def)
qed

section \<open>Counters return\<close>

definition counter_ok :: "counter_internals \<Rightarrow> bool" where
  "counter_ok c \<longleftrightarrow> buffer_ok (c_positions c) \<and> sample_ring_ok (c_speeds c)"

lemma average_returns: "sample_ring_ok b \<Longrightarrow> \<exists>a. buffer_average f b (ring_length b) = Inr (Some a)"
proof (cases "0 < ring_length b")
  case True
  then show "sample_ring_ok b \<Longrightarrow> ?thesis" using buffer_average_history [of b "ring_length b" f] by simp
qed (simp add: buffer_average_def)

lemma counter_update_speeds:
  assumes "sample_ring_ok (c_speeds c)" "counter_update read_t c = Inr c'"
  shows "sample_ring_ok (c_speeds c')"
proof -
  have app: "sample_ring_ok sp" if "FloatBuffer_append x (c_speeds c) = Inr sp" for x sp
    using FloatBuffer_append_defined [OF assms(1), of x] that by auto
  define c0 where "c0 = (if c_prev_sent c = 0 then c\<lparr>c_prev_sent := c_last_sent c\<rparr> else c)"
  have c0: "c_speeds c0 = c_speeds c" by (simp add: c0_def)
  consider "c_last_time c0 = 0" | "c_last_time c0 \<noteq> 0" "10000 \<le> to_u64 (read_t - c_last_time c0)"
    | "c_last_time c0 \<noteq> 0" "\<not> 10000 \<le> to_u64 (read_t - c_last_time c0)" by blast
  then show ?thesis
    using assms unfolding counter_update_def c0_def [symmetric] Let_def
    by cases (use c0 in \<open>auto simp: bindr_Inr_iff mapr_Inr_iff dest: app\<close>)
qed

lemma Counter_filter_returns:
  assumes "counter_ok c"
  shows "Counter_filter owned read_t val c \<noteq> Inr None"
proof -
  have "counter_properties read_t x c' \<noteq> Inr None" if "sample_ring_ok (c_speeds c')" for x c'
    using average_returns [OF that, of "\<lambda>x. x"] by (auto simp: counter_properties_def bindr_Inr_iff)
  moreover have "sample_ring_ok (c_speeds c')" if "counter_update read_t (c\<lparr>c_positions := pos, c_last_sent := v\<rparr>) = Inr c'" for pos v c'
    using counter_update_speeds [OF _ that] assms by (simp add: counter_ok_def)
  ultimately show ?thesis
    by (fastforce simp: Counter_filter_def Let_def bindr_Inr_iff split: if_splits)
qed

section \<open>Properties\<close>

text \<open>
  Claim C25. A reading of an averaged analogue input, taken when its filter is due, always returns:
  the value is the mean of the newest readings when this mean is away from the value sent before
  by the tolerance or more, and otherwise the value sent before, so it stays within the tolerance
  of the mean. The history takes the filtered value instead of the raw one, the settings are kept,
  and every owner gets the raw and the filtered value. A reading before the filter is due returns
  the raw value and changes nothing.
\<close>

theorem analogue_input_dead_band:
  assumes "input_ok f" "averaged f" "last_sent f = dbl_of_int l" "in_int l" "throttle_time (throttle f) = Inr t"
    and "mean_of (rev (map fst (take (nat (filter_len f)) (take (nat (bufsize (positions f)))
        ((dbl_of_int raw, to_u64 (to_long read_t)) # samples (positions f)))))) = Inr mean"
    and "v = (if tolerance f \<le> \<bar>mean - l\<bar> then mean else l)"
  shows "if to_long (read_t - last_time f) < t then AnalogueInput_filter owned read_t raw f = Inr (raw, [], f)
    else (0 < tolerance f \<longrightarrow> \<bar>mean - v\<bar> < tolerance f) \<and>
      (\<exists>ps f'. AnalogueInput_filter owned read_t raw f = Inr (v, ps, f') \<and> follows v read_t f f' \<and>
        (owned \<longrightarrow> (''raw'', Value_long raw) \<in> set ps \<and> (''VALUE'', Value_long v) \<in> set ps))"
proof (cases "to_long (read_t - last_time f) < t")
  case True
  then show ?thesis using assms(5) by (simp add: AnalogueInput_filter_def)
next
  case False
  then have "t \<le> to_long (read_t - last_time f)" by simp
  from AnalogueInput_filter_averaged [OF assms(1-5) this assms(6,7), of owned] False assms(7) show ?thesis by auto
qed

lemma new_settings_ok: "input_ok InputFilterSettings" "averaged InputFilterSettings"
  "samples (positions InputFilterSettings) = []" "bufsize (positions InputFilterSettings) = 200"
proof -
  obtain b where b: "createBuffer 200 = Some b" by (simp add: createBuffer_def)
  from buffer_ok_createBuffer [OF _ _ b] b show "input_ok InputFilterSettings"
    "samples (positions InputFilterSettings) = []" "bufsize (positions InputFilterSettings) = 200"
    by (simp_all add: input_ok_def InputFilterSettings_def INT_MAX_def sample_ring_ok_def new_buffer_def ring_inv_def ring_list_def ring_length_def)
qed (simp add: averaged_def InputFilterSettings_def INT_MAX_def)

lemma example_means:
  "mean_of [dbl_of_int 100] = Inr 100"
  "mean_of [dzero False, dbl_of_int 14] = Inr 7"
proof -
  have z: "dzero False = dbl_of_int 0" "dadd (dzero False) (dzero False) = dzero False" by (simp_all add: dbl_eval)
  have "dadd (dzero False) (dbl_of_int 100) = dbl_of_int 100" "dadd (dzero False) (dbl_of_int 14) = dbl_of_int 14"
    unfolding z(1) by (subst dadd_of_int; simp)+
  moreover have "int_of_dbl (dadd (ddiv (dbl_of_int 100) (dbl_of_int 1)) (dlit 5 1)) = Inr 100"
    "int_of_dbl (dadd (ddiv (dbl_of_int 14) (dbl_of_int 2)) (dlit 5 1)) = Inr 7"
    by (simp_all add: int_of_dbl_def INT_MAX_def INT_MIN_def long_bounds dbl_eval)
  ultimately show "mean_of [dbl_of_int 100] = Inr 100" "mean_of [dzero False, dbl_of_int 14] = Inr 7"
    by (simp_all add: mean_of_def z(2))
qed

theorem analogue_input_dead_band_witness:
  "\<exists>ps f'. AnalogueInput_filter True 50000 100 InputFilterSettings = Inr (100, ps, f') \<and>
    follows 100 50000 InputFilterSettings f' \<and> (''VALUE'', Value_long 100) \<in> set ps"
proof -
  have e: "tolerance InputFilterSettings = 8" "last_time InputFilterSettings = 0" "throttle InputFilterSettings = None"
    "filter_len InputFilterSettings = 12" "last_sent InputFilterSettings = dbl_of_int 0"
    by (simp_all add: InputFilterSettings_def dbl_eval)
  show ?thesis
    using analogue_input_dead_band [of InputFilterSettings 0 10000 100 50000 100 100 True]
    by (auto simp: new_settings_ok e in_int_iff throttle_time_def example_means to_long_def to_u64_def LONG_MAX_def)
qed

text \<open>
  Claim C26. An averaged input that has settled on a value never leaves it for a steady reading whose
  mean with the settled history is within the tolerance, however often the reading is repeated,
  because the history keeps the filtered values.
\<close>

theorem steady_reading_is_not_followed:
  assumes "settled l f" "in_int l" "throttle_time (throttle f) = Inr t" "due_times t (last_time f) ts"
    "mean_of (replicate (nat (filter_len f) - 1) (dbl_of_int l) @ [dbl_of_int raw]) = Inr mean" "\<bar>mean - l\<bar> < tolerance f"
  shows "\<exists>f'. poll_input raw ts f = Inr (replicate (length ts) l, f') \<and> settled l f'"
  using assms
proof (induction ts arbitrary: f)
  case (Cons r rs)
  have "mean_of (rev (map fst (take (nat (filter_len f)) (take (nat (bufsize (positions f)))
      ((dbl_of_int raw, to_u64 (to_long r)) # samples (positions f)))))) = Inr mean"
    using newest_and_settled [OF Cons.prems(1)] Cons.prems(5) by simp
  from AnalogueInput_filter_averaged [OF _ _ _ Cons.prems(2,3) _ this refl, of False] Cons.prems
  obtain ps f1 where f1: "AnalogueInput_filter False r raw f = Inr (l, ps, f1)" "follows l r f f1"
    by (auto simp: settled_def)
  have "filter_len f1 = filter_len f" "tolerance f1 = tolerance f" "throttle f1 = throttle f" "last_time f1 = r"
    using f1(2) by (auto simp: follows_def settings_of_def)
  then obtain f' where "poll_input raw rs f1 = Inr (replicate (length rs) l, f')" "settled l f'"
    using Cons.IH [of f1] Cons.prems settled_follows [OF Cons.prems(1) f1(2)] by auto
  then show ?case using f1(1) by (intro exI [of _ f']) simp
qed auto

definition example_input :: input_filter where
  "example_input = InputFilterSettings\<lparr>filter_len := 2, positions := \<lparr>bufsize = 4, front = 0, back = 0, buf_total = dzero False,
     buf_values = [Some (dzero False), None, None, None], buf_times = [Some 5, None, None, None]\<rparr>, last_time := 5\<rparr>"

theorem steady_reading_is_not_followed_witness:
  "\<exists>f'. poll_input 14 [10005, 20005, 30005] example_input = Inr ([0, 0, 0], f')"
proof -
  have z: "dbl_of_int 0 = dzero False" by (simp add: dbl_eval)
  have "sample_ring_ok (speeds InputFilterSettings)" using new_settings_ok(1) by (simp add: input_ok_def)
  then have "settled 0 example_input"
    by (simp add: settled_def example_input_def input_ok_def averaged_def buffer_ok_def ring_inv_def samples_def ring_list_def
        ring_length_def ring_slot_def to_u32_def z INT_MAX_def InputFilterSettings_def)
  moreover have "due_times 10000 5 [10005, 20005, 30005]" by (simp add: to_long_def to_u64_def LONG_MAX_def)
  ultimately show ?thesis
    using steady_reading_is_not_followed [of 0 example_input 10000 "[10005, 20005, 30005]" 14 7]
    by (auto simp: example_input_def InputFilterSettings_def in_int_iff throttle_time_def z example_means numeral_2_eq_2)
qed

text \<open>A counter with an input scale fails on a negative reading: the conversion to an unsigned number is undefined.\<close>

lemma negative_scaled_reading_undefined:
  "Counter_filter owned 50000 (- 100) (CounterInternals\<lparr>c_input_scale := 10\<rparr>) = Inl ConversionRange"
proof -
  obtain b where b: "createBuffer 200 = Some b" by (simp add: createBuffer_def)
  then obtain b' where b': "addSample b (to_long 50000) (ddiv (dbl_of_int (- 100)) (dbl_of_int 10)) = Inr b'"
    using buffer_ok_createBuffer [OF _ _ b] addSample_history [of b] by (auto simp: INT_MAX_def)
  have "uint_of_dbl (dadd (ddiv (dbl_of_int (- 100)) (dbl_of_int 10)) (dlit 5 1)) = Inl ConversionRange"
    by (simp add: uint_of_dbl_def long_bounds dbl_eval)
  then show ?thesis by (simp add: Counter_filter_def CounterInternals_def b b' counter_value_def)
qed

end
